(* ===== verification/Prelude.thy ===== *)
theory Prelude
  imports Main "HOL-Library.Word"
begin

unbundle bit_operations_syntax

section \<open>Prelude\<close>

text \<open>
  What every component of the development shares: the exceptions the SDK raises, as values of a
  sum type, with a bind that stops at the first exception; the status codes of the component API
  the code returns; C strings; decimal printing of the numbers that go into node identifiers; the
  little-endian layout of machine words in memory; and the collections of simplification rules the
  components add to.
\<close>

named_theorems result_simps \<open>unfolding and splitting of results\<close>
named_theorems conv_simps \<open>rules of the converters between objects and variants\<close>
named_theorems slave_simps \<open>rules of the operations of the state slave\<close>
named_theorems wf_intros \<open>preservation of well-formedness\<close>

subsection \<open>Exceptions and results\<close>

text \<open>
  The classes under \<open>SeRoNet/Exceptions\<close>, the exception of the OPC UA wrapper that the code
  rethrows with a status code, a failed \<open>assert\<close>, the end of the process by \<open>std::terminate\<close>, and a
  read outside an object's memory (undefined behaviour in C++), which is a branch of its own.
\<close>

datatype exn =
    AssertFailed
  | InvalidConversion string
  | OutOfRange string
  | NotImplemented
  | NoDataAvailable
  | BlockingDisabled
  | ResultError string
  | SdkError string
  | Terminated
  | OpcUaError "32 word"
  | UndefinedBehaviour

type_synonym 'a result = "exn + 'a"

fun rbind :: "'e + 'a \<Rightarrow> ('a \<Rightarrow> 'e + 'b) \<Rightarrow> 'e + 'b" where
  "rbind (Inl e) f = Inl e"
| "rbind (Inr a) f = f a"

lemma rbind_cong [fundef_cong]:
  "m = m' \<Longrightarrow> (\<And>a. m' = Inr a \<Longrightarrow> f a = g a) \<Longrightarrow> rbind m f = rbind m' g"
  by (cases m') auto

lemma rbind_eq_Inr [result_simps]: "rbind m f = Inr b \<longleftrightarrow> (\<exists>a. m = Inr a \<and> f a = Inr b)"
  by (cases m) auto

lemma rbind_eq_Inl [result_simps]:
  "rbind m f = Inl e \<longleftrightarrow> m = Inl e \<or> (\<exists>a. m = Inr a \<and> f a = Inl e)"
  by (cases m) auto

lemma rbind_assoc: "rbind (rbind m f) g = rbind m (\<lambda>a. rbind (f a) g)"
  by (cases m) auto

lemma rbind_InrI [intro]: "m = Inr a \<Longrightarrow> f a = r \<Longrightarrow> rbind m f = r"
  by simp

text \<open>Loops over a range or a list whose body may raise: collecting the results, and threading a state.\<close>

fun traverse :: "('a \<Rightarrow> 'e + 'b) \<Rightarrow> 'a list \<Rightarrow> 'e + 'b list" where
  "traverse f [] = Inr []"
| "traverse f (x # xs) = rbind (f x) (\<lambda>y. rbind (traverse f xs) (\<lambda>ys. Inr (y # ys)))"

fun foldM :: "('s \<Rightarrow> 'a \<Rightarrow> 'e + 's) \<Rightarrow> 's \<Rightarrow> 'a list \<Rightarrow> 'e + 's" where
  "foldM f s [] = Inr s"
| "foldM f s (x # xs) = rbind (f s x) (\<lambda>s'. foldM f s' xs)"

lemma traverse_cong [fundef_cong]:
  "xs = ys \<Longrightarrow> (\<And>x. x \<in> set ys \<Longrightarrow> f x = g x) \<Longrightarrow> traverse f xs = traverse g ys"
proof (induction ys arbitrary: xs)
  case (Cons y ys)
  then show ?case by simp
qed simp

lemma foldM_cong [fundef_cong]:
  "s = s' \<Longrightarrow> xs = ys \<Longrightarrow> (\<And>t x. x \<in> set ys \<Longrightarrow> f t x = g t x) \<Longrightarrow> foldM f s xs = foldM g s' ys"
proof (induction ys arbitrary: xs s s')
  case (Cons y ys)
  then show ?case by (simp cong: rbind_cong)
qed simp

lemma traverse_Inr_iff: "traverse f xs = Inr ys \<longleftrightarrow> list_all2 (\<lambda>x y. f x = Inr y) xs ys"
  by (induction xs arbitrary: ys) (auto simp: result_simps list_all2_Cons1)

lemma traverse_all:
  assumes "traverse f xs = Inr ys" "\<And>x y. x \<in> set xs \<Longrightarrow> f x = Inr y \<Longrightarrow> P y"
  shows "list_all P ys"
proof -
  have "P (ys ! n)" if "n < length ys" for n
    using assms(1) that by (intro assms(2) [of "xs ! n"]) (auto simp: traverse_Inr_iff list_all2_conv_all_nth)
  then show ?thesis by (simp add: list_all_length)
qed

lemma traverse_map_Inr: "(\<And>x. x \<in> set xs \<Longrightarrow> f x = Inr (g x)) \<Longrightarrow> traverse f xs = Inr (map g xs)"
  by (induction xs) auto

lemma foldM_append: "foldM f s (xs @ ys) = rbind (foldM f s xs) (\<lambda>s'. foldM f s' ys)"
  by (induction xs arbitrary: s) (auto simp: rbind_assoc)

lemma foldM_invariant:
  "foldM f s xs = Inr t \<Longrightarrow> P s \<Longrightarrow> (\<And>s x t. x \<in> set xs \<Longrightarrow> P s \<Longrightarrow> f s x = Inr t \<Longrightarrow> P t) \<Longrightarrow> P t"
  by (induction xs arbitrary: s) (auto simp: result_simps)

lemma size_elem_less: "x \<in> set xs \<Longrightarrow> f x < size_list f xs"
  by (induction xs) auto

lemma size_nth_less: "i < length xs \<Longrightarrow> f (xs ! i) < size_list f xs"
  by (rule size_elem_less [OF nth_mem])

subsection \<open>Status codes\<close>

text \<open>The enumerators of \<open>Smart::StatusCode\<close> that the code under \<open>SeRoNet\<close> returns or tests.\<close>

datatype status =
    SMART_OK
  | SMART_ERROR
  | SMART_ERROR_COMMUNICATION
  | SMART_NOTACTIVATED
  | SMART_ACTIVATED
  | SMART_NOTALLOWED
  | SMART_CANCELLED
  | SMART_UNKNOWNSTATE
  | SMART_UNKNOWNPORT
  | SMART_PORTALREADYUSED
  | SMART_UNKNOWNCOMPONENT
  | SMART_SERVICEUNAVAILABLE
  | SMART_INCOMPATIBLESERVICE
  | SMART_WRONGID
  | SMART_NODATA
  | SMART_UNSUBSCRIBED

subsection \<open>C strings\<close>

text \<open>
  \<open>s.c_str()\<close> handed to code that reads up to the first NUL byte: \<open>UA_STRING_ALLOC\<close>, or an
  assignment back to \<open>std::string\<close>.
\<close>

definition c_str :: "string \<Rightarrow> string" where
  "c_str s = takeWhile (\<lambda>c. c \<noteq> CHR 0x00) s"

definition no_nul :: "string \<Rightarrow> bool" where
  "no_nul s \<longleftrightarrow> CHR 0x00 \<notin> set s"

lemma c_str_id [simp]: "no_nul s \<Longrightarrow> c_str s = s"
  by (auto simp: c_str_def no_nul_def takeWhile_eq_all_conv)

lemma no_nul_c_str [simp]: "no_nul (c_str s)"
  by (auto simp: c_str_def no_nul_def dest: set_takeWhileD)

lemma c_str_idem [simp]: "c_str (c_str s) = c_str s"
  by simp

subsection \<open>Decimal printing\<close>

text \<open>\<open>ss << n\<close> of an unsigned number.\<close>

definition digit_char :: "nat \<Rightarrow> char" where
  "digit_char d = char_of (48 + d)"

fun show_nat :: "nat \<Rightarrow> string" where
  "show_nat n = (if n < 10 then [digit_char n] else show_nat (n div 10) @ [digit_char (n mod 10)])"

declare show_nat.simps [simp del]

lemma show_nat_85: "show_nat 85 = ''85''"
  by (simp add: show_nat.simps [of 85] show_nat.simps [of 8] digit_char_def char_of_def bit_Suc_0_iff)

lemma digit_char_not_dot: "d < 10 \<Longrightarrow> digit_char d \<noteq> CHR ''.''"
proof
  assume "d < 10" "digit_char d = CHR ''.''"
  then have "of_char (char_of (48 + d) :: char) = (of_char CHR ''.'' :: nat)"
    by (simp add: digit_char_def)
  with \<open>d < 10\<close> show False by simp
qed

lemma show_nat_no_dot: "CHR ''.'' \<notin> set (show_nat n)"
proof (induction n rule: show_nat.induct)
  case (1 n)
  show ?case
  proof (cases "n < 10")
    case True
    then show ?thesis by (simp add: show_nat.simps [of n] digit_char_not_dot [symmetric])
  next
    case False
    with "1.IH" show ?thesis
      by (simp add: show_nat.simps [of n] digit_char_not_dot [symmetric])
  qed
qed

subsection \<open>Words in memory\<close>

text \<open>
  The bytes of a value in memory, least significant first (the byte order of the machines the SDK
  is built for), and the value read back from the first bytes at an address.
\<close>

fun le_bytes :: "nat \<Rightarrow> 64 word \<Rightarrow> 8 word list" where
  "le_bytes 0 w = []"
| "le_bytes (Suc n) w = ucast w # le_bytes n (drop_bit 8 w)"

fun le_word :: "8 word list \<Rightarrow> 64 word" where
  "le_word [] = 0"
| "le_word (b # bs) = ucast b OR push_bit 8 (le_word bs)"

lemma length_le_bytes [simp]: "length (le_bytes n w) = n"
  by (induction n arbitrary: w) auto

lemma take_le_bytes: "take m (le_bytes n w) = le_bytes (min m n) w"
proof (induction m arbitrary: n w)
  case (Suc m)
  then show ?case by (cases n) auto
qed simp

lemma le_word_le_bytes: "le_word (le_bytes n w) = take_bit (8 * n) w"
proof (induction n arbitrary: w)
  case 0
  show ?case by simp
next
  case (Suc n)
  have "ucast (ucast w :: 8 word) OR push_bit 8 (take_bit (8 * n) (drop_bit 8 w))
    = take_bit (8 * Suc n) w"
    by (rule bit_word_eqI)
      (auto simp: bit_or_iff bit_ucast_iff bit_push_bit_iff bit_take_bit_iff bit_drop_bit_eq not_le)
  with Suc.IH show ?case by simp
qed

lemma le_word_le_bytes_ucast:
  fixes w :: "'a::len word"
  assumes "8 * n = LENGTH('a)" "n \<le> 8"
  shows "ucast (le_word (le_bytes n (ucast w))) = w"
  by (rule bit_word_eqI)
    (use assms in \<open>auto simp: le_word_le_bytes bit_ucast_iff bit_take_bit_iff\<close>)

text \<open>Reading the \<open>i\<close>-th of a run of equally long chunks.\<close>

definition chunk :: "nat \<Rightarrow> nat \<Rightarrow> 'a list \<Rightarrow> 'a list" where
  "chunk n i bs = take n (drop (n * i) bs)"

lemma chunk_append_concat:
  assumes "\<forall>x \<in> set xss. length x = n" "i < length xss"
  shows "chunk n i (concat xss) = xss ! i"
  using assms
proof (induction xss arbitrary: i)
  case (Cons x xss)
  then show ?case
    by (cases i) (auto simp: chunk_def drop_append)
qed simp

lemma length_concat_uniform: "\<forall>x \<in> set xss. length x = n \<Longrightarrow> length (concat xss) = n * length xss"
  by (induction xss) auto

end
