(* ===== verification/Descriptions.thy ===== *)
theory Descriptions
  imports Prelude
begin

section \<open>Self-descriptions of communication objects\<close>

text \<open>
  \<open>CommunicationObjects/Description\<close>: the tree a communication object is described by, with the
  values its getters return. A \<open>ComplexType\<close> holds a list of descriptions, an \<open>ElementArray\<close> (its
  only implementation is \<open>ArrayOf\<close>) a vector of elements of one type, an \<open>ElementPrimitive\<close> one
  value. A getter or setter reads or writes the described member, so the described object is the
  tree of its leaf values: setting a leaf gives the tree with that leaf replaced. Machine integers
  keep their width; \<open>float\<close> and \<open>double\<close> are their bit patterns.
\<close>

datatype prim =
    PBool bool
  | PInt8 "8 word"
  | PInt16 "16 word"
  | PInt32 "32 word"
  | PInt64 "64 word"
  | PUInt8 "8 word"
  | PUInt16 "16 word"
  | PUInt32 "32 word"
  | PUInt64 "64 word"
  | PFloat "32 word"
  | PDouble "64 word"
  | PString string

text \<open>
  An array carries the description of a default-constructed element (\<open>getNewElement\<close>), which the
  converters visit to find the element type, and the descriptions of its elements.
\<close>

datatype desc =
    Complex string "desc list"
  | ElemArray string desc "desc list"
  | ElemPrim string prim

fun getName :: "desc \<Rightarrow> string" where
  "getName (Complex n ds) = n"
| "getName (ElemArray n p es) = n"
| "getName (ElemPrim n p) = n"

text \<open>\<open>ComplexType::add\<close> appends at the end; on the other nodes it does not exist.\<close>

fun complex_add :: "desc \<Rightarrow> desc \<Rightarrow> desc" where
  "complex_add (Complex n ds) d = Complex n (ds @ [d])"
| "complex_add d _ = d"

subsection \<open>Types of descriptions\<close>

text \<open>
  The C++ type of a description: which \<open>SelfDescription\<close> overload built it. Two descriptions of the
  same type differ in their leaf values and in the length of their vectors only.
\<close>

datatype prim_kind =
  KBool | KInt8 | KInt16 | KInt32 | KInt64 | KUInt8 | KUInt16 | KUInt32 | KUInt64
  | KFloat | KDouble | KString

fun kind_of :: "prim \<Rightarrow> prim_kind" where
  "kind_of (PBool _) = KBool"
| "kind_of (PInt8 _) = KInt8"
| "kind_of (PInt16 _) = KInt16"
| "kind_of (PInt32 _) = KInt32"
| "kind_of (PInt64 _) = KInt64"
| "kind_of (PUInt8 _) = KUInt8"
| "kind_of (PUInt16 _) = KUInt16"
| "kind_of (PUInt32 _) = KUInt32"
| "kind_of (PUInt64 _) = KUInt64"
| "kind_of (PFloat _) = KFloat"
| "kind_of (PDouble _) = KDouble"
| "kind_of (PString _) = KString"

fun same_type :: "desc \<Rightarrow> desc \<Rightarrow> bool" and same_types :: "desc list \<Rightarrow> desc list \<Rightarrow> bool" where
  "same_type (Complex n ds) (Complex m es) = (n = m \<and> same_types ds es)"
| "same_type (ElemArray n p xs) (ElemArray m q ys) = (n = m \<and> p = q)"
| "same_type (ElemPrim n p) (ElemPrim m q) = (n = m \<and> kind_of p = kind_of q)"
| "same_type _ _ = False"
| "same_types [] [] = True"
| "same_types (d # ds) (e # es) = (same_type d e \<and> same_types ds es)"
| "same_types _ _ = False"

lemma same_types_iff: "same_types ds es \<longleftrightarrow> list_all2 same_type ds es"
  by (induction ds es rule: list_induct2') auto

lemma same_type_refl [simp]: "same_type d d"
  by (induction d) (auto simp: same_types_iff list.rel_refl_strong)

subsection \<open>Arrays\<close>

text \<open>
  \<open>ArrayOf\<close>: the vector it holds, and the getter and setter of its source, a value of any type. An
  element handed to it is one of its own element type or another (the dynamic cast fails); \<open>d\<close> is the
  value a default-constructed element has.
\<close>

record ('t, 's) array_of =
  m_get :: "'s \<Rightarrow> 't list"
  m_set :: "'t list \<Rightarrow> 's \<Rightarrow> 's"
  m_vec :: "'t list"

datatype 't array_element = ElementOf 't | ForeignElement

definition acquireVector :: "'s \<Rightarrow> ('t, 's) array_of \<Rightarrow> ('t, 's) array_of" where
  "acquireVector s x = x \<lparr> m_vec := m_get x s \<rparr>"

definition new_array_of :: "('s \<Rightarrow> 't list) \<Rightarrow> ('t list \<Rightarrow> 's \<Rightarrow> 's) \<Rightarrow> 's \<Rightarrow> ('t, 's) array_of" where
  "new_array_of getter setter s = acquireVector s \<lparr> m_get = getter, m_set = setter, m_vec = [] \<rparr>"

definition getElement :: "nat \<Rightarrow> ('t, 's) array_of \<Rightarrow> 't array_element result" where
  "getElement index x = (if index \<ge> length (m_vec x) then Inl (OutOfRange ''Index out of range.'')
     else Inr (ElementOf (m_vec x ! index)))"

definition getNewElement :: "'t \<Rightarrow> 't array_element" where
  "getNewElement d = ElementOf d"

definition array_push_back :: "'t array_element \<Rightarrow> ('t, 's) array_of \<Rightarrow> ('t, 's) array_of result" where
  "array_push_back el x = (case el of
     ForeignElement \<Rightarrow> Inl (InvalidConversion ''ArrayElement has the wrong type!'')
   | ElementOf v \<Rightarrow> Inr (x \<lparr> m_vec := m_vec x @ [v] \<rparr>))"

definition array_clear :: "('t, 's) array_of \<Rightarrow> ('t, 's) array_of" where
  "array_clear x = x \<lparr> m_vec := [] \<rparr>"

definition array_size :: "('t, 's) array_of \<Rightarrow> nat" where
  "array_size x = length (m_vec x)"

definition setVector :: "('t, 's) array_of \<Rightarrow> 's \<Rightarrow> 's" where
  "setVector x s = m_set x (m_vec x) s"

text \<open>The elements up to the size are read in order, the one after them is out of range.\<close>

lemma array_elements:
  "traverse (\<lambda>i. getElement i x) [0..<array_size x] = Inr (map ElementOf (m_vec x))"
  "getElement (array_size x) x = Inl (OutOfRange ''Index out of range.'')"
  by (auto simp: array_size_def getElement_def traverse_Inr_iff list_all2_conv_all_nth)

text \<open>
  Elements pushed after the vector was acquired are appended to what the source held; only after
  \<open>clear\<close> does the source get these elements alone. This is what the trees above keep of an array.
\<close>

lemma array_pushes:
  "foldM (\<lambda>x v. array_push_back (ElementOf v) x) x vs = Inr (x \<lparr> m_vec := m_vec x @ vs \<rparr>)"
  by (induction vs arbitrary: x) (simp_all add: array_push_back_def)

lemma array_writes_back:
  assumes "\<And>v s. getter (setter v s) = v" "foldM (\<lambda>x v. array_push_back (ElementOf v) x) (new_array_of getter setter s) vs = Inr x"
    and "foldM (\<lambda>x v. array_push_back (ElementOf v) x) (array_clear (new_array_of getter setter s)) vs = Inr y"
  shows "getter (setVector x s) = getter s @ vs" "getter (setVector y s) = vs"
  using assms by (auto simp: array_pushes new_array_of_def acquireVector_def setVector_def array_clear_def)

end
