(* ===== verification/UaVariant.thy ===== *)
theory UaVariant
  imports Prelude
begin

section \<open>OPC UA variants and the interface to open62541\<close>

text \<open>
  The part of the OPC UA stack the converters are written against. The structures they read and
  write field by field (\<open>UA_Variant\<close>: the type, \<open>arrayLength\<close>, \<open>arrayDimensions\<close>, the memory behind
  \<open>data\<close>) are modelled as data. The functions of the stack are not part of the repository: they are
  the fields of the record \<open>ua_api\<close>, an argument of every definition that calls them, and
  \<open>api_ok\<close> lists what their documentation promises and the code relies on.
\<close>

text \<open>The entries of \<open>UA_TYPES\<close> the code uses; the converters compare their indices.\<close>

datatype ua_type =
    UA_BOOLEAN
  | UA_BYTE
  | UA_INT16
  | UA_UINT16
  | UA_INT32
  | UA_UINT32
  | UA_INT64
  | UA_UINT64
  | UA_FLOAT
  | UA_DOUBLE
  | UA_STRING
  | UA_NODEID
  | UA_VARIANT

text \<open>
  The memory behind \<open>data\<close>: numbers are bytes, which C++ reads back at whatever type it casts the
  pointer to; strings and variants are structures with pointers of their own.
\<close>

datatype cells = Bytes "8 word list" | Strs "string list" | Vars "variant list"
  and variant = Variant (vtype: "ua_type option") (vlen: nat) (vdims: "32 word list") (vdata: cells)

text \<open>Setting \<open>arrayDimensions\<close> and \<open>arrayDimensionsSize\<close>.\<close>

fun set_dims :: "32 word list \<Rightarrow> variant \<Rightarrow> variant" where
  "set_dims ds (Variant t n _ c) = Variant t n ds c"

fun set_data :: "cells \<Rightarrow> variant \<Rightarrow> variant" where
  "set_data c (Variant t n ds _) = Variant t n ds c"

lemma variant_updates [simp]:
  "vtype (set_dims ds v) = vtype v" "vlen (set_dims ds v) = vlen v" "vdims (set_dims ds v) = ds"
  "vdata (set_dims ds v) = vdata v"
  "vtype (set_data c v) = vtype v" "vlen (set_data c v) = vlen v" "vdims (set_data c v) = vdims v"
  "vdata (set_data c v) = c"
  by (cases v; simp)+

text \<open>The size in memory of the numeric types.\<close>

fun ua_size :: "ua_type \<Rightarrow> nat" where
  "ua_size UA_BOOLEAN = 1"
| "ua_size UA_BYTE = 1"
| "ua_size UA_INT16 = 2"
| "ua_size UA_UINT16 = 2"
| "ua_size UA_INT32 = 4"
| "ua_size UA_UINT32 = 4"
| "ua_size UA_INT64 = 8"
| "ua_size UA_UINT64 = 8"
| "ua_size UA_FLOAT = 4"
| "ua_size UA_DOUBLE = 8"
| "ua_size _ = 0"

text \<open>The value of an uninitialised element of an array from \<open>UA_Array_new\<close>, which zeroes it.\<close>

definition null_variant :: variant where
  "null_variant = Variant None 0 [] (Bytes [])"

fun zero_cells :: "nat \<Rightarrow> ua_type \<Rightarrow> cells" where
  "zero_cells n UA_STRING = Strs (replicate n '''')"
| "zero_cells n UA_VARIANT = Vars (replicate n null_variant)"
| "zero_cells n t = Bytes (replicate (n * ua_size t) 0)"

subsection \<open>The functions of the stack\<close>

text \<open>
  \<open>UA_Variant_setScalarCopy\<close>, \<open>UA_Array_new\<close>, \<open>UA_Variant_setArray\<close>, \<open>UA_Variant_setArrayCopy\<close> on
  an array of variants, \<open>UA_Variant_copy\<close>, \<open>UA_STRING_ALLOC\<close>; and of the C++ wrapper \<open>is_a\<close>,
  \<open>getDataAs\<close>, the copy constructor of \<open>open62541Cpp::UA_Variant\<close>, \<open>operator[]\<close> of
  \<open>UA_ArrayOfVariant\<close> and the two conversions of \<open>open62541Cpp::UA_String\<close>.
\<close>

record ua_api =
  setScalarCopy :: "cells \<Rightarrow> ua_type \<Rightarrow> variant"
  Array_new :: "nat \<Rightarrow> ua_type \<Rightarrow> cells"
  setArray :: "cells \<Rightarrow> nat \<Rightarrow> ua_type \<Rightarrow> variant"
  setArrayCopy :: "variant list \<Rightarrow> variant"
  Variant_copy :: "variant \<Rightarrow> variant"
  String_alloc :: "string \<Rightarrow> string"
  is_a :: "variant \<Rightarrow> ua_type \<Rightarrow> bool"
  getData :: "variant \<Rightarrow> cells"
  cpp_copy :: "variant \<Rightarrow> variant"
  variant_at :: "variant list \<Rightarrow> nat \<Rightarrow> variant"
  String_of_std :: "string \<Rightarrow> string"
  std_of_String :: "string \<Rightarrow> string"

definition api_ok :: "ua_api \<Rightarrow> bool" where
  "api_ok a \<longleftrightarrow>
    (\<forall>c t. setScalarCopy a c t = Variant (Some t) 0 [] c) \<and>
    (\<forall>n t. Array_new a n t = zero_cells n t) \<and>
    (\<forall>c n t. setArray a c n t = Variant (Some t) n [] c) \<and>
    (\<forall>vs. setArrayCopy a vs = Variant (Some UA_VARIANT) (length vs) [] (Vars vs)) \<and>
    (\<forall>v. Variant_copy a v = v) \<and> (\<forall>v. cpp_copy a v = v) \<and>
    (\<forall>s. no_nul s \<longrightarrow> String_alloc a s = s) \<and>
    (\<forall>c t. is_a a (Variant (Some t) 0 [] c) t) \<and>
    (\<forall>v t. is_a a v t \<longrightarrow> vtype v = Some t) \<and> (\<forall>v. getData a v = vdata v) \<and>
    (\<forall>vs i. i < length vs \<longrightarrow> variant_at a vs i = vs ! i) \<and>
    (\<forall>s. String_of_std a s = s) \<and> (\<forall>s. std_of_String a s = s)"

text \<open>A stack that keeps those promises, for evaluating the model.\<close>

definition std_api :: ua_api where
  "std_api = \<lparr> setScalarCopy = \<lambda>c t. Variant (Some t) 0 [] c,
     Array_new = zero_cells,
     setArray = \<lambda>c n t. Variant (Some t) n [] c,
     setArrayCopy = \<lambda>vs. Variant (Some UA_VARIANT) (length vs) [] (Vars vs),
     Variant_copy = (\<lambda>v. v), String_alloc = c_str, is_a = \<lambda>v t. vtype v = Some t,
     getData = vdata, cpp_copy = (\<lambda>v. v), variant_at = (!),
     String_of_std = (\<lambda>s. s), std_of_String = (\<lambda>s. s) \<rparr>"

lemma std_api_ok [simp]: "api_ok std_api"
  by (simp add: api_ok_def std_api_def)

lemma api_okD [conv_simps]:
  assumes "api_ok a"
  shows "setScalarCopy a c t = Variant (Some t) 0 [] c"
    "Array_new a n t = zero_cells n t"
    "setArray a c n t = Variant (Some t) n [] c"
    "setArrayCopy a vs = Variant (Some UA_VARIANT) (length vs) [] (Vars vs)"
    "Variant_copy a v = v" "cpp_copy a v = v"
    "no_nul s \<Longrightarrow> String_alloc a s = s"
    "is_a a (Variant (Some t) 0 [] c) t" "getData a v = vdata v"
    "i < length vs \<Longrightarrow> variant_at a vs i = vs ! i"
    "String_of_std a s = s" "std_of_String a s = s"
  using assms by (auto simp: api_ok_def)

lemma api_is_aD: "api_ok a \<Longrightarrow> is_a a v t \<Longrightarrow> vtype v = Some t"
  by (simp add: api_ok_def)

subsection \<open>Reading and writing memory\<close>

text \<open>
  A typed access at an index of a buffer: outside the buffer, or at a buffer of the other kind, it is
  undefined behaviour.
\<close>

fun read_word :: "nat \<Rightarrow> nat \<Rightarrow> cells \<Rightarrow> 64 word result" where
  "read_word w i (Bytes bs) =
     (if w * (i + 1) \<le> length bs then Inr (le_word (chunk w i bs)) else Inl UndefinedBehaviour)"
| "read_word w i _ = Inl UndefinedBehaviour"

fun read_str :: "nat \<Rightarrow> cells \<Rightarrow> string result" where
  "read_str i (Strs ss) = (if i < length ss then Inr (ss ! i) else Inl UndefinedBehaviour)"
| "read_str i _ = Inl UndefinedBehaviour"

fun read_var :: "nat \<Rightarrow> cells \<Rightarrow> variant result" where
  "read_var i (Vars vs) = (if i < length vs then Inr (vs ! i) else Inl UndefinedBehaviour)"
| "read_var i _ = Inl UndefinedBehaviour"

text \<open>The array of \<open>n\<close> variants at an address.\<close>

fun var_array :: "cells \<Rightarrow> nat \<Rightarrow> variant list result" where
  "var_array (Vars vs) n = (if n \<le> length vs then Inr (take n vs) else Inl UndefinedBehaviour)"
| "var_array _ n = (if n = 0 then Inr [] else Inl UndefinedBehaviour)"

fun write_bytes :: "nat \<Rightarrow> 8 word list \<Rightarrow> cells \<Rightarrow> cells result" where
  "write_bytes i ws (Bytes bs) =
     (if length ws * (i + 1) \<le> length bs
      then Inr (Bytes (take (length ws * i) bs @ ws @ drop (length ws * (i + 1)) bs))
      else Inl UndefinedBehaviour)"
| "write_bytes i ws _ = Inl UndefinedBehaviour"

fun write_str :: "nat \<Rightarrow> string \<Rightarrow> cells \<Rightarrow> cells result" where
  "write_str i s (Strs ss) = (if i < length ss then Inr (Strs (ss[i := s])) else Inl UndefinedBehaviour)"
| "write_str i s _ = Inl UndefinedBehaviour"

fun write_var :: "nat \<Rightarrow> variant \<Rightarrow> cells \<Rightarrow> cells result" where
  "write_var i v (Vars vs) = (if i < length vs then Inr (Vars (vs[i := v])) else Inl UndefinedBehaviour)"
| "write_var i v _ = Inl UndefinedBehaviour"

text \<open>The \<open>i\<close>-th chunk of a buffer of chunks of one size, replaced.\<close>

lemma write_chunk_next:
  assumes "length ws = w" "length pre = w * i" "length rest = w"
  shows "write_bytes i ws (Bytes (pre @ rest @ post)) = Inr (Bytes (pre @ ws @ post))"
  using assms by (auto simp: algebra_simps)

end
