(* ===== verification/Converter.thy ===== *)
theory Converter
  imports Descriptions UaVariant
begin

section \<open>Converting communication objects to variants and back\<close>

text \<open>
  \<open>OPCUA/Converter\<close>: the visitors that turn a described object into the array of variants sent over
  the wire (\<open>CommObjectToUaVariantArray\<close>, \<open>CommObjArrayToValue\<close>), the visitors that read such an
  array back into an object (\<open>UaVariantArrayToCommObject\<close>, \<open>VariantToCommObjArray\<close>) and the ones that
  declare its signature (\<open>CommObjectToUaArgument\<close>, \<open>CommObjArrayToTypeIndex\<close>). Each visitor has a
  \<open>visit\<close> overload per primitive type: its table of types is one function here.
\<close>

subsection \<open>The bytes of a primitive value\<close>

fun prim_word :: "prim \<Rightarrow> 64 word" where
  "prim_word (PBool b) = (if b then 1 else 0)"
| "prim_word (PInt8 w) = ucast w"
| "prim_word (PInt16 w) = ucast w"
| "prim_word (PInt32 w) = ucast w"
| "prim_word (PInt64 w) = w"
| "prim_word (PUInt8 w) = ucast w"
| "prim_word (PUInt16 w) = ucast w"
| "prim_word (PUInt32 w) = ucast w"
| "prim_word (PUInt64 w) = w"
| "prim_word (PFloat w) = ucast w"
| "prim_word (PDouble w) = w"
| "prim_word (PString s) = 0"

text \<open>The width of the C++ type, in bytes; a string has none.\<close>

fun prim_size :: "prim \<Rightarrow> nat" where
  "prim_size (PBool _) = 1"
| "prim_size (PInt8 _) = 1"
| "prim_size (PInt16 _) = 2"
| "prim_size (PInt32 _) = 4"
| "prim_size (PInt64 _) = 8"
| "prim_size (PUInt8 _) = 1"
| "prim_size (PUInt16 _) = 2"
| "prim_size (PUInt32 _) = 4"
| "prim_size (PUInt64 _) = 8"
| "prim_size (PFloat _) = 4"
| "prim_size (PDouble _) = 8"
| "prim_size (PString _) = 0"

definition prim_bytes :: "prim \<Rightarrow> 8 word list" where
  "prim_bytes p = le_bytes (prim_size p) (prim_word p)"

subsection \<open>\<open>ToUaVariantArrayVisitor\<close> and \<open>CommObjArrayToValue\<close>\<close>

text \<open>The \<open>UA_TYPES\<close> entry \<open>ToUaVariantArrayVisitor\<close> tags a scalar with.\<close>

fun scalar_type :: "prim \<Rightarrow> ua_type" where
  "scalar_type (PBool _) = UA_BOOLEAN"
| "scalar_type (PInt8 _) = UA_BYTE"
| "scalar_type (PInt16 _) = UA_INT16"
| "scalar_type (PInt32 _) = UA_INT32"
| "scalar_type (PInt64 _) = UA_INT64"
| "scalar_type (PUInt8 _) = UA_BYTE"
| "scalar_type (PUInt16 _) = UA_UINT16"
| "scalar_type (PUInt32 _) = UA_UINT32"
| "scalar_type (PUInt64 _) = UA_UINT64"
| "scalar_type (PFloat _) = UA_FLOAT"
| "scalar_type (PDouble _) = UA_DOUBLE"
| "scalar_type (PString _) = UA_STRING"

definition scalar_variant :: "ua_api \<Rightarrow> prim \<Rightarrow> variant" where
  "scalar_variant a p = (case p of
     PString s \<Rightarrow> setScalarCopy a (Strs [String_of_std a s]) (scalar_type p)
   | _ \<Rightarrow> setScalarCopy a (Bytes (prim_bytes p)) (scalar_type p))"

text \<open>\<open>InitializeArrayVisitor\<close>: the element type of the array, from a default element.\<close>

fun array_type :: "desc \<Rightarrow> ua_type" where
  "array_type (Complex _ _) = UA_VARIANT"
| "array_type (ElemArray _ _ _) = UA_VARIANT"
| "array_type (ElemPrim _ (PBool _)) = UA_BOOLEAN"
| "array_type (ElemPrim _ (PInt8 _)) = UA_BYTE"
| "array_type (ElemPrim _ (PInt16 _)) = UA_INT16"
| "array_type (ElemPrim _ (PInt32 _)) = UA_INT32"
| "array_type (ElemPrim _ (PInt64 _)) = UA_INT64"
| "array_type (ElemPrim _ (PUInt8 _)) = UA_BYTE"
| "array_type (ElemPrim _ (PUInt16 _)) = UA_UINT16"
| "array_type (ElemPrim _ (PUInt32 _)) = UA_UINT32"
| "array_type (ElemPrim _ (PUInt64 _)) = UA_UINT64"
| "array_type (ElemPrim _ (PFloat _)) = UA_FLOAT"
| "array_type (ElemPrim _ (PDouble _)) = UA_DOUBLE"
| "array_type (ElemPrim _ (PString _)) = UA_STRING"

text \<open>\<open>setArrayType\<close>: a zeroed array of the type with one dimension, its length as a \<open>UA_UInt32\<close>.\<close>

definition setArrayType :: "ua_api \<Rightarrow> nat \<Rightarrow> ua_type \<Rightarrow> variant" where
  "setArrayType a n t = set_dims [of_nat n] (setArray a (Array_new a n t) n t)"

text \<open>\<open>SetArrayElementVisitor\<close> on a primitive: a typed store at the index.\<close>

definition set_prim_elem :: "ua_api \<Rightarrow> variant \<Rightarrow> nat \<Rightarrow> prim \<Rightarrow> variant result" where
  "set_prim_elem a v i p =
     rbind (case p of
              PString s \<Rightarrow> write_str i (String_alloc a (c_str s)) (vdata v)
            | _ \<Rightarrow> write_bytes i (prim_bytes p) (vdata v))
       (\<lambda>c. Inr (set_data c v))"

definition set_var_elem :: "variant \<Rightarrow> nat \<Rightarrow> variant \<Rightarrow> variant result" where
  "set_var_elem v i w = rbind (write_var i w (vdata v)) (\<lambda>c. Inr (set_data c v))"

text \<open>
  The three visitors call each other: \<open>to_variants\<close> is \<open>ToUaVariantArrayVisitor\<close>, whose list grows at
  the end; \<open>array_value\<close> is the constructor of \<open>CommObjArrayToValue\<close>; \<open>set_elem\<close> is
  \<open>SetArrayElementVisitor\<close>, which for a complex element runs \<open>CommObjectToUaVariantArray\<close> (the list of
  the visitor copied into an array) and for a nested array \<open>CommObjArrayToValue\<close>.
\<close>

function (sequential) to_variants :: "ua_api \<Rightarrow> desc \<Rightarrow> variant list result"
  and to_variants_all :: "ua_api \<Rightarrow> desc list \<Rightarrow> variant list result"
  and array_value :: "ua_api \<Rightarrow> desc \<Rightarrow> desc list \<Rightarrow> variant result"
  and set_elem :: "ua_api \<Rightarrow> variant \<Rightarrow> nat \<Rightarrow> desc \<Rightarrow> variant result" where
  "to_variants a (Complex n ds) = to_variants_all a ds"
| "to_variants a (ElemPrim n p) = Inr [scalar_variant a p]"
| "to_variants a (ElemArray n p es) = rbind (array_value a p es) (\<lambda>v. Inr [cpp_copy a v])"
| "to_variants_all a [] = Inr []"
| "to_variants_all a (d # ds) =
     rbind (to_variants a d) (\<lambda>vs. rbind (to_variants_all a ds) (\<lambda>ws. Inr (vs @ ws)))"
| "array_value a p es =
     foldM (\<lambda>v (i, e). set_elem a v i e) (setArrayType a (length es) (array_type p)) (enumerate 0 es)"
| "set_elem a v i (Complex n ds) =
     rbind (to_variants_all a ds) (\<lambda>vs.
       set_var_elem v i (set_dims [of_nat (length vs)] (setArrayCopy a (map (Variant_copy a) vs))))"
| "set_elem a v i (ElemArray n p es) =
     rbind (array_value a p es) (\<lambda>w. set_var_elem v i (Variant_copy a w))"
| "set_elem a v i (ElemPrim n p) = set_prim_elem a v i p"
  by pat_completeness auto
termination
  by (relation "measure (case_sum
        (case_sum (\<lambda>(a, d). size d) (\<lambda>(a, ds). size_list size ds))
        (case_sum (\<lambda>(a, p, es). size_list size es) (\<lambda>(a, v, i, d). size d)))")
    (auto simp: in_set_enumerate_eq size_nth_less)

text \<open>\<open>CommObjectToUaVariantArray\<close>: the visitor's list copied into the array that is sent.\<close>

definition CommObjectToUaVariantArray :: "ua_api \<Rightarrow> desc \<Rightarrow> variant list result" where
  "CommObjectToUaVariantArray a d = rbind (to_variants a d) (\<lambda>vs. Inr (map (Variant_copy a) vs))"

subsection \<open>\<open>ToCommObjectVisitor\<close> and \<open>ToCommObjArrayVisitor\<close>\<close>

text \<open>The type \<open>ToCommObjectVisitor\<close> asks of the next variant, and how it reads a value out of it.\<close>

fun expected_type :: "prim \<Rightarrow> ua_type" where
  "expected_type (PBool _) = UA_BOOLEAN"
| "expected_type (PInt8 _) = UA_BYTE"
| "expected_type (PInt16 _) = UA_INT16"
| "expected_type (PInt32 _) = UA_INT32"
| "expected_type (PInt64 _) = UA_INT64"
| "expected_type (PUInt8 _) = UA_BYTE"
| "expected_type (PUInt16 _) = UA_UINT16"
| "expected_type (PUInt32 _) = UA_UINT32"
| "expected_type (PUInt64 _) = UA_UINT64"
| "expected_type (PFloat _) = UA_FLOAT"
| "expected_type (PDouble _) = UA_DOUBLE"
| "expected_type (PString _) = UA_STRING"

text \<open>
  \<open>get_word n i c\<close> casts the data to a type of \<open>n\<close> bytes and reads the value at the index. The \<open>uint64_t\<close>
  overload reads a \<open>UA_UInt32\<close>.
\<close>

fun read_scalar :: "ua_api \<Rightarrow> prim \<Rightarrow> cells \<Rightarrow> prim result" where
  "read_scalar a (PBool _) c = rbind (read_word 1 0 c) (\<lambda>w. Inr (PBool (w \<noteq> 0)))"
| "read_scalar a (PInt8 _) c = rbind (read_word 1 0 c) (\<lambda>w. Inr (PInt8 (ucast w)))"
| "read_scalar a (PInt16 _) c = rbind (read_word 2 0 c) (\<lambda>w. Inr (PInt16 (ucast w)))"
| "read_scalar a (PInt32 _) c = rbind (read_word 4 0 c) (\<lambda>w. Inr (PInt32 (ucast w)))"
| "read_scalar a (PInt64 _) c = rbind (read_word 8 0 c) (\<lambda>w. Inr (PInt64 w))"
| "read_scalar a (PUInt8 _) c = rbind (read_word 1 0 c) (\<lambda>w. Inr (PUInt8 (ucast w)))"
| "read_scalar a (PUInt16 _) c = rbind (read_word 2 0 c) (\<lambda>w. Inr (PUInt16 (ucast w)))"
| "read_scalar a (PUInt32 _) c = rbind (read_word 4 0 c) (\<lambda>w. Inr (PUInt32 (ucast w)))"
| "read_scalar a (PUInt64 _) c = rbind (read_word 4 0 c) (\<lambda>w. Inr (PUInt64 (ucast (ucast w :: 32 word))))"
| "read_scalar a (PFloat _) c = rbind (read_word 4 0 c) (\<lambda>w. Inr (PFloat (ucast w)))"
| "read_scalar a (PDouble _) c = rbind (read_word 8 0 c) (\<lambda>w. Inr (PDouble w))"
| "read_scalar a (PString _) c = rbind (read_str 0 c) (\<lambda>s. Inr (PString (std_of_String a s)))"

text \<open>
  A primitive: the assertion that a variant is left, the next index, the type test (which prints a
  message and leaves the member as it was), the store into the member.
\<close>

definition visit_prim :: "ua_api \<Rightarrow> variant list \<Rightarrow> nat \<Rightarrow> prim \<Rightarrow> (prim \<times> nat) result" where
  "visit_prim a src next p =
    (if \<not> next < length src then Inl AssertFailed
     else
       let nextData = variant_at a src next in
       if \<not> is_a a nextData (expected_type p) then Inr (p, next + 1)
       else rbind (read_scalar a p (getData a nextData)) (\<lambda>q. Inr (q, next + 1)))"

text \<open>
  \<open>ToCommObjArrayVisitor\<close> on a primitive: the type it compares, the message it throws, the value it
  reads at the index. The \<open>int64_t\<close> overload reads an array of \<open>int32_t\<close>.
\<close>

fun elem_type :: "prim \<Rightarrow> ua_type" where
  "elem_type (PBool _) = UA_BOOLEAN"
| "elem_type (PInt8 _) = UA_BYTE"
| "elem_type (PInt16 _) = UA_INT16"
| "elem_type (PInt32 _) = UA_INT32"
| "elem_type (PInt64 _) = UA_INT64"
| "elem_type (PUInt8 _) = UA_BYTE"
| "elem_type (PUInt16 _) = UA_UINT16"
| "elem_type (PUInt32 _) = UA_UINT32"
| "elem_type (PUInt64 _) = UA_UINT64"
| "elem_type (PFloat _) = UA_FLOAT"
| "elem_type (PDouble _) = UA_DOUBLE"
| "elem_type (PString _) = UA_STRING"

fun elem_error :: "prim \<Rightarrow> string" where
  "elem_error (PBool _) = ''Expected Bool''"
| "elem_error (PInt8 _) = ''Expected int8''"
| "elem_error (PInt16 _) = ''Expected int16''"
| "elem_error (PInt32 _) = ''Expected int32''"
| "elem_error (PInt64 _) = ''Expected int32''"
| "elem_error (PUInt8 _) = ''Expected int8''"
| "elem_error (PUInt16 _) = ''Expected uint16_t''"
| "elem_error (PUInt32 _) = ''Expected uint32_t''"
| "elem_error (PUInt64 _) = ''Expected uint64_t''"
| "elem_error (PFloat _) = ''Expected float''"
| "elem_error (PDouble _) = ''Expected double''"
| "elem_error (PString _) = ''Expected int32''"

fun read_elem :: "prim \<Rightarrow> nat \<Rightarrow> cells \<Rightarrow> prim result" where
  "read_elem (PBool _) i c = rbind (read_word 1 i c) (\<lambda>w. Inr (PBool (w = 1)))"
| "read_elem (PInt8 _) i c = rbind (read_word 1 i c) (\<lambda>w. Inr (PInt8 (ucast w)))"
| "read_elem (PInt16 _) i c = rbind (read_word 2 i c) (\<lambda>w. Inr (PInt16 (ucast w)))"
| "read_elem (PInt32 _) i c = rbind (read_word 4 i c) (\<lambda>w. Inr (PInt32 (ucast w)))"
| "read_elem (PInt64 _) i c = rbind (read_word 4 i c) (\<lambda>w. Inr (PInt64 (scast (ucast w :: 32 word))))"
| "read_elem (PUInt8 _) i c = rbind (read_word 1 i c) (\<lambda>w. Inr (PUInt8 (ucast w)))"
| "read_elem (PUInt16 _) i c = rbind (read_word 2 i c) (\<lambda>w. Inr (PUInt16 (ucast w)))"
| "read_elem (PUInt32 _) i c = rbind (read_word 4 i c) (\<lambda>w. Inr (PUInt32 (ucast w)))"
| "read_elem (PUInt64 _) i c = rbind (read_word 8 i c) (\<lambda>w. Inr (PUInt64 w))"
| "read_elem (PFloat _) i c = rbind (read_word 4 i c) (\<lambda>w. Inr (PFloat (ucast w)))"
| "read_elem (PDouble _) i c = rbind (read_word 8 i c) (\<lambda>w. Inr (PDouble w))"
| "read_elem (PString _) i c = rbind (read_str i c) (\<lambda>s. Inr (PString s))"

text \<open>The type of the variant, whose pointer is followed without a test.\<close>

definition check_type :: "variant \<Rightarrow> ua_type \<Rightarrow> string \<Rightarrow> unit result" where
  "check_type v t msg = (case vtype v of
     None \<Rightarrow> Inl UndefinedBehaviour
   | Some u \<Rightarrow> if u \<noteq> t then Inl (InvalidConversion msg) else Inr ())"

definition elem_prim :: "ua_api \<Rightarrow> variant \<Rightarrow> nat \<Rightarrow> prim \<Rightarrow> prim result" where
  "elem_prim a v i p =
     rbind (check_type v (elem_type p) (elem_error p)) (\<lambda>_. read_elem p i (getData a v))"

text \<open>
  A complex element: the array must hold variants, the first of which must have one dimension (the
  code tests \<open>pData->\<close>, the first element, whatever the index), and the object is read out of the
  array inside the variant at the index.
\<close>

definition elem_variants :: "ua_api \<Rightarrow> variant \<Rightarrow> nat \<Rightarrow> variant list result" where
  "elem_variants a v i =
     rbind (check_type v UA_VARIANT ''Expected Variant'') (\<lambda>_.
     rbind (read_var 0 (getData a v)) (\<lambda>pData.
     if length (vdims pData) \<noteq> 1
     then Inl (InvalidConversion ''Expected single dimension array of Variants'')
     else rbind (read_var i (getData a v)) (\<lambda>w. var_array (vdata w) (vlen w))))"

text \<open>A nested array: the variant at the index.\<close>

definition elem_variant :: "ua_api \<Rightarrow> variant \<Rightarrow> nat \<Rightarrow> variant result" where
  "elem_variant a v i =
     rbind (check_type v UA_VARIANT ''Expected Variant'') (\<lambda>_. read_var i (getData a v))"

text \<open>
  \<open>from_variants\<close> is \<open>ToCommObjectVisitor\<close> with its index, giving the object with its members set and
  the next index; \<open>from_elem\<close> is \<open>ToCommObjArrayVisitor\<close> on a new element; its constructor's loop is the
  \<open>traverse\<close> over the indices of the variant. The loop pushes each element onto the vector the
  description holds; the vector is not cleared first.
\<close>

fun from_variants :: "ua_api \<Rightarrow> variant list \<Rightarrow> nat \<Rightarrow> desc \<Rightarrow> (desc \<times> nat) result"
  and from_variants_all :: "ua_api \<Rightarrow> variant list \<Rightarrow> nat \<Rightarrow> desc list \<Rightarrow> (desc list \<times> nat) result"
  and from_elem :: "ua_api \<Rightarrow> variant \<Rightarrow> nat \<Rightarrow> desc \<Rightarrow> desc result" where
  "from_variants a src next (Complex n ds) =
     rbind (from_variants_all a src next ds) (\<lambda>(es, next'). Inr (Complex n es, next'))"
| "from_variants a src next (ElemPrim n p) =
     rbind (visit_prim a src next p) (\<lambda>(q, next'). Inr (ElemPrim n q, next'))"
| "from_variants a src next (ElemArray n p es) =
     (if \<not> next < length src then Inl AssertFailed
      else
        let nextData = variant_at a src next in
        rbind (traverse (\<lambda>i. from_elem a nextData i p) [0..<vlen nextData])
          (\<lambda>new. Inr (ElemArray n p (es @ new), next + 1)))"
| "from_variants_all a src next [] = Inr ([], next)"
| "from_variants_all a src next (d # ds) =
     rbind (from_variants a src next d) (\<lambda>(e, next').
     rbind (from_variants_all a src next' ds) (\<lambda>(es, next''). Inr (e # es, next'')))"
| "from_elem a v i (Complex n ds) =
     rbind (elem_variants a v i) (\<lambda>src.
     rbind (from_variants_all a src 0 ds) (\<lambda>(es, _). Inr (Complex n es)))"
| "from_elem a v i (ElemArray n p es) =
     rbind (elem_variant a v i) (\<lambda>w.
     rbind (traverse (\<lambda>j. from_elem a w j p) [0..<vlen w]) (\<lambda>new. Inr (ElemArray n p (es @ new))))"
| "from_elem a v i (ElemPrim n p) = rbind (elem_prim a v i p) (\<lambda>q. Inr (ElemPrim n q))"

definition UaVariantArrayToCommObject :: "ua_api \<Rightarrow> variant list \<Rightarrow> desc \<Rightarrow> desc result" where
  "UaVariantArrayToCommObject a src target = rbind (from_variants a src 0 target) (\<lambda>(d, _). Inr d)"

subsection \<open>Signatures\<close>

text \<open>\<open>CommObjArrayToTypeIndex\<close>: the type index of an array's elements, from a default element.\<close>

fun type_index :: "desc \<Rightarrow> ua_type" where
  "type_index (Complex _ _) = UA_VARIANT"
| "type_index (ElemArray _ _ _) = UA_VARIANT"
| "type_index (ElemPrim _ (PBool _)) = UA_BOOLEAN"
| "type_index (ElemPrim _ (PInt8 _)) = UA_BYTE"
| "type_index (ElemPrim _ (PInt16 _)) = UA_INT16"
| "type_index (ElemPrim _ (PInt32 _)) = UA_INT32"
| "type_index (ElemPrim _ (PInt64 _)) = UA_INT64"
| "type_index (ElemPrim _ (PUInt8 _)) = UA_BYTE"
| "type_index (ElemPrim _ (PUInt16 _)) = UA_UINT16"
| "type_index (ElemPrim _ (PUInt32 _)) = UA_UINT32"
| "type_index (ElemPrim _ (PUInt64 _)) = UA_UINT64"
| "type_index (ElemPrim _ (PFloat _)) = UA_FLOAT"
| "type_index (ElemPrim _ (PDouble _)) = UA_DOUBLE"
| "type_index (ElemPrim _ (PString _)) = UA_STRING"

text \<open>The fields of a \<open>UA_Argument\<close> the code sets.\<close>

record ua_argument =
  arg_name :: string
  arg_type :: ua_type
  arg_rank :: int

fun argument_type :: "prim \<Rightarrow> ua_type" where
  "argument_type (PBool _) = UA_BOOLEAN"
| "argument_type (PFloat _) = UA_FLOAT"
| "argument_type (PDouble _) = UA_DOUBLE"
| "argument_type (PInt8 _) = UA_BYTE"
| "argument_type (PInt16 _) = UA_INT16"
| "argument_type (PInt32 _) = UA_INT32"
| "argument_type (PInt64 _) = UA_INT64"
| "argument_type (PUInt8 _) = UA_BYTE"
| "argument_type (PUInt16 _) = UA_UINT16"
| "argument_type (PUInt32 _) = UA_UINT32"
| "argument_type (PUInt64 _) = UA_UINT64"
| "argument_type (PString _) = UA_STRING"

text \<open>\<open>CommObjectToUaArgument\<close>: one argument per scalar (rank -1) and per array (rank 1), in order.\<close>

fun to_arguments :: "ua_api \<Rightarrow> desc \<Rightarrow> ua_argument list" where
  "to_arguments a (Complex n ds) = concat (map (to_arguments a) ds)"
| "to_arguments a (ElemPrim n p) =
     [\<lparr> arg_name = String_alloc a (c_str n), arg_type = argument_type p, arg_rank = -1 \<rparr>]"
| "to_arguments a (ElemArray n p es) =
     [\<lparr> arg_name = String_alloc a (c_str n), arg_type = type_index p, arg_rank = 1 \<rparr>]"

text \<open>\<open>CommObjectToListOfPrimitivDescriptions\<close>: the leaves of the tree, each sub-list spliced in.\<close>

fun to_leaves :: "desc \<Rightarrow> desc list" where
  "to_leaves (Complex n ds) = concat (map to_leaves ds)"
| "to_leaves d = [d]"

text \<open>The five tables of types agree, so a value is read at the type it was written with.\<close>

lemma tables_agree [conv_simps]:
  "expected_type p = scalar_type p" "elem_type p = scalar_type p" "argument_type p = scalar_type p"
  by (cases p; simp)+

lemma type_index_array_type [conv_simps]: "type_index d = array_type d"
  by (cases d rule: array_type.cases) auto

lemma array_type_prim [conv_simps]: "array_type (ElemPrim n p) = scalar_type p"
  by (cases p) auto

lemma scalar_type_kind: "scalar_type p = scalar_type q" if "kind_of p = kind_of q"
  using that by (cases p; cases q) auto

lemma scalar_type_not_variant [simp]: "scalar_type p \<noteq> UA_VARIANT"
  by (cases p) auto

lemma scalar_type_string: "scalar_type p = UA_STRING \<longleftrightarrow> kind_of p = KString"
  by (cases p) auto

end
