(* ===== verification/Roundtrip.thy ===== *)
theory Roundtrip
  imports Converter
begin

section \<open>Correctness of the converters\<close>

text \<open>
  What the array of variants of an object is, stated without the visitors and their buffers
  (\<open>variants_of\<close>, \<open>array_of\<close>); that the visitors compute it, every store inside its buffer; and that
  reading it back into an object of the same type gives the object, as far as its values survive the
  two overloads that read with the wrong width.
\<close>

subsection \<open>Well-typed descriptions\<close>

text \<open>
  A default-constructed object: its vectors are empty. In a well-typed description every element of
  an array has the type of the array's default element.
\<close>

fun blank :: "desc \<Rightarrow> bool" where
  "blank (Complex n ds) \<longleftrightarrow> list_all blank ds"
| "blank (ElemArray n p es) \<longleftrightarrow> es = [] \<and> blank p"
| "blank (ElemPrim n p) \<longleftrightarrow> True"

fun well_typed :: "desc \<Rightarrow> bool" where
  "well_typed (Complex n ds) \<longleftrightarrow> list_all well_typed ds"
| "well_typed (ElemArray n p es) \<longleftrightarrow> blank p \<and> list_all (\<lambda>e. same_type p e \<and> well_typed e) es"
| "well_typed (ElemPrim n p) \<longleftrightarrow> True"

text \<open>
  Strings inside arrays are sent up to their first NUL. \<open>sendable\<close> is what the writing side needs to
  send an object unchanged; \<open>readable\<close> excludes also the values the reading side misreads:
  64-bit unsigned scalars above 32 bits, and signed 64-bit arrays.
\<close>

fun sendable :: "desc \<Rightarrow> bool" and sendable_elem :: "desc \<Rightarrow> bool" where
  "sendable (Complex n ds) \<longleftrightarrow> list_all sendable ds"
| "sendable (ElemArray n p es) \<longleftrightarrow> list_all sendable_elem es"
| "sendable (ElemPrim n p) \<longleftrightarrow> True"
| "sendable_elem (Complex n ds) \<longleftrightarrow> list_all sendable ds"
| "sendable_elem (ElemArray n p es) \<longleftrightarrow> list_all sendable_elem es"
| "sendable_elem (ElemPrim n p) \<longleftrightarrow> (case p of PString s \<Rightarrow> no_nul s | _ \<Rightarrow> True)"

fun readable :: "desc \<Rightarrow> bool" and readable_elem :: "desc \<Rightarrow> bool" where
  "readable (Complex n ds) \<longleftrightarrow> list_all readable ds"
| "readable (ElemArray n p es) \<longleftrightarrow> list_all readable_elem es"
| "readable (ElemPrim n p) \<longleftrightarrow> (case p of PUInt64 w \<Rightarrow> w < 2 ^ 32 | _ \<Rightarrow> True)"
| "readable_elem (Complex n ds) \<longleftrightarrow> list_all readable ds"
| "readable_elem (ElemArray n p es) \<longleftrightarrow> list_all readable_elem es"
| "readable_elem (ElemPrim n p) \<longleftrightarrow> (case p of PInt64 w \<Rightarrow> False | _ \<Rightarrow> True)"

subsection \<open>The variants of an object\<close>

definition prim_cells :: "prim \<Rightarrow> cells" where
  "prim_cells p = (case p of PString s \<Rightarrow> Strs [s] | _ \<Rightarrow> Bytes (prim_bytes p))"

fun elem_bytes :: "desc \<Rightarrow> 8 word list" where
  "elem_bytes (ElemPrim n p) = prim_bytes p"
| "elem_bytes _ = []"

fun elem_str :: "desc \<Rightarrow> string" where
  "elem_str (ElemPrim n (PString s)) = s"
| "elem_str _ = ''''"

definition mk_array :: "ua_type \<Rightarrow> desc list \<Rightarrow> variant list \<Rightarrow> variant" where
  "mk_array t es vs = Variant (Some t) (length es) [of_nat (length es)]
     (if t = UA_VARIANT then Vars vs
      else if t = UA_STRING then Strs (map elem_str es)
      else Bytes (concat (map elem_bytes es)))"

definition mk_object :: "variant list \<Rightarrow> variant" where
  "mk_object vs = Variant (Some UA_VARIANT) (length vs) [of_nat (length vs)] (Vars vs)"

fun variants_of :: "desc \<Rightarrow> variant list" and elem_of :: "desc \<Rightarrow> variant" where
  "variants_of (Complex n ds) = concat (map variants_of ds)"
| "variants_of (ElemPrim n p) = [Variant (Some (scalar_type p)) 0 [] (prim_cells p)]"
| "variants_of (ElemArray n p es) = [mk_array (array_type p) es (map elem_of es)]"
| "elem_of (Complex n ds) = mk_object (concat (map variants_of ds))"
| "elem_of (ElemArray n p es) = mk_array (array_type p) es (map elem_of es)"
| "elem_of (ElemPrim n p) = null_variant"

definition array_of :: "desc \<Rightarrow> desc list \<Rightarrow> variant" where
  "array_of p es = mk_array (array_type p) es (map elem_of es)"

lemma length_prim_bytes [simp]: "length (prim_bytes p) = prim_size p"
  by (simp add: prim_bytes_def)

lemma prim_size_kind: "kind_of p = kind_of q \<Longrightarrow> prim_size p = prim_size q"
  by (cases p; cases q) auto

lemma ua_size_scalar: "ua_size (scalar_type p) = prim_size p"
  by (cases p) auto

lemma zero_cells_scalar:
  "zero_cells n (scalar_type p) =
    (if kind_of p = KString then Strs (replicate n '''') else Bytes (replicate (n * prim_size p) 0))"
  by (cases p) auto

lemma same_type_primD: "same_type (ElemPrim n p) e \<Longrightarrow> \<exists>q. e = ElemPrim n q \<and> kind_of p = kind_of q"
  by (cases e) auto

lemma same_type_array_type: "same_type p e \<Longrightarrow> array_type p = array_type e"
  by (cases p; cases e) (auto simp: conv_simps intro: scalar_type_kind)

lemma array_type_variant: "array_type e = UA_VARIANT \<longleftrightarrow> (\<nexists>n p. e = ElemPrim n p)"
  by (cases e) (auto simp: conv_simps)

subsection \<open>Filling an array\<close>

lemma set_prim_elem_bytes: "kind_of p \<noteq> KString \<Longrightarrow>
  set_prim_elem a v i p = rbind (write_bytes i (prim_bytes p) (vdata v)) (\<lambda>c. Inr (set_data c v))"
  by (cases p) (simp_all add: set_prim_elem_def)

lemma fill_bytes:
  assumes "\<forall>e \<in> set es. \<exists>n p. e = ElemPrim n p \<and> kind_of p \<noteq> KString \<and> prim_size p = w"
    and "length pre = w * k"
  shows "foldM (\<lambda>v (i, e). set_elem a v i e) (Variant t n ds (Bytes (pre @ replicate (length es * w) 0)))
     (enumerate k es) = Inr (Variant t n ds (Bytes (pre @ concat (map elem_bytes es))))"
  using assms
proof (induction es arbitrary: k pre)
  case (Cons e es)
  then obtain m p where e: "e = ElemPrim m p" "kind_of p \<noteq> KString" "prim_size p = w" by auto
  have "write_bytes k (prim_bytes p) (Bytes (pre @ replicate w 0 @ replicate (length es * w) 0))
    = Inr (Bytes (pre @ prim_bytes p @ replicate (length es * w) 0))"
    by (rule write_chunk_next) (use e Cons.prems in simp_all)
  then have "set_elem a (Variant t n ds (Bytes (pre @ replicate (length (e # es) * w) 0))) k e
    = Inr (Variant t n ds (Bytes ((pre @ prim_bytes p) @ replicate (length es * w) 0)))"
    using e by (simp add: set_prim_elem_bytes replicate_add)
  moreover have "length (pre @ prim_bytes p) = w * Suc k" using e Cons.prems by simp
  ultimately show ?case
    using Cons.IH [of "pre @ prim_bytes p" "Suc k"] Cons.prems e by simp
qed simp

lemma fill_strs:
  assumes "\<forall>e \<in> set es. \<exists>n s. e = ElemPrim n (PString s) \<and> no_nul s"
    and "length pre = k" "api_ok a"
  shows "foldM (\<lambda>v (i, e). set_elem a v i e) (Variant t n ds (Strs (pre @ replicate (length es) '''')))
     (enumerate k es) = Inr (Variant t n ds (Strs (pre @ map elem_str es)))"
  using assms
proof (induction es arbitrary: k pre)
  case (Cons e es)
  then obtain m s where e: "e = ElemPrim m (PString s)" "no_nul s" by auto
  with Cons.prems Cons.IH [of "pre @ [s]" "Suc k"] show ?case
    by (simp add: set_prim_elem_def conv_simps list_update_append)
qed simp

lemma fill_vars:
  assumes "\<And>i e v. (i, e) \<in> set (enumerate k es) \<Longrightarrow> set_elem a v i e = set_var_elem v i (g e)"
    and "length pre = k"
  shows "foldM (\<lambda>v (i, e). set_elem a v i e) (Variant t n ds (Vars (pre @ replicate (length es) z)))
     (enumerate k es) = Inr (Variant t n ds (Vars (pre @ map g es)))"
  using assms
proof (induction es arbitrary: k pre)
  case (Cons e es)
  from Cons.IH [of "Suc k" "pre @ [g e]"] Cons.prems show ?case
    by (simp add: set_var_elem_def list_update_append)
qed simp

text \<open>
  Refinement: the visitors build exactly these variants, all of their stores inside the buffers.
\<close>

lemma array_value_ok:
  assumes api: "api_ok a"
    and es: "\<forall>e \<in> set es. same_type p e \<and> sendable_elem e"
    and step: "\<And>e v i. (i, e) \<in> set (enumerate 0 es) \<Longrightarrow> array_type p = UA_VARIANT \<Longrightarrow>
      set_elem a v i e = set_var_elem v i (elem_of e)"
  shows "array_value a p es = Inr (array_of p es)"
proof (cases "array_type p = UA_VARIANT")
  case True
  have "foldM (\<lambda>v (i, e). set_elem a v i e) (Variant (Some UA_VARIANT) (length es) [of_nat (length es)]
      (Vars ([] @ replicate (length es) null_variant))) (enumerate 0 es)
    = Inr (Variant (Some UA_VARIANT) (length es) [of_nat (length es)] (Vars ([] @ map elem_of es)))"
    by (rule fill_vars) (use step True in auto)
  with True api show ?thesis
    by (simp add: setArrayType_def conv_simps array_of_def mk_array_def)
next
  case False
  then obtain n q where p: "p = ElemPrim n q" by (auto simp: array_type_variant)
  have prims: "\<forall>e \<in> set es. \<exists>r. e = ElemPrim n r \<and> kind_of q = kind_of r"
    using es p by (auto dest!: bspec same_type_primD)
  show ?thesis
  proof (cases "kind_of q = KString")
    case True
    then obtain s where q: "q = PString s" by (cases q) auto
    have "\<exists>n s. e = ElemPrim n (PString s) \<and> no_nul s" if "e \<in> set es" for e
    proof -
      from that prims True obtain r where "e = ElemPrim n r" "kind_of r = KString" by force
      with es that show ?thesis by (cases r) auto
    qed
    then have "foldM (\<lambda>v (i, e). set_elem a v i e) (Variant (Some UA_STRING) (length es) [of_nat (length es)]
      (Strs ([] @ replicate (length es) ''''))) (enumerate 0 es)
    = Inr (Variant (Some UA_STRING) (length es) [of_nat (length es)] (Strs ([] @ map elem_str es)))"
      by (intro fill_strs) (use api in auto)
    then show ?thesis using q p api
      by (simp add: setArrayType_def conv_simps array_of_def mk_array_def)
  next
    case False
    then have ns: "scalar_type q \<noteq> UA_STRING" by (simp add: scalar_type_string)
    have "\<forall>e \<in> set es. \<exists>n p. e = ElemPrim n p \<and> kind_of p \<noteq> KString \<and> prim_size p = prim_size q"
    proof
      fix e assume "e \<in> set es"
      with prims obtain m r where "e = ElemPrim m r" "kind_of q = kind_of r" by auto
      with False prim_size_kind [of q r] show "\<exists>n p. e = ElemPrim n p \<and> kind_of p \<noteq> KString \<and> prim_size p = prim_size q"
        by simp
    qed
    from fill_bytes [OF this, of "[]" 0 a "Some (scalar_type q)" "length es" "[of_nat (length es)]"] api
    show ?thesis using ns p False
      by (simp add: setArrayType_def conv_simps array_of_def mk_array_def zero_cells_scalar)
  qed
qed

lemma visitors_refine:
  assumes api: "api_ok a"
  shows "well_typed d \<Longrightarrow> sendable d \<Longrightarrow> to_variants a d = Inr (variants_of d)"
    and "list_all well_typed ds \<Longrightarrow> list_all sendable ds \<Longrightarrow>
      to_variants_all a ds = Inr (concat (map variants_of ds))"
    and "\<forall>e \<in> set es. same_type p e \<and> well_typed e \<and> sendable_elem e \<Longrightarrow> array_value a p es = Inr (array_of p es)"
    and "well_typed e \<Longrightarrow> sendable_elem e \<Longrightarrow> array_type e = UA_VARIANT \<Longrightarrow>
      set_elem a v i e = set_var_elem v i (elem_of e)"
  using api
proof (induction a d and a ds and a p es and a v i e
    rule: to_variants_to_variants_all_array_value_set_elem.induct)
  case (6 a p es)
  show ?case
  proof (rule array_value_ok)
    show "api_ok a" by fact
    show "\<forall>e \<in> set es. same_type p e \<and> sendable_elem e" using "6.prems" by blast
    fix e v i assume e: "(i, e) \<in> set (enumerate 0 es)" "array_type p = UA_VARIANT"
    then have "e \<in> set es" by (auto simp: in_set_enumerate_eq)
    with "6.prems" have *: "same_type p e" "well_typed e" "sendable_elem e" by auto
    with e have "array_type e = UA_VARIANT" by (simp add: same_type_array_type)
    show "set_elem a v i e = set_var_elem v i (elem_of e)"
      by (rule "6.IH" [OF e(1) refl]) fact+
  qed
next
  case (2 a n p)
  then show ?case by (cases p) (simp_all add: scalar_variant_def prim_cells_def conv_simps)
next
  case (3 a n p es)
  then show ?case by (auto simp: conv_simps list_all_iff array_of_def)
next
  case (7 a v i n ds)
  then show ?case by (simp add: conv_simps mk_object_def cong: map_cong)
next
  case (8 a v i n p es)
  then show ?case by (auto simp: conv_simps list_all_iff array_of_def)
next
  case (9 a v i n p)
  then show ?case by (simp add: array_type_variant)
qed (auto simp: list_all_iff)
subsection \<open>Reading back\<close>

lemma read_word_0: "read_word n 0 (Bytes (le_bytes m w)) =
    (if n \<le> m then Inr (take_bit (8 * n) w) else Inl UndefinedBehaviour)"
  by (simp add: chunk_def take_le_bytes le_word_le_bytes min_def)

lemma ucast_take_bit:
  fixes w :: "'a::len word"
  assumes "LENGTH('a) \<le> n"
  shows "ucast (take_bit n (ucast w :: 64 word)) = (ucast (ucast w :: 64 word) :: 'a word)"
  by (rule bit_word_eqI) (use assms in \<open>auto simp: bit_ucast_iff bit_take_bit_iff\<close>)

lemma ucast_ucast_64:
  fixes w :: "'a::len word"
  assumes "LENGTH('a) \<le> 64"
  shows "ucast (ucast w :: 64 word) = w"
  by (rule bit_word_eqI) (use assms in \<open>auto simp: bit_ucast_iff\<close>)

lemma ucast_32_64: "ucast (ucast (w :: 64 word) :: 32 word) = take_bit 32 w"
  by (rule bit_word_eqI) (auto simp: bit_ucast_iff bit_take_bit_iff)

lemma take_bit_64: "take_bit 64 (w :: 64 word) = w"
  by (rule bit_word_eqI) (auto simp: bit_take_bit_iff)

lemma read_word_elem:
  assumes "\<forall>e \<in> set es. length (elem_bytes e) = n" "i < length es"
  shows "read_word n i (Bytes (concat (map elem_bytes es))) = Inr (le_word (elem_bytes (es ! i)))"
proof -
  have "n * (i + 1) \<le> n * length es" using assms(2) by (intro mult_le_mono) auto
  moreover have "length (concat (map elem_bytes es)) = n * length es"
    using length_concat_uniform [of "map elem_bytes es" n] assms(1) by simp
  moreover have "chunk n i (concat (map elem_bytes es)) = elem_bytes (es ! i)"
    using chunk_append_concat [of "map elem_bytes es" n i] assms by simp
  ultimately show ?thesis by simp
qed

lemmas word_reads = read_word_0 ucast_take_bit ucast_ucast_64 ucast_32_64 take_bit_64 le_word_le_bytes

lemma read_scalar_ok:
  assumes "kind_of p = kind_of q" "readable (ElemPrim n q)" "api_ok a"
  shows "read_scalar a p (prim_cells q) = Inr q"
proof -
  have "take_bit 32 w = w" if "q = PUInt64 w" for w
    using assms(2) that by (simp add: take_bit_eq_mod word_mod_def word_less_def)
  with assms(1,3) show ?thesis
    by (cases p; cases q) (simp_all add: prim_cells_def prim_bytes_def word_reads conv_simps
        del: read_word.simps One_nat_def)
qed

lemma same_type_elem_bytes:
  assumes "\<forall>e \<in> set es. same_type (ElemPrim n p) e"
  shows "\<forall>e \<in> set es. length (elem_bytes e) = prim_size p"
proof
  fix e assume "e \<in> set es"
  with assms obtain q where "e = ElemPrim n q" "kind_of p = kind_of q" by (auto dest!: bspec same_type_primD)
  with prim_size_kind [of p q] show "length (elem_bytes e) = prim_size p" by simp
qed

lemma read_elem_ok:
  assumes "\<forall>e \<in> set es. same_type (ElemPrim n p) e" "i < length es" "es ! i = ElemPrim n q"
    and "readable_elem (ElemPrim n q)"
  shows "read_elem p i (vdata (array_of (ElemPrim n p) es)) = Inr q"
proof -
  have k: "kind_of p = kind_of q" using assms(1-3) by (auto dest: bspec [OF _ nth_mem])
  show ?thesis
  proof (cases "kind_of p = KString")
    case True
    with k assms(2,3) show ?thesis
      by (cases p; cases q) (simp_all add: array_of_def mk_array_def)
  next
    case False
    then have "vdata (array_of (ElemPrim n p) es) = Bytes (concat (map elem_bytes es))"
      by (simp add: array_of_def mk_array_def array_type_prim scalar_type_string)
    moreover from read_word_elem [OF same_type_elem_bytes [OF assms(1)] assms(2)] assms(3)
    have "read_word (prim_size p) i (Bytes (concat (map elem_bytes es))) = Inr (le_word (prim_bytes q))" by simp
    ultimately show ?thesis using k False assms(4)
      by (cases p; cases q) (simp_all add: prim_bytes_def word_reads del: read_word.simps One_nat_def)
  qed
qed

lemma array_of_props [simp]:
  "vlen (array_of p es) = length es" "vtype (array_of p es) = Some (array_type p)"
  "vdims (array_of p es) = [of_nat (length es)]"
  "array_type p = UA_VARIANT \<Longrightarrow> vdata (array_of p es) = Vars (map elem_of es)"
  by (auto simp: array_of_def mk_array_def)

lemma elem_prim_ok:
  assumes "\<forall>e \<in> set es. same_type (ElemPrim n p) e" "i < length es" "es ! i = ElemPrim n q"
    and "readable_elem (ElemPrim n q)" "api_ok a"
  shows "elem_prim a (array_of (ElemPrim n p) es) i p = Inr q"
  using assms
  by (simp add: elem_prim_def check_type_def read_elem_ok conv_simps)

lemma elem_of_dims: "array_type e = UA_VARIANT \<Longrightarrow> \<exists>n. vdims (elem_of e) = [n]"
  by (cases e) (auto simp: array_type_variant mk_object_def mk_array_def)

lemma elem_variants_ok:
  assumes "api_ok a" "\<forall>e \<in> set es. same_type (Complex n ds) e" "i < length es" "es ! i = Complex n bs"
  shows "elem_variants a (array_of (Complex n ds) es) i = Inr (concat (map variants_of bs))"
proof -
  have "same_type (Complex n ds) (es ! 0)" using assms(2,3) by (cases es) auto
  then obtain m cs where "es ! 0 = Complex m cs" by (cases "es ! 0") auto
  moreover have "es \<noteq> []" using assms(3) by auto
  ultimately show ?thesis using assms(1,3,4)
    by (simp add: elem_variants_def check_type_def conv_simps mk_object_def)
qed

lemma elem_variant_ok:
  assumes "api_ok a" "i < length es" "es ! i = ElemArray n p bs"
  shows "elem_variant a (array_of (ElemArray n p cs) es) i = Inr (array_of p bs)"
  using assms by (simp add: elem_variant_def check_type_def conv_simps) (simp add: array_of_def)

lemma visit_prim_ok:
  assumes "api_ok a" "nx = length pre" "kind_of p = kind_of q" "readable (ElemPrim n q)"
    "src = pre @ variants_of (ElemPrim n q) @ post"
  shows "visit_prim a src nx p = Inr (q, nx + 1)"
  using assms scalar_type_kind [OF assms(3)]
  by (simp add: visit_prim_def conv_simps read_scalar_ok nth_append del: readable.simps)

text \<open>Decoding an encoded object, at any position of the array of variants.\<close>

lemma from_variants_ok:
  assumes api: "api_ok a"
  shows "\<And>d pre post. same_type t d \<Longrightarrow> blank t \<Longrightarrow> well_typed d \<Longrightarrow> readable d \<Longrightarrow>
      nx = length pre \<Longrightarrow> src = pre @ variants_of d @ post \<Longrightarrow>
      from_variants a src nx t = Inr (d, nx + length (variants_of d))"
    and "\<And>ds pre post. same_types ts ds \<Longrightarrow> list_all blank ts \<Longrightarrow> list_all well_typed ds \<Longrightarrow>
      list_all readable ds \<Longrightarrow> nx = length pre \<Longrightarrow> src = pre @ concat (map variants_of ds) @ post \<Longrightarrow>
      from_variants_all a src nx ts = Inr (ds, nx + length (concat (map variants_of ds)))"
    and "\<And>es. \<forall>e \<in> set es. same_type p e \<and> well_typed e \<and> readable_elem e \<Longrightarrow> blank p \<Longrightarrow>
      i < length es \<Longrightarrow> v = array_of p es \<Longrightarrow> from_elem a v i p = Inr (es ! i)"
  using api
proof (induction a src nx t and a src nx ts and a v i p
    rule: from_variants_from_variants_all_from_elem.induct)
  case (1 a src nx n ds)
  then obtain es where d: "d = Complex n es" "same_types ds es" by (cases d) auto
  with "1.IH" [of es pre post] "1.prems" show ?case by simp
next
  case (2 a src nx n p)
  then obtain q where d: "d = ElemPrim n q" "kind_of p = kind_of q" by (auto dest: same_type_primD)
  with visit_prim_ok [of a "nx" pre p q n src post] "2.prems" show ?case by simp
next
  case (3 a src nx n p es)
  then obtain xs where d: "d = ElemArray n p xs" and es: "es = []" by (cases d) auto
  have at: "nx < length src" "variant_at a src nx = array_of p xs"
    using "3.prems" d by (auto simp: conv_simps nth_append array_of_def)
  have "from_elem a (array_of p xs) i p = Inr (xs ! i)" if "i < length xs" for i
    using "3.IH" [of "variant_at a src nx" i xs] at "3.prems" d that by (simp add: list_all_iff)
  then have "traverse (\<lambda>i. from_elem a (array_of p xs) i p) [0..<length xs] = Inr xs"
    by (subst traverse_map_Inr [where g = "(!) xs"]) (auto simp: map_nth)
  with at d es show ?case by simp
next
  case (5 a src nx t ts)
  then obtain d es where ds: "ds = d # es" "same_type t d" "same_types ts es" by (cases ds) auto
  have "from_variants a src nx t = Inr (d, nx + length (variants_of d))"
    by (rule "5.IH"(1)) (use "5.prems" ds in auto)
  moreover have "from_variants_all a src (nx + length (variants_of d)) ts
      = Inr (es, nx + length (variants_of d) + length (concat (map variants_of es)))"
    by (rule "5.IH"(2) [of _ _ _ _ "pre @ variants_of d" post])
      (use "5.prems" ds calculation in auto)
  ultimately show ?case using ds by simp
next
  case (6 a v i n ds)
  then have "same_type (Complex n ds) (es ! i)" by auto
  then obtain bs where bs: "es ! i = Complex n bs" "same_types ds bs" by (cases "es ! i") auto
  have ev: "elem_variants a v i = Inr (concat (map variants_of bs))"
    using elem_variants_ok [of a es n ds i bs] "6.prems" bs by auto
  have "well_typed (Complex n bs) \<and> readable_elem (Complex n bs)"
    using "6.prems"(1,3) bs(1) nth_mem by fastforce
  then have "from_variants_all a (concat (map variants_of bs)) 0 ds
      = Inr (bs, 0 + length (concat (map variants_of bs)))"
    by (intro "6.IH" [OF ev, of bs "[]" "[]"]) (use bs "6.prems" in auto)
  with ev bs show ?case by simp
next
  case (7 a v i n p es')
  then have "same_type (ElemArray n p es') (es ! i)" by auto
  then obtain bs where bs: "es ! i = ElemArray n p bs" by (cases "es ! i") auto
  have ev: "elem_variant a v i = Inr (array_of p bs)"
    using elem_variant_ok [of a i es n p bs es'] "7.prems" bs by auto
  have wt: "well_typed (ElemArray n p bs) \<and> readable_elem (ElemArray n p bs)"
    using "7.prems"(1,3) bs(1) nth_mem by fastforce
  have "from_elem a (array_of p bs) j p = Inr (bs ! j)" if "j < length bs" for j
    by (rule "7.IH" [OF ev]) (use wt that "7.prems" in \<open>auto simp: list_all_iff\<close>)
  then have "traverse (\<lambda>j. from_elem a (array_of p bs) j p) [0..<length bs] = Inr bs"
    by (subst traverse_map_Inr [where g = "(!) bs"]) (auto simp: map_nth)
  with ev bs "7.prems" show ?case by simp
next
  case (8 a v i n p)
  then have st: "same_type (ElemPrim n p) (es ! i)" "readable_elem (es ! i)" by auto
  then obtain q where q: "es ! i = ElemPrim n q" by (auto dest: same_type_primD)
  have "elem_prim a v i p = Inr q"
    using elem_prim_ok [of es n p i q a] "8.prems" st q by auto
  with q show ?case by simp
qed (auto simp: same_types_iff)

subsection \<open>The converters as a codec\<close>

text \<open>
  What the services rely on when they send objects: an acceptable object is encoded, and decoding it
  into a fresh object of its type gives it back.
\<close>

locale wire_codec =
  fixes enc :: "'x \<Rightarrow> 'w result"
    and dec :: "'w \<Rightarrow> 'x \<Rightarrow> 'x result"
    and acceptable :: "'x \<Rightarrow> bool"
    and fresh_for :: "'x \<Rightarrow> 'x \<Rightarrow> bool"
  assumes enc_total: "acceptable x \<Longrightarrow> \<exists>w. enc x = Inr w"
    and dec_enc: "acceptable x \<Longrightarrow> fresh_for t x \<Longrightarrow> enc x = Inr w \<Longrightarrow> dec w t = Inr x"
begin

lemma transfer: "acceptable x \<Longrightarrow> fresh_for t x \<Longrightarrow> rbind (enc x) (\<lambda>w. dec w t) = Inr x"
  using enc_total dec_enc by fastforce

lemma enc_inj: "acceptable x \<Longrightarrow> acceptable y \<Longrightarrow> fresh_for t x \<Longrightarrow> fresh_for t y \<Longrightarrow> enc x = enc y \<Longrightarrow> x = y"
  using enc_total dec_enc by (metis Inr_inject)

end

definition acceptable_obj :: "ua_api \<Rightarrow> desc \<Rightarrow> bool" where
  "acceptable_obj a d \<longleftrightarrow> api_ok a \<and> well_typed d \<and> sendable d \<and> readable d"

definition fresh_obj :: "desc \<Rightarrow> desc \<Rightarrow> bool" where
  "fresh_obj t d \<longleftrightarrow> blank t \<and> same_type t d"

lemma encode_ok:
  assumes "api_ok a" "well_typed d" "sendable d"
  shows "CommObjectToUaVariantArray a d = Inr (variants_of d)"
  using assms visitors_refine(1) [OF assms] by (simp add: CommObjectToUaVariantArray_def conv_simps map_idI)

lemma decode_ok:
  assumes "api_ok a" "blank t" "same_type t d" "well_typed d" "readable d"
  shows "UaVariantArrayToCommObject a (variants_of d) t = Inr d"
  using from_variants_ok(1) [OF assms(1,3,2,4,5), of 0 "[]" _ "[]"]
  by (simp add: UaVariantArrayToCommObject_def)

interpretation co: wire_codec "CommObjectToUaVariantArray a" "UaVariantArrayToCommObject a"
  "acceptable_obj a" fresh_obj for a
  by unfold_locales (auto simp: acceptable_obj_def fresh_obj_def encode_ok decode_ok)

subsection \<open>Decoding in general\<close>

text \<open>Whatever the variants hold, decoding keeps the type of the object and advances one variant per leaf.\<close>

lemma kind_visit_prim: "visit_prim a src nx p = Inr (q, nx') \<Longrightarrow> kind_of q = kind_of p \<and> nx' = nx + 1 \<and> nx < length src"
  by (cases p) (auto simp: visit_prim_def result_simps Let_def split: if_splits)

lemma kind_elem_prim: "elem_prim a v i p = Inr q \<Longrightarrow> kind_of q = kind_of p"
  by (cases p) (auto simp: elem_prim_def result_simps)

lemma same_type_sym: "same_type d e \<Longrightarrow> same_type e d"
proof (induction d arbitrary: e)
  case (Complex n ds)
  then show ?case by (cases e) (auto simp: same_types_iff list_all2_conv_all_nth)
next
  case (ElemArray n p es)
  then show ?case by (cases e) auto
next
  case (ElemPrim n p)
  then show ?case by (cases e) auto
qed

lemma blank_well_typed: "blank d \<Longrightarrow> well_typed d"
  by (induction d) (auto simp: list_all_iff)

lemma decode_keeps_type:
  shows "\<And>d m. from_variants a src nx t = Inr (d, m) \<Longrightarrow> well_typed t \<Longrightarrow>
      same_type t d \<and> well_typed d \<and> m = nx + length (to_leaves t) \<and> (nx \<le> length src \<longrightarrow> m \<le> length src)"
    and "\<And>ds m. from_variants_all a src nx ts = Inr (ds, m) \<Longrightarrow> list_all well_typed ts \<Longrightarrow>
      same_types ts ds \<and> list_all well_typed ds \<and> m = nx + length (concat (map to_leaves ts)) \<and>
      (nx \<le> length src \<longrightarrow> m \<le> length src)"
    and "\<And>e. from_elem a v i p = Inr e \<Longrightarrow> blank p \<Longrightarrow> same_type p e \<and> well_typed e"
proof (induction a src nx t and a src nx ts and a v i p
    rule: from_variants_from_variants_all_from_elem.induct)
  case (1 a src nx n ds)
  then show ?case by (fastforce simp: result_simps)
next
  case (2 a src nx n p)
  then show ?case by (auto simp: result_simps dest!: kind_visit_prim)
next
  case (3 a src nx n p es)
  then obtain new where new: "nx < length src" "d = ElemArray n p (es @ new)" "m = nx + 1"
    "traverse (\<lambda>i. from_elem a (variant_at a src nx) i p) [0..<vlen (variant_at a src nx)] = Inr new"
    by (auto simp: result_simps Let_def split: if_splits)
  have "list_all (\<lambda>e. same_type p e \<and> well_typed e) new"
    by (rule traverse_all [OF new(4)]) (use "3.IH" "3.prems" new(1) in auto)
  with new "3.prems" show ?case by simp
next
  case (5 a src nx d ds)
  then show ?case by (fastforce simp: result_simps)
next
  case (6 a v i n ds)
  then obtain src es k where "elem_variants a v i = Inr src" "from_variants_all a src 0 ds = Inr (es, k)"
    "e = Complex n es" by (auto simp: result_simps)
  moreover have "list_all well_typed ds" using "6.prems" by (auto simp: list_all_iff blank_well_typed)
  ultimately show ?case using "6.IH" by simp
next
  case (7 a v i n p es)
  then obtain w new where new: "elem_variant a v i = Inr w" "e = ElemArray n p (es @ new)"
    "traverse (\<lambda>j. from_elem a w j p) [0..<vlen w] = Inr new"
    by (auto simp: result_simps)
  have "list_all (\<lambda>e. same_type p e \<and> well_typed e) new"
    by (rule traverse_all [OF new(3)]) (use "7.IH" [OF new(1)] "7.prems" in auto)
  with new "7.prems" show ?case by simp
next
  case (8 a v i n p)
  then show ?case by (auto simp: result_simps dest!: kind_elem_prim)
qed auto

subsection \<open>Sixty-four bit arrays\<close>

lemma nth_pairs:
  "i < 2 * length ws \<Longrightarrow> concat (map (\<lambda>w. [f w, g w]) ws) ! i = (if odd i then g (ws ! (i div 2)) else f (ws ! (i div 2)))"
proof (induction ws arbitrary: i)
  case (Cons w ws)
  show ?case
  proof (cases "i < 2")
    case True
    then consider "i = 0" | "i = 1" by linarith
    then show ?thesis by cases auto
  next
    case False
    then obtain j where "i = Suc (Suc j)" by (metis Suc_1 add_2_eq_Suc le_Suc_ex not_less)
    with Cons show ?thesis by simp
  qed
qed simp

lemma le_bytes_8_split: "le_bytes 8 w = le_bytes 4 w @ le_bytes 4 (drop_bit 32 w)"
  by (simp add: numeral_eq_Suc)

definition int32_half :: "64 word list \<Rightarrow> nat \<Rightarrow> 64 word" where
  "int32_half ws i = scast (ucast (drop_bit (if odd i then 32 else 0) (ws ! (i div 2))) :: 32 word)"

lemma ucast_take_bit_32: "(ucast (take_bit 32 (w :: 64 word)) :: 32 word) = ucast w"
  by (rule bit_word_eqI) (auto simp: bit_ucast_iff bit_take_bit_iff)

lemma read_int32_half:
  assumes "i < length ws"
  shows "read_word 4 i (Bytes (concat (map (le_bytes 8) ws)))
    = Inr (take_bit 32 (drop_bit (if odd i then 32 else 0) (ws ! (i div 2))))"
proof -
  let ?h = "concat (map (\<lambda>w. [le_bytes 4 w, le_bytes 4 (drop_bit 32 w)]) ws)"
  have eq: "concat (map (le_bytes 8) ws) = concat ?h"
    by (induction ws) (auto simp: le_bytes_8_split)
  have len: "length ?h = 2 * length ws" by (induction ws) auto
  have "\<forall>x \<in> set ?h. length x = 4" by auto
  from chunk_append_concat [OF this, of i] length_concat_uniform [OF this] len assms nth_pairs [of i ws "le_bytes 4" "\<lambda>w. le_bytes 4 (drop_bit 32 w)"]
  show ?thesis by (simp add: eq le_word_le_bytes)
qed

subsection \<open>Signatures\<close>

text \<open>A variant of the declared data type: a scalar for rank -1, one-dimensional for rank 1.\<close>

definition arg_fits :: "ua_argument \<Rightarrow> variant \<Rightarrow> bool" where
  "arg_fits arg v \<longleftrightarrow> vtype v = Some (arg_type arg) \<and>
     (if arg_rank arg = -1 then vdims v = [] else arg_rank arg = 1 \<and> length (vdims v) = 1)"

lemma arguments_variants_of: "list_all2 arg_fits (to_arguments a d) (variants_of d)"
proof (induction d)
  case (Complex n ds)
  then have "list_all2 arg_fits (concat (map (to_arguments a) ds)) (concat (map variants_of ds))"
    by (induction ds) (auto intro: list_all2_appendI)
  then show ?case by simp
qed (auto simp: conv_simps mk_array_def arg_fits_def)

subsection \<open>One array\<close>

lemma encode_array:
  assumes "api_ok a" "well_typed (ElemArray n p es)" "sendable (ElemArray n p es)"
  shows "CommObjectToUaVariantArray a (ElemArray n p es) = Inr [array_of p es]"
  using encode_ok [OF assms] by (simp add: array_of_def)

lemma decode_array:
  assumes "api_ok a" "traverse (\<lambda>i. from_elem a (array_of p es) i p) [0..<length es] = Inr xs"
  shows "UaVariantArrayToCommObject a [array_of p es] (ElemArray n p old) = Inr (ElemArray n p (old @ xs))"
  using assms by (simp add: UaVariantArrayToCommObject_def conv_simps del: from_elem.simps)

section \<open>Properties of the converters\<close>

text \<open>C1: Sending an object. The array of variants built for a well-typed object (whose array strings
  have no NUL byte) and read back into a fresh object of the same type gives the object itself, at any
  nesting of objects and arrays, provided the object has no 64-bit unsigned scalar above 32 bits and
  no array of signed 64-bit integers.\<close>

theorem object_roundtrip:
  assumes "api_ok a" "well_typed d" "sendable d" "readable d" "blank t" "same_type t d"
  shows "rbind (CommObjectToUaVariantArray a d) (\<lambda>vs. UaVariantArrayToCommObject a vs t) = Inr d"
  by (rule co.transfer) (use assms in \<open>auto simp: acceptable_obj_def fresh_obj_def\<close>)

definition sample_pose :: "32 word \<Rightarrow> string \<Rightarrow> desc" where
  "sample_pose x s = Complex ''pose'' [ElemPrim ''x'' (PInt32 x), ElemPrim ''frame'' (PString s)]"

definition sample_map :: "desc list \<Rightarrow> desc list \<Rightarrow> 64 word \<Rightarrow> desc" where
  "sample_map poses rows stamp = Complex ''map'' [ElemArray ''poses'' (sample_pose 0 '''') poses,
     ElemPrim ''stamp'' (PUInt64 stamp),
     ElemArray ''rows'' (ElemArray '''' (ElemPrim '''' (PUInt16 0)) []) rows]"

definition sample_row :: "16 word list \<Rightarrow> desc" where
  "sample_row ws = ElemArray '''' (ElemPrim '''' (PUInt16 0)) (map (\<lambda>w. ElemPrim '''' (PUInt16 w)) ws)"

theorem object_roundtrip_witness:
  "rbind (CommObjectToUaVariantArray std_api
       (sample_map [sample_pose 7 ''odom'', sample_pose 9 ''map''] [sample_row [1, 65535], sample_row []] 77))
     (\<lambda>vs. UaVariantArrayToCommObject std_api vs (sample_map [] [] 0))
   = Inr (sample_map [sample_pose 7 ''odom'', sample_pose 9 ''map''] [sample_row [1, 65535], sample_row []] 77)"
  by (rule object_roundtrip)
    (simp_all add: sample_map_def sample_pose_def sample_row_def no_nul_def)

text \<open>C7: The visitors that build the array of variants, with their zeroed buffers filled by index, compute
  the abstract array \<open>variants_of\<close> of every object whose arrays hold elements of their declared type
  (\<open>well_typed\<close>) and no strings with a NUL byte (\<open>sendable\<close>; such strings are cut at the NUL): one scalar
  variant per primitive member with its type and bytes, one array variant per vector, in the order of the
  members; no store leaves its buffer.\<close>

theorem encoding_refines:
  assumes "api_ok a" "well_typed d" "sendable d"
  shows "CommObjectToUaVariantArray a d = Inr (variants_of d)"
  by (rule encode_ok) (use assms in auto)

theorem encoding_refines_witness:
  "CommObjectToUaVariantArray std_api (sample_map [sample_pose 7 ''odom''] [sample_row [1, 2], sample_row []] 5)
   = Inr (variants_of (sample_map [sample_pose 7 ''odom''] [sample_row [1, 2], sample_row []] 5))"
  by (rule encoding_refines) (simp_all add: sample_map_def sample_pose_def sample_row_def no_nul_def)

text \<open>C27: Whatever array of variants arrives, if decoding it into an object of a type (arrays with elements of
  their declared type) returns, then the object still has its type (member names, member types, element
  types), the visitor has moved on by exactly one variant per leaf of the object, and the array was long
  enough for that; too short an array never returns an object.\<close>

theorem decoding_keeps_type:
  assumes "UaVariantArrayToCommObject a vs t = Inr d" "well_typed t"
  shows "same_type t d \<and> well_typed d \<and> from_variants a vs 0 t = Inr (d, length (to_leaves t)) \<and>
    length (to_leaves t) \<le> length vs"
  using assms decode_keeps_type(1) [of a vs 0 t]
  by (auto simp: UaVariantArrayToCommObject_def result_simps)

theorem decoding_keeps_type_witness:
  "same_type (sample_pose 1 ''a'') (sample_pose 5 ''a'') \<and> well_typed (sample_pose 5 ''a'') \<and>
   from_variants std_api [Variant (Some UA_INT32) 0 [] (Bytes [5, 0, 0, 0]), null_variant] 0 (sample_pose 1 ''a'') =
     Inr (sample_pose 5 ''a'', length (to_leaves (sample_pose 1 ''a''))) \<and>
   length (to_leaves (sample_pose 1 ''a'')) \<le> length [Variant (Some UA_INT32) 0 [] (Bytes [5, 0, 0, 0]), null_variant]"
  by (rule decoding_keeps_type [where a = std_api])
    (simp_all add: sample_pose_def UaVariantArrayToCommObject_def visit_prim_def std_api_def null_variant_def
      chunk_def)

text \<open>C28: The declared signature of an object matches what is sent: argument and variant lists have the same
  length, and pairwise the same data type, rank -1 exactly for scalars and rank 1 for one-dimensional arrays.\<close>

theorem arguments_match_variants:
  assumes "api_ok a" "well_typed d" "sendable d" "CommObjectToUaVariantArray a d = Inr vs"
  shows "list_all2 arg_fits (to_arguments a d) vs"
  using encode_ok [OF assms(1-3)] assms(4) arguments_variants_of [of a d] by simp

theorem arguments_match_variants_witness:
  "list_all2 arg_fits
     (to_arguments std_api (sample_map [sample_pose 1 ''a''] [] 4)) (variants_of (sample_map [sample_pose 1 ''a''] [] 4))"
  by (rule arguments_match_variants [OF std_api_ok])
    (simp_all add: encode_ok sample_map_def sample_pose_def no_nul_def)

text \<open>Two objects of the same type that are both sent unchanged are never sent as the same array of
  variants.\<close>

theorem encoding_injective:
  assumes "acceptable_obj a d" "acceptable_obj a e" "fresh_obj t d" "fresh_obj t e"
    and "CommObjectToUaVariantArray a d = CommObjectToUaVariantArray a e"
  shows "d = e"
  by (rule co.enc_inj [OF assms])

theorem encoding_injective_witness: "sample_pose 3 ''x'' = sample_pose 3 ''x''"
  by (rule encoding_injective [where a = std_api and t = "sample_pose 0 ''''"])
    (simp_all add: acceptable_obj_def fresh_obj_def sample_pose_def no_nul_def)

text \<open>A 64-bit unsigned scalar is read back as a 32-bit one: the value received is the value sent modulo
  2 to the 32.\<close>

theorem uint64_truncated:
  assumes "api_ok a"
  shows "rbind (CommObjectToUaVariantArray a (ElemPrim n (PUInt64 w)))
      (\<lambda>vs. UaVariantArrayToCommObject a vs (ElemPrim n (PUInt64 z))) = Inr (ElemPrim n (PUInt64 (take_bit 32 w)))"
  using assms by (simp add: encode_ok UaVariantArrayToCommObject_def visit_prim_def conv_simps prim_cells_def
      prim_bytes_def word_reads del: read_word.simps One_nat_def)

theorem uint64_truncated_witness:
  "rbind (CommObjectToUaVariantArray std_api (ElemPrim ''t'' (PUInt64 4294967299)))
      (\<lambda>vs. UaVariantArrayToCommObject std_api vs (ElemPrim ''t'' (PUInt64 0)))
    = Inr (ElemPrim ''t'' (PUInt64 (take_bit 32 4294967299)))"
  by (rule uint64_truncated) simp

text \<open>An array of signed 64-bit integers is read back as the sign-extended 32-bit halves of its first
  elements: element \<open>i\<close> received is the low (\<open>i\<close> even) or high half of element \<open>i div 2\<close> sent.\<close>

theorem int64_array_misread:
  assumes "api_ok a"
  shows "rbind (CommObjectToUaVariantArray a
           (ElemArray n (ElemPrim m (PInt64 z)) (map (\<lambda>w. ElemPrim m (PInt64 w)) ws)))
         (\<lambda>vs. UaVariantArrayToCommObject a vs (ElemArray n (ElemPrim m (PInt64 z)) []))
       = Inr (ElemArray n (ElemPrim m (PInt64 z))
           (map (\<lambda>i. ElemPrim m (PInt64 (int32_half ws i))) [0..<length ws]))"
proof -
  let ?p = "ElemPrim m (PInt64 z)" and ?es = "map (\<lambda>w. ElemPrim m (PInt64 w)) ws"
  have "well_typed (ElemArray n ?p ?es)" "sendable (ElemArray n ?p ?es)" by (auto simp: list_all_iff)
  note enc = encode_array [OF assms this]
  have data: "vdata (array_of ?p ?es) = Bytes (concat (map (le_bytes 8) ws))"
    by (simp add: array_of_def mk_array_def prim_bytes_def comp_def)
  have "from_elem a (array_of ?p ?es) i ?p = Inr (ElemPrim m (PInt64 (int32_half ws i)))" if "i < length ws" for i
    using assms data read_int32_half [OF that]
    by (simp add: elem_prim_def check_type_def conv_simps int32_half_def ucast_take_bit_32 del: read_word.simps)
  then have "traverse (\<lambda>i. from_elem a (array_of ?p ?es) i ?p) [0..<length ?es]
    = Inr (map (\<lambda>i. ElemPrim m (PInt64 (int32_half ws i))) [0..<length ws])"
    by (subst traverse_map_Inr [where g = "\<lambda>i. ElemPrim m (PInt64 (int32_half ws i))"]) auto
  from enc decode_array [OF assms this] show ?thesis by simp
qed

theorem int64_array_misread_witness:
  "rbind (CommObjectToUaVariantArray std_api
           (ElemArray ''a'' (ElemPrim '''' (PInt64 0)) (map (\<lambda>w. ElemPrim '''' (PInt64 w)) [5, 6])))
         (\<lambda>vs. UaVariantArrayToCommObject std_api vs (ElemArray ''a'' (ElemPrim '''' (PInt64 0)) []))
       = Inr (ElemArray ''a'' (ElemPrim '''' (PInt64 0))
           (map (\<lambda>i. ElemPrim '''' (PInt64 (int32_half [5, 6] i))) [0..<length [5, 6 :: 64 word]]))"
  by (rule int64_array_misread) simp

text \<open>Decoding an array into an object whose vector is not empty appends: the elements received follow the
  elements the vector already had.\<close>

theorem decoding_appends:
  assumes "api_ok a" "well_typed (ElemArray n p es)" "sendable (ElemArray n p es)" "readable (ElemArray n p es)"
  shows "rbind (CommObjectToUaVariantArray a (ElemArray n p es))
      (\<lambda>vs. UaVariantArrayToCommObject a vs (ElemArray n p old)) = Inr (ElemArray n p (old @ es))"
proof -
  have "from_elem a (array_of p es) i p = Inr (es ! i)" if "i < length es" for i
    using from_variants_ok(3) [OF assms(1), of es p i "array_of p es"] assms(2,4) that by (simp add: list_all_iff)
  then have "traverse (\<lambda>i. from_elem a (array_of p es) i p) [0..<length es] = Inr es"
    by (subst traverse_map_Inr [where g = "(!) es"]) (auto simp: map_nth)
  from encode_array [OF assms(1-3)] decode_array [OF assms(1) this] show ?thesis by simp
qed

theorem decoding_appends_witness:
  "rbind (CommObjectToUaVariantArray std_api (sample_row [1]))
      (\<lambda>vs. UaVariantArrayToCommObject std_api vs (sample_row [8, 9])) = Inr (sample_row [8, 9, 1])"
  using decoding_appends [where a = std_api and n = "''''" and p = "ElemPrim '''' (PUInt16 0)" and
      es = "[ElemPrim '''' (PUInt16 1)]" and old = "[ElemPrim '''' (PUInt16 8), ElemPrim '''' (PUInt16 9)]"]
  by (simp add: sample_row_def)

text \<open>The reader of an array of objects does not test the type of the variant inside: an array of variants
  whose first element has one dimension but holds numbers instead of variants is read as an array of variant
  structures, outside the object's type (undefined behaviour).\<close>

theorem object_array_type_confusion:
  assumes "api_ok a" "0 < n"
  shows "UaVariantArrayToCommObject a
      [Variant (Some UA_VARIANT) 1 [1] (Vars [Variant (Some UA_INT32) n [of_nat n] (Bytes bs)])]
      (ElemArray m (Complex k ds) []) = Inl UndefinedBehaviour"
  using assms by (simp add: UaVariantArrayToCommObject_def elem_variants_def check_type_def conv_simps)

theorem object_array_type_confusion_witness:
  "UaVariantArrayToCommObject std_api
      [Variant (Some UA_VARIANT) 1 [1] (Vars [Variant (Some UA_INT32) 2 [of_nat 2] (Bytes [1, 2, 3, 4, 5, 6, 7, 8])])]
      (ElemArray ''poses'' (sample_pose 0 '''') []) = Inl UndefinedBehaviour"
  unfolding sample_pose_def by (rule object_array_type_confusion) simp_all

end
