(* ===== verification/StateSlave.thy ===== *)
theory StateSlave
  imports Prelude
begin

section \<open>The state slave\<close>

text \<open>
  \<open>State/StateSlave.cpp\<close>: the component's life-cycle and activity states. A component has main states,
  each with substates; a remote master commands main states through a query server, the component's
  own threads acquire and release substates, and a change of the main state waits until no substate it
  has to leave is acquired. Every public operation runs under one mutex, so an operation is a function
  on the state; a wait on a condition variable ends the function with the point to resume at. What the
  outside can see (answers sent, callbacks of the change handler, blocking mode, notified conditions)
  is recorded in \<open>trace\<close>, in order. The callbacks of the change handler are taken not to call back into
  the slave.
\<close>

subsection \<open>State\<close>

datatype ssa = SSA_UNDEFINED | SSA_CHANGE_STATE

datatype sub_action = STATE_ACTION_ACTIVATE | STATE_ACTION_DEACTIVATE | STATE_ACTION_NONE

datatype sub_mode = STATE_ACTIVATED | STATE_DEACTIVATED

text \<open>
  \<open>SmartStateEntry\<close>: \<open>client\<close> is the query id when \<open>server_proxy\<close> is not null; \<open>cond\<close> is the identity
  of the condition variable, which copies of the entry share.
\<close>

record state_entry =
  se_action :: ssa
  se_state :: string
  se_client :: "nat option"
  se_cond :: nat

text \<open>\<open>SmartSubStateEntry\<close>: its condition variable is identified by its position in the state list.\<close>

record sub_entry =
  mainstates :: "string list"
  sub_name :: string
  cnt :: int
  sub_act :: sub_action
  sub_state :: sub_mode

datatype event =
    Answer nat status "string list"
  | Quit string
  | Enter string
  | Blocking bool
  | NotifySub nat
  | NotifyReq nat

record slave =
  running :: bool
  stateQueue :: "state_entry list"
  desiredState :: state_entry
  currentState :: string
  initialState :: string
  stateList :: "sub_entry list"
  has_handler :: bool
  thread_running :: bool
  next_cond :: nat
  trace :: "event list"

definition emit :: "event list \<Rightarrow> slave \<Rightarrow> slave" where
  "emit es s = s\<lparr>trace := trace s @ es\<rparr>"

subsection \<open>Construction\<close>

definition new_sub :: "string \<Rightarrow> string list \<Rightarrow> sub_mode \<Rightarrow> sub_entry" where
  "new_sub n ms st = \<lparr>mainstates = ms, sub_name = n, cnt = 0, sub_act = STATE_ACTION_NONE, sub_state = st\<rparr>"

definition initial_subs :: "sub_entry list" where
  "initial_subs =
    [new_sub ''init'' [''Init''] STATE_ACTIVATED,
     new_sub ''neutral'' [''Neutral''] STATE_DEACTIVATED,
     new_sub ''fatalError'' [''FatalError''] STATE_DEACTIVATED,
     new_sub ''shutdown'' [''Shutdown''] STATE_DEACTIVATED,
     new_sub ''nonneutral'' [] STATE_DEACTIVATED]"

text \<open>The constructor with \<open>setUpInitialStateList\<close>; the update thread runs from here on.\<close>

definition new_slave :: "bool \<Rightarrow> slave" where
  "new_slave h = \<lparr>running = False, stateQueue = [],
     desiredState = \<lparr>se_action = SSA_UNDEFINED, se_state = ''Init'', se_client = None, se_cond = 0\<rparr>,
     currentState = ''Init'', initialState = ''Neutral'', stateList = initial_subs, has_handler = h,
     thread_running = True, next_cond = 1, trace = []\<rparr>"

subsection \<open>Queries\<close>

text \<open>A new entry (with its condition variable) for a state and a client.\<close>

definition new_entry :: "string \<Rightarrow> nat option \<Rightarrow> slave \<Rightarrow> state_entry \<times> slave" where
  "new_entry m c s = (\<lparr>se_action = SSA_CHANGE_STATE, se_state = m, se_client = c, se_cond = next_cond s\<rparr>,
     s\<lparr>next_cond := next_cond s + 1\<rparr>)"

definition not_commandable :: "string list" where
  "not_commandable = [''Init'', ''init'', ''Alive'', ''alive'', ''FatalError'', ''fatalerror'', ''fatalError'']"

definition hndSetMainState :: "nat \<Rightarrow> string \<Rightarrow> slave \<Rightarrow> slave" where
  "hndSetMainState qid mainstate s0 =
    (let (entry, s) = new_entry mainstate (Some qid) s0 in
     if \<not> running s then emit [Answer qid SMART_NOTACTIVATED []] s
     else if mainstate \<in> set not_commandable then emit [Answer qid SMART_NOTALLOWED []] s
     else if mainstate = ''Shutdown'' then s\<lparr>stateQueue := entry # stateQueue s\<rparr>
     else if currentState s = ''Init'' then emit [Answer qid SMART_NOTACTIVATED []] s
     else if currentState s = ''Shutdown'' \<or> currentState s = ''FatalError''
       then emit [Answer qid SMART_CANCELLED []] s
     else s\<lparr>stateQueue := stateQueue s @ [entry]\<rparr>)"

definition hndGetCurrentState :: "slave \<Rightarrow> string \<Rightarrow> status \<times> string" where
  "hndGetCurrentState s mainstate =
    (if \<not> running s then (SMART_NOTACTIVATED, mainstate) else (SMART_OK, currentState s))"

definition hndGetMainStates :: "slave \<Rightarrow> string list \<Rightarrow> status \<times> string list" where
  "hndGetMainStates s ms =
    (if \<not> running s then (SMART_NOTACTIVATED, ms)
     else case find (\<lambda>e. sub_name e = ''nonneutral'') (stateList s) of
         Some e \<Rightarrow> (SMART_OK, ''Neutral'' # mainstates e)
       | None \<Rightarrow> (SMART_ERROR, [''Neutral'']))"

definition hndGetSubStates :: "slave \<Rightarrow> string \<Rightarrow> status \<times> string list" where
  "hndGetSubStates s mainstate =
    (if \<not> running s then (SMART_NOTACTIVATED, [])
     else
       let found = filter (\<lambda>e. mainstate \<in> set (mainstates e)) (stateList s) in
       (if found = [] then SMART_UNKNOWNSTATE else SMART_OK, map (\<lambda>e. c_str (sub_name e)) found))"

text \<open>\<open>StateSlaveHandler::handleQuery\<close>, on the command number of the request.\<close>

definition handleQuery :: "nat \<Rightarrow> int \<Rightarrow> string \<Rightarrow> slave \<Rightarrow> slave" where
  "handleQuery qid command state_name s =
    (if command = 1 then hndSetMainState qid state_name s
     else if command = 2 then
       (case hndGetCurrentState s '''' of (r, m) \<Rightarrow> emit [Answer qid r [m]] s)
     else if command = 3 then
       (case hndGetMainStates s [] of (r, ms) \<Rightarrow> emit [Answer qid r ms] s)
     else if command = 4 then
       (case hndGetSubStates s state_name of (r, ms) \<Rightarrow> emit [Answer qid r ms] s)
     else s)"

subsection \<open>The state change\<close>

text \<open>Answer the client of the desired state, if there is one, and forget it.\<close>

definition answer_desired :: "status \<Rightarrow> slave \<Rightarrow> slave" where
  "answer_desired r s = (case se_client (desiredState s) of
     None \<Rightarrow> s
   | Some q \<Rightarrow> (emit [Answer q r []] s)\<lparr>desiredState := (desiredState s)\<lparr>se_client := None\<rparr>\<rparr>)"

definition set_desired_action :: "ssa \<Rightarrow> slave \<Rightarrow> slave" where
  "set_desired_action x s = s\<lparr>desiredState := (desiredState s)\<lparr>se_action := x\<rparr>\<rparr>"

definition valid_main :: "string \<Rightarrow> sub_entry list \<Rightarrow> bool" where
  "valid_main d es \<longleftrightarrow> list_ex (\<lambda>e. d \<in> set (mainstates e)) es"

text \<open>The action of a substate: left when it belongs to the current main state only, entered when to the desired one only.\<close>

definition mark_action :: "string \<Rightarrow> string \<Rightarrow> sub_entry \<Rightarrow> sub_entry" where
  "mark_action cur des e =
    (let desiredFlag = des \<in> set (mainstates e); currentFlag = cur \<in> set (mainstates e) in
     e\<lparr>sub_act := if currentFlag \<and> \<not> desiredFlag then STATE_ACTION_DEACTIVATE
                   else if \<not> currentFlag \<and> desiredFlag then STATE_ACTION_ACTIVATE
                   else STATE_ACTION_NONE\<rparr>)"

definition lockedFlag :: "sub_entry list \<Rightarrow> bool" where
  "lockedFlag es \<longleftrightarrow> list_ex (\<lambda>e. sub_act e = STATE_ACTION_DEACTIVATE \<and> cnt e \<noteq> 0) es"

text \<open>Blocking calls allowed again after an enforced change; a deactivation ends in the neutral state.\<close>

definition enforce :: "slave \<Rightarrow> slave" where
  "enforce s =
    (let d = se_state (desiredState s) in
     if d = ''Deactivated'' \<or> d = ''deactivated''
     then (emit [Blocking True] s)\<lparr>desiredState := (desiredState s)\<lparr>se_state := ''Neutral''\<rparr>\<rparr>
     else if d = ''Shutdown'' \<or> d = ''FatalError'' then emit [Blocking True] s
     else s)"

definition set_mode :: "sub_mode \<Rightarrow> sub_entry \<Rightarrow> sub_entry" where
  "set_mode m e = e\<lparr>sub_state := m\<rparr>"

fun last_idx :: "('a \<Rightarrow> bool) \<Rightarrow> 'a list \<Rightarrow> nat option" where
  "last_idx P [] = None"
| "last_idx P (x # xs) = (case last_idx P xs of Some i \<Rightarrow> Some (Suc i) | None \<Rightarrow> if P x then Some 0 else None)"

text \<open>
  First loop: quit every substate to be left but \<open>nonneutral\<close>, whose iterator is kept (\<open>hIterator\<close>, the
  last one met), with the flags whether to quit or to enter it.
\<close>

definition leaving :: "sub_entry \<Rightarrow> bool" where
  "leaving e \<longleftrightarrow> sub_act e = STATE_ACTION_DEACTIVATE \<and> sub_name e \<noteq> ''nonneutral''"

definition entering :: "sub_entry \<Rightarrow> bool" where
  "entering e \<longleftrightarrow> sub_act e = STATE_ACTION_ACTIVATE \<and> sub_name e \<noteq> ''nonneutral''"

definition quit_others :: "slave \<Rightarrow> slave" where
  "quit_others s =
    (emit (if has_handler s then map (\<lambda>e. Quit (sub_name e)) (filter leaving (stateList s)) else []) s)
      \<lparr>stateList := map (\<lambda>e. if leaving e then set_mode STATE_DEACTIVATED e else e) (stateList s)\<rparr>"

definition hIterator :: "sub_entry list \<Rightarrow> nat option" where
  "hIterator es = last_idx (\<lambda>e. sub_act e \<noteq> STATE_ACTION_NONE \<and> sub_name e = ''nonneutral'') es"

definition callHandler :: "sub_action \<Rightarrow> sub_entry list \<Rightarrow> bool" where
  "callHandler act es \<longleftrightarrow> list_ex (\<lambda>e. sub_act e = act \<and> sub_name e = ''nonneutral'') es"

definition quit_nonneutral :: "slave \<Rightarrow> slave" where
  "quit_nonneutral s =
    (if callHandler STATE_ACTION_DEACTIVATE (stateList s) then
       case hIterator (stateList s) of
         None \<Rightarrow> s
       | Some i \<Rightarrow> (emit (if has_handler s then [Quit (sub_name (stateList s ! i))] else []) s)
           \<lparr>stateList := (stateList s)[i := set_mode STATE_DEACTIVATED (stateList s ! i)]\<rparr>
     else s)"

definition enter_nonneutral :: "slave \<Rightarrow> slave" where
  "enter_nonneutral s =
    (if callHandler STATE_ACTION_ACTIVATE (stateList s) then
       case hIterator (stateList s) of
         None \<Rightarrow> s
       | Some i \<Rightarrow> (emit (if has_handler s then [Enter (sub_name (stateList s ! i))] else []) s)
           \<lparr>stateList := (stateList s)[i := set_mode STATE_ACTIVATED (stateList s ! i)]\<rparr>
     else s)"

definition enter_others :: "slave \<Rightarrow> slave" where
  "enter_others s =
    (emit (if has_handler s then map (\<lambda>e. Enter (sub_name e)) (filter entering (stateList s)) else []) s)
      \<lparr>stateList := map (\<lambda>e. if entering e then set_mode STATE_ACTIVATED e else e) (stateList s)\<rparr>"

text \<open>Wake the blocked calls of acquire on every active substate (on all of them in a shutdown).\<close>

definition notify_subs :: "slave \<Rightarrow> slave" where
  "notify_subs s =
    emit (map (\<lambda>(i, e). NotifySub i)
       (filter (\<lambda>(i, e). sub_state e = STATE_ACTIVATED \<or> se_state (desiredState s) = ''Shutdown'')
          (enumerate 0 (stateList s)))) s"

text \<open>The new main state is reached: no action pending, the waiting caller woken, the master answered.\<close>

definition finish_change :: "slave \<Rightarrow> slave" where
  "finish_change s =
    answer_desired SMART_OK
      (emit [NotifyReq (se_cond (desiredState s))]
        (set_desired_action SSA_UNDEFINED (s\<lparr>currentState := se_state (desiredState s)\<rparr>)))"

definition mark_actions :: "slave \<Rightarrow> slave" where
  "mark_actions s =
    s\<lparr>stateList := map (mark_action (currentState s) (se_state (desiredState s))) (stateList s)\<rparr>"

definition perform_change :: "slave \<Rightarrow> slave" where
  "perform_change s =
    finish_change (notify_subs (enter_others (enter_nonneutral (quit_nonneutral (quit_others (enforce s))))))"

text \<open>
  The branches without a change: the requested state is current already, it is unknown, or nothing is
  pending (a client without a pending action is answered with an error). The action is one of the two
  enumerators, so the last branch of the code, an unknown action, is not reached.
\<close>

definition already_current :: "slave \<Rightarrow> slave" where
  "already_current s = answer_desired SMART_OK (set_desired_action SSA_UNDEFINED s)"

definition reject_unknown :: "slave \<Rightarrow> slave" where
  "reject_unknown s = answer_desired SMART_UNKNOWNSTATE (set_desired_action SSA_UNDEFINED s)"

definition nothing_pending :: "slave \<Rightarrow> slave" where
  "nothing_pending s = answer_desired SMART_ERROR (set_desired_action SSA_UNDEFINED s)"

definition updateState :: "slave \<Rightarrow> slave" where
  "updateState s =
    (let d = se_state (desiredState s) in
     case se_action (desiredState s) of
       SSA_CHANGE_STATE \<Rightarrow>
         if d = currentState s then already_current s
         else if valid_main d (stateList s) \<or> d = ''deactivated'' \<or> d = ''Deactivated'' \<or> d = ''Alive'' then
           let s' = mark_actions s in
           if lockedFlag (stateList s') then s' else perform_change s'
         else reject_unknown s
     | SSA_UNDEFINED \<Rightarrow> nothing_pending s)"

text \<open>
  \<open>updateStateFromThread\<close>, called by the update thread: the next request becomes the desired state (an
  unfinished one, with its client, is overwritten).
\<close>

definition updateStateFromThread :: "slave \<Rightarrow> slave" where
  "updateStateFromThread s =
    (case stateQueue s of
       [] \<Rightarrow> s
     | entry # rest \<Rightarrow>
         let desired = se_state entry;
             s1 = s\<lparr>desiredState := entry, stateQueue := rest\<rparr>;
             s2 = (if desired \<in> {''Deactivated'', ''Shutdown'', ''FatalError'', ''deactivated''}
                   then emit [Blocking False] s1 else s1);
             s3 = updateState s2
         in if desired = ''Shutdown'' then s3\<lparr>thread_running := False\<rparr> else s3)"

definition on_execute :: "slave \<Rightarrow> int \<times> slave" where
  "on_execute s = (if thread_running s then (0, updateStateFromThread s) else (-1, s))"

subsection \<open>Operations of the component\<close>

text \<open>Where a blocked call goes on when its condition is notified.\<close>

datatype pc =
    AcquireChanging nat
  | AcquireInactive nat
  | WaitChange string nat
  | WaitInitial nat

datatype outcome = Return status | Block pc

definition push_front :: "string \<Rightarrow> slave \<Rightarrow> nat \<times> slave" where
  "push_front m s0 = (let (entry, s) = new_entry m None s0
     in (se_cond entry, s\<lparr>stateQueue := entry # stateQueue s\<rparr>))"

definition wait_change :: "string \<Rightarrow> slave \<Rightarrow> outcome \<times> slave" where
  "wait_change m s = (let (c, s') = push_front m s in (Block (WaitChange m c), s'))"

definition setWaitState :: "string \<Rightarrow> slave \<Rightarrow> outcome \<times> slave" where
  "setWaitState m s =
    (if \<not> running s then (Return SMART_NOTACTIVATED, s)
     else if m = ''Alive'' \<or> m = ''FatalError'' \<or> m = ''Shutdown'' then
       if currentState s = ''Init'' then wait_change m s
       else if currentState s = ''Shutdown'' then
         (Return (if m = ''Shutdown'' then SMART_OK else SMART_NOTALLOWED), s)
       else if currentState s = ''FatalError'' then
         if m = ''Shutdown'' then wait_change m s
         else if m = ''FatalError'' then (Return SMART_OK, s)
         else (Return SMART_NOTALLOWED, s)
       else if m = ''Alive'' then (Return SMART_OK, s)
       else wait_change m s
     else (Return SMART_NOTALLOWED, s))"

text \<open>
  Resuming after the wait. A change to \<open>Alive\<close> (only ever awaited from \<open>Init\<close>) goes on to the initial
  state, queued under the same condition variable.
\<close>

definition setWaitState_resume :: "string \<Rightarrow> nat \<Rightarrow> slave \<Rightarrow> outcome \<times> slave" where
  "setWaitState_resume m c s =
    (if m = ''Alive'' then
       (Block (WaitInitial c),
        s\<lparr>stateQueue := stateQueue s @
          [\<lparr>se_action = SSA_CHANGE_STATE, se_state = initialState s, se_client = None, se_cond = c\<rparr>]\<rparr>)
     else (Return SMART_OK, s))"

definition reserved_main :: "string list" where
  "reserved_main = [''Init'', ''init'', ''Alive'', ''alive'', ''Neutral'', ''neutral'', ''Shutdown'', ''shutdown'',
     ''FatalError'', ''fatalerror'', ''fatalError'', ''deactivated'', ''Deactivated'']"

definition reserved_sub :: "string list" where
  "reserved_sub = [''Init'', ''init'', ''Alive'', ''alive'', ''neutral'', ''Neutral'', ''Shutdown'', ''shutdown'',
     ''FatalError'', ''fatalerror'', ''fatalError'', ''nonneutral'', ''nonNeutral'', ''NonNeutral'']"

text \<open>
  Binding a main state to the (single) substate of a name, the block \<open>defineStates\<close> has twice: nothing
  when it is bound, an error when it is bound more than once.
\<close>

definition bind_main :: "string \<Rightarrow> nat \<Rightarrow> sub_entry list \<Rightarrow> status \<times> sub_entry list" where
  "bind_main mainstate i es =
    (let countM = count_list (mainstates (es ! i)) mainstate in
     if countM = 0 then (SMART_OK, es[i := (es ! i)\<lparr>mainstates := mainstates (es ! i) @ [mainstate]\<rparr>])
     else if countM = 1 then (SMART_OK, es)
     else (SMART_ERROR, es))"

definition count_subs :: "string \<Rightarrow> sub_entry list \<Rightarrow> nat" where
  "count_subs n es = length (filter (\<lambda>e. sub_name e = n) es)"

definition find_sub :: "string \<Rightarrow> sub_entry list \<Rightarrow> nat option" where
  "find_sub n es = last_idx (\<lambda>e. sub_name e = n) es"

text \<open>First part of \<open>defineStates\<close>: every main state is bound to \<open>nonneutral\<close>.\<close>

definition define_main :: "string \<Rightarrow> sub_entry list \<Rightarrow> status \<times> sub_entry list" where
  "define_main mainstate es =
    (case find_sub ''nonneutral'' es of
       None \<Rightarrow> (SMART_ERROR, es)
     | Some i \<Rightarrow> if count_subs ''nonneutral'' es = 1 then bind_main mainstate i es else (SMART_ERROR, es))"

text \<open>Second part: the substate is created, or the main state bound to it.\<close>

definition define_sub :: "string \<Rightarrow> string \<Rightarrow> sub_entry list \<Rightarrow> status \<times> sub_entry list" where
  "define_sub mainstate substate es =
    (case find_sub substate es of
       None \<Rightarrow> (SMART_OK, es @ [new_sub substate [mainstate] STATE_DEACTIVATED])
     | Some i \<Rightarrow> if count_subs substate es = 1 then bind_main mainstate i es else (SMART_ERROR, es))"

definition defineStates :: "string \<Rightarrow> string \<Rightarrow> slave \<Rightarrow> status \<times> slave" where
  "defineStates mainstate substate s =
    (if running s then (SMART_ACTIVATED, s)
     else if mainstate \<in> set reserved_main \<or> substate \<in> set reserved_sub then (SMART_NOTALLOWED, s)
     else
       case define_main mainstate (stateList s) of (r, es) \<Rightarrow>
         if r = SMART_OK then
           case define_sub mainstate substate es of (r', es') \<Rightarrow> (r', s\<lparr>stateList := es'\<rparr>)
         else (r, s\<lparr>stateList := es\<rparr>))"

definition setUpInitialState :: "string \<Rightarrow> slave \<Rightarrow> status \<times> slave" where
  "setUpInitialState m s =
    (if m = ''Neutral'' then (SMART_OK, s\<lparr>initialState := m\<rparr>)
     else case find_sub ''nonneutral'' (stateList s) of
         None \<Rightarrow> (SMART_ERROR, s)
       | Some i \<Rightarrow>
           if count_subs ''nonneutral'' (stateList s) = 1 then
             if m \<in> set (mainstates (stateList s ! i)) then (SMART_OK, s\<lparr>initialState := m\<rparr>)
             else (SMART_ERROR, s)
           else (SMART_ERROR, s))"

definition getCurrentMainState :: "slave \<Rightarrow> string" where
  "getCurrentMainState s =
    (if se_action (desiredState s) = SSA_CHANGE_STATE then se_state (desiredState s) else currentState s)"

definition activate :: "slave \<Rightarrow> status \<times> slave" where
  "activate s = (SMART_OK, s\<lparr>running := True\<rparr>)"

definition add_cnt :: "int \<Rightarrow> nat \<Rightarrow> slave \<Rightarrow> slave" where
  "add_cnt k i s = s\<lparr>stateList := (stateList s)[i := (stateList s ! i)\<lparr>cnt := cnt (stateList s ! i) + k\<rparr>]\<rparr>"

text \<open>\<open>acquire\<close> up to a wait, and from the wait on.\<close>

definition acquire_changed :: "nat \<Rightarrow> slave \<Rightarrow> outcome \<times> slave" where
  "acquire_changed i s =
    (if currentState s = ''Shutdown'' then (Return SMART_NOTACTIVATED, s)
     else (Return SMART_OK, add_cnt 1 i s))"

definition acquire_activated :: "nat \<Rightarrow> slave \<Rightarrow> outcome \<times> slave" where
  "acquire_activated i s =
    (if currentState s = ''Shutdown'' then (Return SMART_NOTACTIVATED, add_cnt (-1) i s)
     else (Return SMART_OK, s))"

definition acquire :: "string \<Rightarrow> slave \<Rightarrow> outcome \<times> slave" where
  "acquire substate s =
    (if \<not> running s then (Return SMART_NOTACTIVATED, s)
     else case find_sub substate (stateList s) of
         None \<Rightarrow> (Return SMART_UNKNOWNSTATE, s)
       | Some i \<Rightarrow>
           let e = stateList s ! i in
           if se_action (desiredState s) = SSA_CHANGE_STATE then
             if sub_act e \<noteq> STATE_ACTION_NONE \<or> sub_state e \<noteq> STATE_ACTIVATED then (Block (AcquireChanging i), s)
             else acquire_changed i s
           else if sub_state e = STATE_ACTIVATED then (Return SMART_OK, add_cnt 1 i s)
           else
             let s' = add_cnt 1 i s in
             if currentState s \<noteq> ''Shutdown'' then (Block (AcquireInactive i), s')
             else acquire_activated i s')"

definition tryAcquire :: "string \<Rightarrow> slave \<Rightarrow> status \<times> slave" where
  "tryAcquire substate s =
    (if \<not> running s then (SMART_NOTACTIVATED, s)
     else case find_sub substate (stateList s) of
         None \<Rightarrow> (SMART_UNKNOWNSTATE, s)
       | Some i \<Rightarrow>
           let e = stateList s ! i in
           if se_action (desiredState s) = SSA_CHANGE_STATE then
             if sub_act e = STATE_ACTION_NONE \<and> sub_state e = STATE_ACTIVATED
             then (SMART_OK, add_cnt 1 i s) else (SMART_NOTACTIVATED, s)
           else if sub_state e = STATE_ACTIVATED then (SMART_OK, add_cnt 1 i s)
           else (SMART_NOTACTIVATED, s))"

definition release_cnt :: "string \<Rightarrow> slave \<Rightarrow> status \<times> slave" where
  "release_cnt substate s =
    (if \<not> running s then (SMART_NOTACTIVATED, s)
     else case find_sub substate (stateList s) of
         None \<Rightarrow> (SMART_UNKNOWNSTATE, s)
       | Some i \<Rightarrow>
           if sub_state (stateList s ! i) = STATE_ACTIVATED \<and> cnt (stateList s ! i) > 0
           then (SMART_OK, add_cnt (-1) i s) else (SMART_OK, s))"

definition release :: "string \<Rightarrow> slave \<Rightarrow> status \<times> slave" where
  "release substate s = (case release_cnt substate s of (r, s') \<Rightarrow>
     (r, if r = SMART_OK then updateState s' else s'))"

text \<open>The call blocked at a point goes on.\<close>

fun resume :: "pc \<Rightarrow> slave \<Rightarrow> outcome \<times> slave" where
  "resume (AcquireChanging i) s = acquire_changed i s"
| "resume (AcquireInactive i) s = acquire_activated i s"
| "resume (WaitChange m c) s = setWaitState_resume m c s"
| "resume (WaitInitial c) s = (Return SMART_OK, s)"

end
