(* ===== verification/SlaveInvariant.thy ===== *)
theory SlaveInvariant
  imports StateSlave
begin

section \<open>The invariant of the state slave\<close>

text \<open>
  The operations of the slave as a transition system, and what every reachable state satisfies: the
  layout of the state list, the life cycle (nothing pending before activation, the shutdown state
  final), that a change is pending only while a substate it leaves is acquired, and, as long as no
  deactivation is requested, that the active substates are those of the current main state.
\<close>

subsection \<open>Positions in the state list\<close>

lemma last_idx_None [simp]: "last_idx P xs = None \<longleftrightarrow> (\<forall>x \<in> set xs. \<not> P x)"
  by (induction xs) (auto split: option.splits)

lemma last_idx_SomeD: "last_idx P xs = Some i \<Longrightarrow> i < length xs \<and> P (xs ! i)"
  by (induction xs arbitrary: i) (auto split: option.splits if_splits)

lemma last_idx_Some_ex: "x \<in> set xs \<Longrightarrow> P x \<Longrightarrow> \<exists>i. last_idx P xs = Some i"
  by (metis last_idx_None not_None_eq)

lemma distinct_map_unique:
  "distinct (map f xs) \<Longrightarrow> i < length xs \<Longrightarrow> j < length xs \<Longrightarrow> f (xs ! i) = f (xs ! j) \<Longrightarrow> i = j"
  by (simp add: distinct_conv_nth) (metis nth_map)

text \<open>Updating the only element with a property is a conditional map.\<close>

lemma update_unique:
  assumes "i < length xs" "P (xs ! i)" "\<And>j. j < length xs \<Longrightarrow> P (xs ! j) \<Longrightarrow> j = i"
  shows "xs[i := f (xs ! i)] = map (\<lambda>x. if P x then f x else x) xs"
proof (rule nth_equalityI)
  fix j assume j: "j < length (xs[i := f (xs ! i)])"
  show "xs[i := f (xs ! i)] ! j = map (\<lambda>x. if P x then f x else x) xs ! j"
  proof (cases "j = i")
    case False
    with assms(3) j have "\<not> P (xs ! j)" by auto
    with False j show ?thesis by simp
  qed (use assms(1,2) in simp)
qed simp

lemma distinct_set_singleton: "distinct xs \<Longrightarrow> set xs = {a} \<Longrightarrow> xs = [a]"
  by (cases xs; cases "tl xs") auto

lemma hIterator_unique:
  assumes "distinct (map sub_name es)" "e \<in> set es" "sub_act e \<noteq> STATE_ACTION_NONE" "sub_name e = ''nonneutral''"
  obtains i where "hIterator es = Some i" "i < length es" "es ! i = e"
proof -
  obtain i where i: "hIterator es = Some i"
    unfolding hIterator_def using last_idx_Some_ex [OF assms(2)] assms(3,4) by fastforce
  then have "i < length es" "sub_name (es ! i) = ''nonneutral''"
    unfolding hIterator_def by (auto dest: last_idx_SomeD)
  moreover from assms(2) obtain j where "j < length es" "es ! j = e" by (auto simp: in_set_conv_nth)
  ultimately have "es ! i = e" using distinct_map_unique [OF assms(1), of i j] assms(4) by auto
  with i \<open>i < length es\<close> that show ?thesis by blast
qed

lemma slave_emit [slave_simps]:
  "running (emit es s) = running s" "stateQueue (emit es s) = stateQueue s"
  "desiredState (emit es s) = desiredState s" "currentState (emit es s) = currentState s"
  "initialState (emit es s) = initialState s" "stateList (emit es s) = stateList s"
  "has_handler (emit es s) = has_handler s" "thread_running (emit es s) = thread_running s"
  "next_cond (emit es s) = next_cond s" "trace (emit es s) = trace s @ es"
  by (simp_all add: emit_def)

text \<open>What the loops do to a substate: its mode follows its action.\<close>

definition apply_action :: "sub_entry \<Rightarrow> sub_entry" where
  "apply_action e = (case sub_act e of
     STATE_ACTION_ACTIVATE \<Rightarrow> set_mode STATE_ACTIVATED e
   | STATE_ACTION_DEACTIVATE \<Rightarrow> set_mode STATE_DEACTIVATED e
   | STATE_ACTION_NONE \<Rightarrow> e)"

definition is_nn :: "sub_action \<Rightarrow> sub_entry \<Rightarrow> bool" where
  "is_nn x e \<longleftrightarrow> sub_act e = x \<and> sub_name e = ''nonneutral''"

lemma set_mode_simps [simp]:
  "sub_name (set_mode m e) = sub_name e" "mainstates (set_mode m e) = mainstates e" "cnt (set_mode m e) = cnt e"
  "sub_act (set_mode m e) = sub_act e" "sub_state (set_mode m e) = m"
  by (simp_all add: set_mode_def)

lemma nn_index:
  assumes "distinct (map sub_name es)" "x \<noteq> STATE_ACTION_NONE" "callHandler x es"
  obtains i where "hIterator es = Some i" "i < length es" "is_nn x (es ! i)" "filter (is_nn x) es = [es ! i]"
    "\<And>f. es[i := f (es ! i)] = map (\<lambda>e. if is_nn x e then f e else e) es"
proof -
  obtain e where e: "e \<in> set es" "is_nn x e"
    using assms(3) by (auto simp: callHandler_def list_ex_iff is_nn_def)
  obtain i where i: "hIterator es = Some i" "i < length es" "es ! i = e"
    by (rule hIterator_unique [OF assms(1) e(1)]) (use e assms(2) in \<open>auto simp: is_nn_def\<close>)
  have uniq: "j = i" if "j < length es" "is_nn x (es ! j)" for j
    using distinct_map_unique [OF assms(1) that(1) i(2)] that(2) e i(3) by (auto simp: is_nn_def)
  have "filter (is_nn x) es = [es ! i]"
  proof (rule distinct_set_singleton)
    show "distinct (filter (is_nn x) es)" using assms(1) by (simp add: distinct_map)
    have "e' = es ! i" if "e' \<in> set es" "is_nn x e'" for e'
      using that uniq by (metis in_set_conv_nth)
    with e i show "set (filter (is_nn x) es) = {es ! i}" by auto
  qed
  moreover have "es[i := f (es ! i)] = map (\<lambda>e. if is_nn x e then f e else e) es" for f
    by (rule update_unique) (use e i uniq in blast)+
  ultimately show ?thesis using that i e by blast
qed

lemma emit_Nil [simp]: "emit [] s = s"
  by (simp add: emit_def)

text \<open>One loop over the substates: those selected get a mode, and the handler an event, in order.\<close>

definition upd :: "(sub_entry \<Rightarrow> bool) \<Rightarrow> sub_mode \<Rightarrow> sub_entry \<Rightarrow> sub_entry" where
  "upd P m e = (if P e then set_mode m e else e)"

definition phase :: "(sub_entry \<Rightarrow> bool) \<Rightarrow> (string \<Rightarrow> event) \<Rightarrow> sub_mode \<Rightarrow> slave \<Rightarrow> slave" where
  "phase P ev m s =
    (emit (if has_handler s then map (\<lambda>e. ev (sub_name e)) (filter P (stateList s)) else []) s)
      \<lparr>stateList := map (upd P m) (stateList s)\<rparr>"

lemma upd_simps [simp]:
  "sub_name (upd P m e) = sub_name e" "mainstates (upd P m e) = mainstates e" "cnt (upd P m e) = cnt e"
  "sub_act (upd P m e) = sub_act e"
  by (simp_all add: upd_def)

lemma selections_stable [simp]:
  "leaving (upd P m e) = leaving e" "entering (upd P m e) = entering e" "is_nn x (upd P m e) = is_nn x e"
  by (simp_all add: leaving_def entering_def is_nn_def)

lemma map_sub_name_upd [simp]: "map sub_name (map (upd P m) es) = map sub_name es"
  by simp

lemma no_callHandler:
  assumes "\<not> callHandler x es"
  shows "filter (is_nn x) es = []" "map (upd (is_nn x) m) es = es"
proof -
  have "\<not> is_nn x e" if "e \<in> set es" for e
    using assms that by (auto simp: callHandler_def list_ex_iff is_nn_def)
  then show "filter (is_nn x) es = []" "map (upd (is_nn x) m) es = es"
    by (auto simp: upd_def intro: map_idI)
qed

lemma quit_others_phase: "quit_others = phase leaving Quit STATE_DEACTIVATED"
  by (simp add: fun_eq_iff quit_others_def phase_def upd_def)

lemma enter_others_phase: "enter_others = phase entering Enter STATE_ACTIVATED"
  by (simp add: fun_eq_iff enter_others_def phase_def upd_def)

lemma quit_nonneutral_phase:
  assumes "distinct (map sub_name (stateList s))"
  shows "quit_nonneutral s = phase (is_nn STATE_ACTION_DEACTIVATE) Quit STATE_DEACTIVATED s"
proof (cases "callHandler STATE_ACTION_DEACTIVATE (stateList s)")
  case True
  from nn_index [OF assms _ True] obtain i where i: "hIterator (stateList s) = Some i"
    "filter (is_nn STATE_ACTION_DEACTIVATE) (stateList s) = [stateList s ! i]"
    "\<And>f. (stateList s)[i := f (stateList s ! i)]
      = map (\<lambda>e. if is_nn STATE_ACTION_DEACTIVATE e then f e else e) (stateList s)" by blast
  with True show ?thesis by (simp add: quit_nonneutral_def phase_def upd_def)
qed (simp add: quit_nonneutral_def phase_def no_callHandler)

lemma enter_nonneutral_phase:
  assumes "distinct (map sub_name (stateList s))"
  shows "enter_nonneutral s = phase (is_nn STATE_ACTION_ACTIVATE) Enter STATE_ACTIVATED s"
proof (cases "callHandler STATE_ACTION_ACTIVATE (stateList s)")
  case True
  from nn_index [OF assms _ True] obtain i where i: "hIterator (stateList s) = Some i"
    "filter (is_nn STATE_ACTION_ACTIVATE) (stateList s) = [stateList s ! i]"
    "\<And>f. (stateList s)[i := f (stateList s ! i)]
      = map (\<lambda>e. if is_nn STATE_ACTION_ACTIVATE e then f e else e) (stateList s)" by blast
  with True show ?thesis by (simp add: enter_nonneutral_def phase_def upd_def)
qed (simp add: enter_nonneutral_def phase_def no_callHandler)

lemma phase_names [simp]: "map sub_name (stateList (phase P ev m s)) = map sub_name (stateList s)"
  by (simp add: phase_def)

definition change_events :: "sub_entry list \<Rightarrow> event list" where
  "change_events es =
     map (\<lambda>e. Quit (sub_name e)) (filter leaving es) @
     map (\<lambda>e. Quit (sub_name e)) (filter (is_nn STATE_ACTION_DEACTIVATE) es) @
     map (\<lambda>e. Enter (sub_name e)) (filter (is_nn STATE_ACTION_ACTIVATE) es) @
     map (\<lambda>e. Enter (sub_name e)) (filter entering es)"

text \<open>A map that keeps names and actions keeps what is selected by them.\<close>

lemma map_filter_upd:
  assumes "\<And>e. Q (upd P m e) = Q e"
  shows "map (\<lambda>e. ev (sub_name e)) (filter Q (map (upd P m) es)) = map (\<lambda>e. ev (sub_name e)) (filter Q es)"
  using assms by (induction es) auto

lemma upd_apply_action:
  "upd entering STATE_ACTIVATED (upd (is_nn STATE_ACTION_ACTIVATE) STATE_ACTIVATED
     (upd (is_nn STATE_ACTION_DEACTIVATE) STATE_DEACTIVATED (upd leaving STATE_DEACTIVATED e))) = apply_action e"
  unfolding upd_def [of entering] upd_def [of "is_nn STATE_ACTION_ACTIVATE"]
    upd_def [of "is_nn STATE_ACTION_DEACTIVATE"] selections_stable
  by (cases "sub_act e") (auto simp: upd_def apply_action_def leaving_def entering_def is_nn_def)

lemma phases_eq:
  "phase entering Enter STATE_ACTIVATED (phase (is_nn STATE_ACTION_ACTIVATE) Enter STATE_ACTIVATED
     (phase (is_nn STATE_ACTION_DEACTIVATE) Quit STATE_DEACTIVATED (phase leaving Quit STATE_DEACTIVATED s)))
   = s\<lparr>stateList := map apply_action (stateList s),
       trace := trace s @ (if has_handler s then change_events (stateList s) else [])\<rparr>"
proof -
  have "map (upd entering STATE_ACTIVATED) (map (upd (is_nn STATE_ACTION_ACTIVATE) STATE_ACTIVATED)
      (map (upd (is_nn STATE_ACTION_DEACTIVATE) STATE_DEACTIVATED) (map (upd leaving STATE_DEACTIVATED) es)))
    = map apply_action es" for es
    by (simp add: upd_apply_action)
  then show ?thesis
    by (simp add: phase_def emit_def change_events_def map_filter_upd del: map_map)
qed

definition target_state :: "string \<Rightarrow> string" where
  "target_state d = (if d = ''Deactivated'' \<or> d = ''deactivated'' then ''Neutral'' else d)"

definition enforce_events :: "string \<Rightarrow> event list" where
  "enforce_events d = (if d \<in> {''Deactivated'', ''deactivated'', ''Shutdown'', ''FatalError''} then [Blocking True] else [])"

definition answer_events :: "status \<Rightarrow> nat option \<Rightarrow> event list" where
  "answer_events r c = (case c of None \<Rightarrow> [] | Some q \<Rightarrow> [Answer q r []])"

definition notify_events :: "string \<Rightarrow> sub_entry list \<Rightarrow> event list" where
  "notify_events d es = map (\<lambda>(i, e). NotifySub i)
     (filter (\<lambda>(i, e). sub_state e = STATE_ACTIVATED \<or> d = ''Shutdown'') (enumerate 0 es))"

lemma enforce_eq: "enforce s = s\<lparr>trace := trace s @ enforce_events (se_state (desiredState s)),
    desiredState := (desiredState s)\<lparr>se_state := target_state (se_state (desiredState s))\<rparr>\<rparr>"
  by (auto simp: enforce_def enforce_events_def target_state_def emit_def Let_def)

lemma answer_desired_eq: "answer_desired r s = s\<lparr>trace := trace s @ answer_events r (se_client (desiredState s)),
    desiredState := (desiredState s)\<lparr>se_client := None\<rparr>\<rparr>"
  by (cases s; cases "desiredState s") (auto simp: answer_desired_def answer_events_def emit_def split: option.splits)

text \<open>The result of a performed change, all fields.\<close>

lemma perform_change_eq:
  assumes "distinct (map sub_name (stateList s))"
  shows "perform_change s = s\<lparr>stateList := map apply_action (stateList s),
      currentState := target_state (se_state (desiredState s)),
      desiredState := (desiredState s)\<lparr>se_action := SSA_UNDEFINED, se_client := None,
        se_state := target_state (se_state (desiredState s))\<rparr>,
      trace := trace s @ enforce_events (se_state (desiredState s))
        @ (if has_handler s then change_events (stateList s) else [])
        @ notify_events (target_state (se_state (desiredState s))) (map apply_action (stateList s))
        @ NotifyReq (se_cond (desiredState s)) # answer_events SMART_OK (se_client (desiredState s))\<rparr>"
proof -
  have d: "distinct (map sub_name (stateList (enforce s)))" by (simp add: enforce_eq assms)
  have "enter_others (enter_nonneutral (quit_nonneutral (quit_others (enforce s))))
    = (enforce s)\<lparr>stateList := map apply_action (stateList (enforce s)),
       trace := trace (enforce s) @ (if has_handler (enforce s) then change_events (stateList (enforce s)) else [])\<rparr>"
    unfolding quit_others_phase enter_others_phase
    by (subst quit_nonneutral_phase, simp add: d) (subst enter_nonneutral_phase, simp add: d, rule phases_eq)
  then show ?thesis
    by (simp add: perform_change_def finish_change_def notify_subs_def answer_desired_eq set_desired_action_def
      emit_def enforce_eq notify_events_def)
qed

subsection \<open>The operations as a transition system\<close>

text \<open>
  The calls into the slave, each atomic up to its wait, and the resumption of a blocked call (which
  exists only once the slave runs).
\<close>

datatype op =
    OpDefine string string
  | OpSetInitial string
  | OpActivate
  | OpQuery nat int string
  | OpThread
  | OpSetWait string
  | OpAcquire string
  | OpTryAcquire string
  | OpRelease string
  | OpResume pc

fun exec :: "op \<Rightarrow> slave \<Rightarrow> slave" where
  "exec (OpDefine m n) s = snd (defineStates m n s)"
| "exec (OpSetInitial m) s = snd (setUpInitialState m s)"
| "exec OpActivate s = snd (activate s)"
| "exec (OpQuery q c m) s = handleQuery q c m s"
| "exec OpThread s = snd (on_execute s)"
| "exec (OpSetWait m) s = snd (setWaitState m s)"
| "exec (OpAcquire n) s = snd (acquire n s)"
| "exec (OpTryAcquire n) s = snd (tryAcquire n s)"
| "exec (OpRelease n) s = snd (release n s)"
| "exec (OpResume p) s = snd (resume p s)"

fun enabled :: "op \<Rightarrow> slave \<Rightarrow> bool" where
  "enabled (OpResume p) s \<longleftrightarrow> running s"
| "enabled _ s \<longleftrightarrow> True"

text \<open>\<open>reachable D\<close>: the states reached by calls that satisfy \<open>D\<close>.\<close>

inductive reachable :: "(op \<Rightarrow> bool) \<Rightarrow> slave \<Rightarrow> bool" for D where
  start: "reachable D (new_slave h)"
| step: "reachable D s \<Longrightarrow> enabled op s \<Longrightarrow> D op \<Longrightarrow> reachable D (exec op s)"

definition any_op :: "op \<Rightarrow> bool" where
  "any_op op = True"

text \<open>No request to deactivate.\<close>

fun no_deactivation :: "op \<Rightarrow> bool" where
  "no_deactivation (OpQuery q c m) \<longleftrightarrow> m \<noteq> ''Deactivated'' \<and> m \<noteq> ''deactivated''"
| "no_deactivation _ \<longleftrightarrow> True"

subsection \<open>Layout of the state list\<close>

text \<open>
  The five built-in substates come first, with their main states; \<open>nonneutral\<close> has every user main
  state once; each user substate has a name of its own and user main states, without repetition.
\<close>

definition shape :: "sub_entry \<Rightarrow> string \<times> string list" where
  "shape e = (sub_name e, mainstates e)"

definition base_shapes :: "string list \<Rightarrow> (string \<times> string list) list" where
  "base_shapes ms = [(''init'', [''Init'']), (''neutral'', [''Neutral'']), (''fatalError'', [''FatalError'']),
     (''shutdown'', [''Shutdown'']), (''nonneutral'', ms)]"

definition layout_of :: "string list \<Rightarrow> (string \<times> string list) list \<Rightarrow> sub_entry list \<Rightarrow> bool" where
  "layout_of ms us es \<longleftrightarrow> map shape es = base_shapes ms @ us \<and>
     distinct ms \<and> set ms \<inter> set reserved_main = {} \<and> distinct (map fst us) \<and>
     (\<forall>u \<in> set us. fst u \<notin> set reserved_sub \<and> distinct (snd u) \<and> set (snd u) \<subseteq> set ms)"

definition layout :: "sub_entry list \<Rightarrow> bool" where
  "layout es \<longleftrightarrow> (\<exists>ms us. layout_of ms us es)"

lemma map_fst_shape: "map sub_name es = map fst (map shape es)"
  by (simp add: shape_def comp_def)

lemma layout_distinct:
  assumes "layout es"
  shows "distinct (map sub_name es)"
proof -
  from assms obtain ms us where l: "map shape es = base_shapes ms @ us" "distinct (map fst us)"
    "\<forall>u \<in> set us. fst u \<notin> set reserved_sub" by (auto simp: layout_def layout_of_def)
  then have "set (map fst (base_shapes ms)) \<inter> fst ` set us = {}"
    by (auto simp: base_shapes_def reserved_sub_def)
  moreover have "distinct (map fst (base_shapes ms))" by (simp add: base_shapes_def)
  ultimately show ?thesis unfolding map_fst_shape l(1) using l(2) by simp
qed

lemma layout_shape: "map shape es = map shape fs \<Longrightarrow> layout es = layout fs"
  by (simp add: layout_def layout_of_def)

lemma shape_simps [simp]:
  "shape (upd P m e) = shape e" "shape (apply_action e) = shape e" "shape (mark_action c d e) = shape e"
  "shape (e\<lparr>cnt := k\<rparr>) = shape e"
  by (simp_all add: shape_def apply_action_def mark_action_def Let_def split: sub_action.split)

lemma initial_layout: "layout initial_subs"
  unfolding layout_def by (rule exI [of _ "[]"], rule exI [of _ "[]"])
    (simp add: layout_of_def base_shapes_def initial_subs_def shape_def new_sub_def)

lemma shape_add_cnt [simp]: "map shape (stateList (add_cnt k i s)) = map shape (stateList s)"
  by (cases "i < length (stateList s)") (simp_all add: add_cnt_def map_update list_update_same_conv list_update_beyond)

lemma shape_map [simp]:
  "map shape (map apply_action es) = map shape es" "map shape (map (mark_action c d) es) = map shape es"
  by simp_all

lemma shape_updateState [simp]:
  assumes "distinct (map sub_name (stateList s))"
  shows "map shape (stateList (updateState s)) = map shape (stateList s)"
proof -
  have "distinct (map sub_name (stateList (mark_actions s)))"
    using assms by (simp add: mark_actions_def mark_action_def Let_def comp_def)
  then show ?thesis
    by (auto simp: updateState_def already_current_def reject_unknown_def nothing_pending_def Let_def answer_desired_eq set_desired_action_def perform_change_eq
        split: ssa.split) (simp_all add: mark_actions_def)
qed

text \<open>\<open>updateState\<close> by cases, without the intermediate updates.\<close>

definition idle :: "slave \<Rightarrow> bool" where
  "idle s \<longleftrightarrow> se_action (desiredState s) = SSA_UNDEFINED"

abbreviation desired :: "slave \<Rightarrow> string" where
  "desired s \<equiv> se_state (desiredState s)"

definition settled :: "status \<Rightarrow> slave \<Rightarrow> slave" where
  "settled r s = s\<lparr>trace := trace s @ answer_events r (se_client (desiredState s)),
     desiredState := (desiredState s)\<lparr>se_action := SSA_UNDEFINED, se_client := None\<rparr>\<rparr>"

definition changeable :: "slave \<Rightarrow> bool" where
  "changeable s \<longleftrightarrow> valid_main (desired s) (stateList s) \<or>
     desired s \<in> {''deactivated'', ''Deactivated'', ''Alive''}"

lemma not_idle: "\<not> idle s \<longleftrightarrow> se_action (desiredState s) = SSA_CHANGE_STATE"
  by (cases "se_action (desiredState s)") (auto simp: idle_def)

definition blocked :: "slave \<Rightarrow> bool" where
  "blocked s \<longleftrightarrow> (\<exists>e \<in> set (stateList s). currentState s \<in> set (mainstates e) \<and>
     desired s \<notin> set (mainstates e) \<and> cnt e \<noteq> 0)"

lemma mark_action_simps [simp]:
  "sub_name (mark_action c d e) = sub_name e" "mainstates (mark_action c d e) = mainstates e"
  "cnt (mark_action c d e) = cnt e" "sub_state (mark_action c d e) = sub_state e"
  by (simp_all add: mark_action_def Let_def)

lemma mark_action_act: "sub_act (mark_action c d e) = STATE_ACTION_DEACTIVATE \<longleftrightarrow>
    c \<in> set (mainstates e) \<and> d \<notin> set (mainstates e)"
  "sub_act (mark_action c d e) = STATE_ACTION_ACTIVATE \<longleftrightarrow> c \<notin> set (mainstates e) \<and> d \<in> set (mainstates e)"
  by (auto simp: mark_action_def Let_def)

definition action_for :: "string \<Rightarrow> string \<Rightarrow> string list \<Rightarrow> sub_action" where
  "action_for c d ms = (if c \<in> set ms \<and> d \<notin> set ms then STATE_ACTION_DEACTIVATE
     else if c \<notin> set ms \<and> d \<in> set ms then STATE_ACTION_ACTIVATE else STATE_ACTION_NONE)"

lemma mark_action_for: "sub_act (mark_action c d e) = action_for c d (mainstates e)"
  by (simp add: mark_action_def action_for_def)

lemma mark_actions_simps [simp]:
  "running (mark_actions s) = running s" "stateQueue (mark_actions s) = stateQueue s"
  "desiredState (mark_actions s) = desiredState s" "currentState (mark_actions s) = currentState s"
  "initialState (mark_actions s) = initialState s" "thread_running (mark_actions s) = thread_running s"
  "has_handler (mark_actions s) = has_handler s" "trace (mark_actions s) = trace s"
  "next_cond (mark_actions s) = next_cond s"
  by (simp_all add: mark_actions_def)

lemma locked_mark: "lockedFlag (stateList (mark_actions s)) = blocked s"
  by (auto simp: lockedFlag_def list_ex_iff mark_actions_def blocked_def mark_action_act)

lemma names_mark [simp]: "map sub_name (stateList (mark_actions s)) = map sub_name (stateList s)"
  by (simp add: mark_actions_def)

lemma updateState_cases:
  "updateState s =
    (if idle s then settled SMART_ERROR s
     else if desired s = currentState s then settled SMART_OK s
     else if \<not> changeable s then settled SMART_UNKNOWNSTATE s
     else if blocked s then mark_actions s
     else perform_change (mark_actions s))"
proof (cases "se_action (desiredState s)")
  case SSA_UNDEFINED
  then show ?thesis
    by (cases s; cases "desiredState s")
      (simp add: updateState_def already_current_def reject_unknown_def nothing_pending_def idle_def settled_def answer_desired_eq set_desired_action_def)
next
  case SSA_CHANGE_STATE
  then show ?thesis
    by (auto simp: updateState_def already_current_def reject_unknown_def nothing_pending_def idle_def settled_def answer_desired_eq set_desired_action_def changeable_def
        Let_def locked_mark)
qed

text \<open>The new mode of a substate after a performed change.\<close>

definition switched :: "string \<Rightarrow> string \<Rightarrow> sub_entry \<Rightarrow> sub_entry" where
  "switched c d e = apply_action (mark_action c d e)"

lemma switched_simps [simp]:
  "sub_name (switched c d e) = sub_name e" "mainstates (switched c d e) = mainstates e"
  "cnt (switched c d e) = cnt e" "shape (switched c d e) = shape e"
  by (simp_all add: switched_def apply_action_def shape_def split: sub_action.split)

lemma switched_state: "sub_state (switched c d e) =
   (if c \<in> set (mainstates e) \<and> d \<notin> set (mainstates e) then STATE_DEACTIVATED
    else if c \<notin> set (mainstates e) \<and> d \<in> set (mainstates e) then STATE_ACTIVATED else sub_state e)"
  by (cases "sub_act (mark_action c d e)")
    (auto simp: switched_def apply_action_def mark_action_act mark_action_def Let_def split: if_splits)

lemma perform_eq:
  assumes "distinct (map sub_name (stateList s))"
  shows "perform_change (mark_actions s) = s\<lparr>stateList := map (switched (currentState s) (desired s)) (stateList s),
      currentState := target_state (desired s),
      desiredState := (desiredState s)\<lparr>se_action := SSA_UNDEFINED, se_client := None, se_state := target_state (desired s)\<rparr>,
      trace := trace s @ enforce_events (desired s)
        @ (if has_handler s then change_events (stateList (mark_actions s)) else [])
        @ notify_events (target_state (desired s)) (map (switched (currentState s) (desired s)) (stateList s))
        @ NotifyReq (se_cond (desiredState s)) # answer_events SMART_OK (se_client (desiredState s))\<rparr>"
proof -
  have m: "mark_actions s = s\<lparr>stateList := map (mark_action (currentState s) (desired s)) (stateList s)\<rparr>"
    by (simp add: mark_actions_def)
  have sw: "switched c d = apply_action \<circ> mark_action c d" for c d by (simp add: fun_eq_iff switched_def)
  from perform_change_eq [of "mark_actions s", unfolded names_mark, OF assms] show ?thesis
    by (simp add: m sw)
qed

subsection \<open>The invariant\<close>

text \<open>
  Before activation nothing is queued or pending and the main state is \<open>Init\<close>; the initial state is a
  known one; the shutdown state is final, with the update thread stopped; counters do not go negative
  before it; and a change is pending only while a substate it has to leave is acquired, with the actions
  of all substates set for it.
\<close>

definition quiet :: "slave \<Rightarrow> bool" where
  "quiet s \<longleftrightarrow> currentState s = ''Init'' \<and> stateQueue s = [] \<and> idle s"

definition known_main :: "string \<Rightarrow> slave \<Rightarrow> bool" where
  "known_main m s \<longleftrightarrow> m = ''Neutral'' \<or> (\<exists>ms us. layout_of ms us (stateList s) \<and> m \<in> set ms)"

definition shutdown_ok :: "slave \<Rightarrow> bool" where
  "shutdown_ok s \<longleftrightarrow> (currentState s = ''Shutdown'' \<longrightarrow> idle s \<and> \<not> thread_running s) \<and>
     (\<not> idle s \<and> desired s = ''Shutdown'' \<longrightarrow> \<not> thread_running s) \<and>
     (currentState s \<noteq> ''Shutdown'' \<longrightarrow> (\<forall>e \<in> set (stateList s). 0 \<le> cnt e))"

definition marked :: "slave \<Rightarrow> bool" where
  "marked s \<longleftrightarrow> (\<forall>e \<in> set (stateList s). sub_act e = action_for (currentState s) (desired s) (mainstates e))"

definition pending_ok :: "slave \<Rightarrow> bool" where
  "pending_ok s \<longleftrightarrow> (\<not> idle s \<longrightarrow> marked s \<and> blocked s \<and>
     desired s \<noteq> currentState s \<and> changeable s)"

definition base_inv :: "slave \<Rightarrow> bool" where
  "base_inv s \<longleftrightarrow> layout (stateList s) \<and> (\<not> running s \<longrightarrow> quiet s) \<and> known_main (initialState s) s \<and>
     shutdown_ok s \<and> (\<forall>q \<in> set (stateQueue s). se_action q = SSA_CHANGE_STATE)"

definition slave_inv :: "slave \<Rightarrow> bool" where
  "slave_inv s \<longleftrightarrow> base_inv s \<and> pending_ok s"

lemmas inv_defs = slave_inv_def base_inv_def quiet_def shutdown_ok_def pending_ok_def

lemma known_main_shape: "map shape (stateList s) = map shape (stateList s') \<Longrightarrow> known_main m s = known_main m s'"
  by (simp add: known_main_def layout_of_def)

lemma marked_mark_actions [simp]: "marked (mark_actions s)"
  by (simp add: marked_def) (simp add: mark_actions_def mark_action_for)

lemma mark_actions_pred [simp]:
  "blocked (mark_actions s) = blocked s" "changeable (mark_actions s) = changeable s" "idle (mark_actions s) = idle s"
  by (simp_all add: blocked_def changeable_def idle_def valid_main_def mark_actions_def list_ex_iff)

lemma settled_simps [simp]:
  "stateList (settled r s) = stateList s" "idle (settled r s)" "currentState (settled r s) = currentState s"
  "running (settled r s) = running s" "stateQueue (settled r s) = stateQueue s"
  "initialState (settled r s) = initialState s" "thread_running (settled r s) = thread_running s"
  "desired (settled r s) = desired s" "has_handler (settled r s) = has_handler s" "next_cond (settled r s) = next_cond s"
  by (simp_all add: settled_def idle_def)

lemma mark_actions_cnt [simp]: "(\<forall>e \<in> set (stateList (mark_actions s)). P (cnt e)) = (\<forall>e \<in> set (stateList s). P (cnt e))"
  by (simp add: mark_actions_def)

text \<open>The state change keeps the invariant; it needs no pending change to be well formed before.\<close>

lemma updateState_inv:
  assumes "base_inv s" "currentState s = ''Shutdown'' \<longrightarrow> idle s"
  shows "slave_inv (updateState s)"
proof -
  have d: "distinct (map sub_name (stateList s))" using assms(1) by (simp add: base_inv_def layout_distinct)
  have km: "known_main m (settled r s) = known_main m s" "known_main m (mark_actions s) = known_main m s" for m r
    by (rule known_main_shape, simp add: mark_actions_def)+
  have lay: "layout (stateList (mark_actions s)) = layout (stateList s)"
    by (rule layout_shape) (simp add: mark_actions_def)
  consider "idle s" | "\<not> idle s" "desired s = currentState s" | "\<not> idle s" "desired s \<noteq> currentState s" "\<not> changeable s"
    | "\<not> idle s" "desired s \<noteq> currentState s" "changeable s" "blocked s"
    | "\<not> idle s" "desired s \<noteq> currentState s" "changeable s" "\<not> blocked s" by blast
  then show ?thesis
  proof cases
    case 4
    then show ?thesis
      using assms by (simp add: updateState_cases inv_defs km lay)
  next
    case 5
    then have "perform_change (mark_actions s) = updateState s" by (simp add: updateState_cases)
    moreover have "layout (map (switched c d) (stateList s))" for c d
      using assms(1) layout_shape [of "map (switched c d) (stateList s)" "stateList s"] by (simp add: base_inv_def)
    moreover have "known_main m (perform_change (mark_actions s)) = known_main m s" for m
      by (rule known_main_shape) (simp add: perform_eq [OF d])
    ultimately show ?thesis
      using assms 5 by (auto simp: updateState_cases inv_defs perform_eq [OF d] idle_def target_state_def)
  qed (use assms in \<open>auto simp: updateState_cases inv_defs km\<close>)
qed

subsection \<open>Defining states\<close>

text \<open>The state table as an association list, and what binding a main state to a substate means on it.\<close>

definition insert_end :: "'a \<Rightarrow> 'a list \<Rightarrow> 'a list" where
  "insert_end x xs = (if x \<in> set xs then xs else xs @ [x])"

lemma set_insert_end [simp]: "set (insert_end x xs) = insert x (set xs)"
  by (auto simp: insert_end_def)

lemma distinct_insert_end [simp]: "distinct xs \<Longrightarrow> distinct (insert_end x xs)"
  by (auto simp: insert_end_def)

definition bind_shape :: "string \<Rightarrow> string \<Rightarrow> (string \<times> string list) list \<Rightarrow> (string \<times> string list) list" where
  "bind_shape m n t = (if n \<in> fst ` set t then map (\<lambda>(k, ms). if k = n then (k, insert_end m ms) else (k, ms)) t
     else t @ [(n, [m])])"

lemma find_sub_None: "find_sub n es = None \<longleftrightarrow> n \<notin> sub_name ` set es"
  by (auto simp: find_sub_def)

lemma find_sub_SomeD:
  assumes "find_sub n es = Some i" "distinct (map sub_name es)"
  shows "i < length es" "sub_name (es ! i) = n" "count_subs n es = 1"
    "\<And>f. es[i := f (es ! i)] = map (\<lambda>e. if sub_name e = n then f e else e) es"
proof -
  show i: "i < length es" "sub_name (es ! i) = n"
    using last_idx_SomeD [OF assms(1) [unfolded find_sub_def]] by auto
  have uniq: "j = i" if "j < length es" "sub_name (es ! j) = n" for j
    using distinct_map_unique [OF assms(2) that(1) i(1)] that(2) i(2) by simp
  show "es[i := f (es ! i)] = map (\<lambda>e. if sub_name e = n then f e else e) es" for f
    by (rule update_unique) (use i uniq in blast)+
  have "filter (\<lambda>e. sub_name e = n) es = [es ! i]"
  proof (rule distinct_set_singleton)
    show "distinct (filter (\<lambda>e. sub_name e = n) es)" using assms(2) by (simp add: distinct_map)
    have "e = es ! i" if "e \<in> set es" "sub_name e = n" for e
      using that uniq by (metis in_set_conv_nth)
    with i show "set (filter (\<lambda>e. sub_name e = n) es) = {es ! i}" by auto
  qed
  then show "count_subs n es = 1" by (simp add: count_subs_def)
qed

text \<open>A table whose rows are distinct: names and main states within each substate.\<close>

definition table_ok :: "(string \<times> string list) list \<Rightarrow> bool" where
  "table_ok t \<longleftrightarrow> distinct (map fst t) \<and> (\<forall>(n, ms) \<in> set t. distinct ms)"

lemma distinct_count_list: "distinct xs \<Longrightarrow> count_list xs x = (if x \<in> set xs then 1 else 0)"
  by (induction xs) auto

lemma bind_main_spec:
  assumes "find_sub n es = Some i" "table_ok (map shape es)"
  shows "fst (bind_main m i es) = SMART_OK"
    "snd (bind_main m i es) = map (\<lambda>e. if sub_name e = n then e\<lparr>mainstates := insert_end m (mainstates e)\<rparr> else e) es"
proof -
  have d: "distinct (map sub_name es)" using assms(2) by (simp add: table_ok_def map_fst_shape)
  note i = find_sub_SomeD [OF assms(1) d]
  have dm: "distinct (mainstates (es ! i))"
    using assms(2) i(1) by (auto simp: table_ok_def shape_def)
  then have c: "count_list (mainstates (es ! i)) m = (if m \<in> set (mainstates (es ! i)) then 1 else 0)"
    by (rule distinct_count_list)
  have "snd (bind_main m i es) = es[i := (es ! i)\<lparr>mainstates := insert_end m (mainstates (es ! i))\<rparr>]"
    using i(1) by (auto simp: bind_main_def c insert_end_def list_update_same_conv)
  also have "\<dots> = map (\<lambda>e. if sub_name e = n then e\<lparr>mainstates := insert_end m (mainstates e)\<rparr> else e) es"
    by (rule i(4))
  finally show "snd (bind_main m i es) = map (\<lambda>e. if sub_name e = n then e\<lparr>mainstates := insert_end m (mainstates e)\<rparr> else e) es" .
  show "fst (bind_main m i es) = SMART_OK" by (simp add: bind_main_def c)
qed

lemma shape_bind: "map shape (map (\<lambda>e. if sub_name e = n then e\<lparr>mainstates := insert_end m (mainstates e)\<rparr> else e) es)
   = map (\<lambda>(k, ms). if k = n then (k, insert_end m ms) else (k, ms)) (map shape es)"
  by (simp add: shape_def)

lemma table_ok_bind: "table_ok t \<Longrightarrow> table_ok (bind_shape m n t)"
proof -
  have "map fst (map (\<lambda>(k, ms). if k = n then (k, insert_end m ms) else (k, ms)) t) = map fst t"
    by (auto simp: split_beta)
  then show "table_ok t \<Longrightarrow> table_ok (bind_shape m n t)"
    by (auto simp: table_ok_def bind_shape_def insert_end_def split_beta simp del: map_map)
qed

lemma names_shape: "n \<in> sub_name ` set es \<longleftrightarrow> n \<in> fst ` set (map shape es)"
  by (force simp: shape_def)

lemma define_main_spec:
  assumes "table_ok (map shape es)" "''nonneutral'' \<in> sub_name ` set es"
  shows "fst (define_main m es) = SMART_OK"
    "map shape (snd (define_main m es)) = bind_shape m ''nonneutral'' (map shape es)"
proof -
  obtain i where i: "find_sub ''nonneutral'' es = Some i"
    using assms(2) find_sub_None [of "''nonneutral''" es] by auto
  have d: "distinct (map sub_name es)" using assms(1) by (simp add: table_ok_def map_fst_shape)
  have "define_main m es = bind_main m i es"
    using find_sub_SomeD(3) [OF i d] by (simp add: define_main_def i)
  with bind_main_spec [OF i assms(1), of m] assms(2) show "fst (define_main m es) = SMART_OK"
    "map shape (snd (define_main m es)) = bind_shape m ''nonneutral'' (map shape es)"
    by (simp_all add: shape_bind bind_shape_def names_shape del: map_map)
qed

lemma define_sub_spec:
  assumes "table_ok (map shape es)"
  shows "fst (define_sub m n es) = SMART_OK"
    "map shape (snd (define_sub m n es)) = bind_shape m n (map shape es)"
proof -
  have d: "distinct (map sub_name es)" using assms(1) by (simp add: table_ok_def map_fst_shape)
  have "fst (define_sub m n es) = SMART_OK \<and> map shape (snd (define_sub m n es)) = bind_shape m n (map shape es)"
  proof (cases "find_sub n es")
    case None
    then have "n \<notin> fst ` set (map shape es)" using names_shape find_sub_None by blast
    then have "bind_shape m n (map shape es) = map shape es @ [(n, [m])]" unfolding bind_shape_def by (rule if_not_P)
    with None show ?thesis by (simp add: define_sub_def new_sub_def shape_def)
  next
    case (Some i)
    then have "n \<in> fst ` set (map shape es)"
      using names_shape find_sub_None by (metis option.distinct(1))
    then have b: "bind_shape m n (map shape es) = map (\<lambda>(k, ms). if k = n then (k, insert_end m ms) else (k, ms)) (map shape es)"
      unfolding bind_shape_def by (rule if_P)
    have "define_sub m n es = bind_main m i es"
      using find_sub_SomeD(3) [OF Some d] by (simp add: define_sub_def Some)
    with bind_main_spec [OF Some assms, of m] show ?thesis by (simp add: shape_bind b del: map_map)
  qed
  then show "fst (define_sub m n es) = SMART_OK"
    "map shape (snd (define_sub m n es)) = bind_shape m n (map shape es)" by auto
qed

lemma layout_of_table: "layout_of ms us es \<Longrightarrow> table_ok (map shape es)"
proof -
  assume l: "layout_of ms us es"
  then have "distinct (map fst (map shape es))"
    using layout_distinct [of es] by (auto simp: layout_def map_fst_shape)
  with l show ?thesis by (auto simp: table_ok_def layout_of_def base_shapes_def)
qed

lemma base_names: "fst ` set (base_shapes ms) \<subseteq> set reserved_sub"
  by (auto simp: base_shapes_def reserved_sub_def)

lemma layout_define:
  assumes l: "layout_of ms us es" and m: "m \<notin> set reserved_main" and n: "n \<notin> set reserved_sub"
  shows "\<exists>us'. map fst us' = map fst us @ (if n \<in> fst ` set us then [] else [n]) \<and>
    (\<forall>es'. map shape es' = bind_shape m n (bind_shape m ''nonneutral'' (map shape es)) \<longrightarrow>
      layout_of (insert_end m ms) us' es')"
proof -
  let ?f = "\<lambda>(k, ns). if k = n then (k, insert_end m ns) else (k, ns)"
  define us' where "us' = (if n \<in> fst ` set us then map ?f us else us @ [(n, [m])])"
  have nn: "''nonneutral'' \<notin> fst ` set us"
    using l by (auto simp: layout_of_def reserved_sub_def)
  then have "map (\<lambda>(k, ns). if k = ''nonneutral'' then (k, insert_end m ns) else (k, ns)) us = us"
    by (intro map_idI) force
  then have b1: "bind_shape m ''nonneutral'' (map shape es) = base_shapes (insert_end m ms) @ us"
    using l by (simp add: layout_of_def bind_shape_def base_shapes_def)
  have nb: "n \<notin> fst ` set (base_shapes ms')" for ms' using n base_names by blast
  then have "map ?f (base_shapes ms') = base_shapes ms'" for ms'
    using nb [of ms'] by (intro map_idI) force
  then have b2: "bind_shape m n (base_shapes ms' @ us) = base_shapes ms' @ us'" for ms'
    using nb [of ms'] by (auto simp: bind_shape_def us'_def)
  have fu: "map fst us' = map fst us @ (if n \<in> fst ` set us then [] else [n])"
    by (auto simp: us'_def split_beta)
  moreover have "layout_of (insert_end m ms) us' es'"
    if "map shape es' = bind_shape m n (bind_shape m ''nonneutral'' (map shape es))" for es'
  proof -
    have "\<forall>u \<in> set us'. fst u \<notin> set reserved_sub \<and> distinct (snd u) \<and> set (snd u) \<subseteq> set (insert_end m ms)"
    proof
      fix u assume u: "u \<in> set us'"
      have us: "fst v \<notin> set reserved_sub \<and> distinct (snd v) \<and> set (snd v) \<subseteq> set ms" if "v \<in> set us" for v
        using l that by (simp add: layout_of_def)
      from u consider "u \<in> set us" | v where "v \<in> set us" "u = (n, insert_end m (snd v))" | "u = (n, [m])"
        by (auto simp: us'_def split: if_splits)
      then show "fst u \<notin> set reserved_sub \<and> distinct (snd u) \<and> set (snd u) \<subseteq> set (insert_end m ms)"
        by cases (use us n in \<open>auto; blast\<close>)+
    qed
    moreover have "distinct (map fst us')" using l by (auto simp: fu layout_of_def)
    moreover have "distinct (insert_end m ms)" "set (insert_end m ms) \<inter> set reserved_main = {}"
      using l m by (auto simp: layout_of_def insert_end_def)
    ultimately show ?thesis using that by (simp add: layout_of_def b1 b2)
  qed
  ultimately show ?thesis by blast
qed

lemma defineStates_shape:
  assumes "layout (stateList s)" "\<not> running s" "m \<notin> set reserved_main" "n \<notin> set reserved_sub"
  shows "fst (defineStates m n s) = SMART_OK"
    "map shape (stateList (snd (defineStates m n s))) = bind_shape m n (bind_shape m ''nonneutral'' (map shape (stateList s)))"
proof -
  obtain ms us where l: "layout_of ms us (stateList s)" using assms(1) by (auto simp: layout_def)
  note t = layout_of_table [OF l]
  have "''nonneutral'' \<in> fst ` set (map shape (stateList s))"
    using l by (auto simp: layout_of_def base_shapes_def)
  then have nn: "''nonneutral'' \<in> sub_name ` set (stateList s)" using names_shape by blast
  note d1 = define_main_spec [OF t nn, of m]
  have "table_ok (map shape (snd (define_main m (stateList s))))" by (simp only: d1(2) table_ok_bind t)
  note d2 = define_sub_spec [OF this, of m n]
  show "fst (defineStates m n s) = SMART_OK"
    "map shape (stateList (snd (defineStates m n s))) = bind_shape m n (bind_shape m ''nonneutral'' (map shape (stateList s)))"
    using d1 d2 assms(2-4) by (simp_all add: defineStates_def split_beta)
qed

text \<open>What \<open>defineStates\<close> leaves alone, and the substates it creates.\<close>

lemma defineStates_frame:
  "running (snd (defineStates m n s)) = running s \<and> currentState (snd (defineStates m n s)) = currentState s \<and>
   desiredState (snd (defineStates m n s)) = desiredState s \<and> stateQueue (snd (defineStates m n s)) = stateQueue s \<and>
   initialState (snd (defineStates m n s)) = initialState s \<and>
   thread_running (snd (defineStates m n s)) = thread_running s \<and> trace (snd (defineStates m n s)) = trace s"
  by (auto simp: defineStates_def split_beta)

lemma bind_main_keeps: "P (cnt e) (sub_state e) \<Longrightarrow> P (cnt (e\<lparr>mainstates := ms\<rparr>)) (sub_state (e\<lparr>mainstates := ms\<rparr>))"
  by simp

definition counters :: "sub_entry list \<Rightarrow> (int \<times> sub_mode) list" where
  "counters es = map (\<lambda>e. (cnt e, sub_state e)) es"

lemma counters_bind_main: "counters (snd (bind_main m i es)) = counters es"
  by (cases "i < length es")
    (auto simp: bind_main_def counters_def Let_def map_update list_update_same_conv list_update_beyond)

lemma counters_define:
  "counters (snd (define_main m es)) = counters es"
  "counters (snd (define_sub m n es)) \<in> {counters es, counters es @ [(0, STATE_DEACTIVATED)]}"
  by (auto simp: define_main_def define_sub_def counters_bind_main counters_def new_sub_def split: option.splits)
    (simp_all add: counters_def [symmetric] counters_bind_main)

lemma counters_defineStates:
  "counters (stateList (snd (defineStates m n s))) \<in> {counters (stateList s), counters (stateList s) @ [(0, STATE_DEACTIVATED)]}"
  using counters_define(2) [of m n "snd (define_main m (stateList s))"]
  by (auto simp: defineStates_def split_beta counters_define(1))

lemma cnt_counters: "(\<forall>e \<in> set es. P (cnt e)) = (\<forall>c \<in> set (counters es). P (fst c))"
  by (simp add: counters_def)

lemma defineStates_inv:
  assumes "slave_inv s"
  shows "slave_inv (snd (defineStates m n s))"
proof (cases "running s \<or> m \<in> set reserved_main \<or> n \<in> set reserved_sub")
  case True
  then show ?thesis using assms by (auto simp: defineStates_def)
next
  case False
  obtain ms us where l: "layout_of ms us (stateList s)" using assms by (auto simp: inv_defs layout_def)
  let ?s = "snd (defineStates m n s)"
  have "layout (stateList s)" using l by (auto simp: layout_def)
  note sh = defineStates_shape(2) [OF this, of m n] 
  with layout_define [OF l, of m n] False obtain us' where l': "layout_of (insert_end m ms) us' (stateList ?s)"
    by auto
  have "ms' = ms" if "layout_of ms' vs (stateList s)" for ms' vs
    using l that by (auto simp: layout_of_def base_shapes_def)
  then have "known_main (initialState s) ?s"
    using assms l' by (auto simp: inv_defs known_main_def)
  moreover have "\<forall>e \<in> set (stateList ?s). 0 \<le> cnt e"
    using assms False counters_defineStates [of m n s] unfolding cnt_counters
    by (auto simp: inv_defs cnt_counters)
  moreover have "idle ?s" "layout (stateList ?s)"
    using assms False l' defineStates_frame [of m n s] by (auto simp: inv_defs idle_def layout_def)
  ultimately show ?thesis
    using assms False defineStates_frame [of m n s] by (auto simp: inv_defs)
qed

lemma layout_nonneutral:
  assumes "layout_of ms us es" "e \<in> set es" "sub_name e = ''nonneutral''"
  shows "mainstates e = ms"
proof -
  have eq: "map shape es = base_shapes ms @ us" using assms(1) by (simp add: layout_of_def)
  have "shape e \<in> set (map shape es)" using assms(2) by simp
  then have "shape e \<in> set (base_shapes ms @ us)" by (simp only: eq)
  moreover have "shape e \<notin> set us"
  proof
    assume "shape e \<in> set us"
    then have "''nonneutral'' \<notin> set reserved_sub"
      using assms(1,3) by (fastforce simp: layout_of_def shape_def)
    then show False by (simp add: reserved_sub_def)
  qed
  ultimately show ?thesis using assms(3) by (auto simp: base_shapes_def shape_def)
qed

lemma initialState_inv:
  assumes "slave_inv s" "known_main m s"
  shows "slave_inv (s\<lparr>initialState := m\<rparr>)"
proof -
  have "known_main m (s\<lparr>initialState := m\<rparr>) = known_main m s" by (simp add: known_main_def)
  moreover have "idle (s\<lparr>initialState := m\<rparr>) = idle s" "blocked (s\<lparr>initialState := m\<rparr>) = blocked s"
    "changeable (s\<lparr>initialState := m\<rparr>) = changeable s"
    "marked (s\<lparr>initialState := m\<rparr>) = marked s"
    by (simp_all add: idle_def blocked_def changeable_def marked_def)
  ultimately show ?thesis using assms by (simp add: inv_defs)
qed

lemma setUpInitialState_inv: "slave_inv s \<Longrightarrow> slave_inv (snd (setUpInitialState m s))"
proof -
  assume s: "slave_inv s"
  then obtain ms us where l: "layout_of ms us (stateList s)" by (auto simp: inv_defs layout_def)
  have d: "distinct (map sub_name (stateList s))" using s by (simp add: inv_defs layout_distinct)
  have "m \<in> set ms" if "find_sub ''nonneutral'' (stateList s) = Some i" "m \<in> set (mainstates (stateList s ! i))" for i
  proof -
    have "mainstates (stateList s ! i) = ms"
      by (rule layout_nonneutral [OF l]) (use find_sub_SomeD [OF that(1) d] in auto)
    with that(2) show ?thesis by simp
  qed
  then have "snd (setUpInitialState m s) = s \<or> known_main m s \<and> snd (setUpInitialState m s) = s\<lparr>initialState := m\<rparr>"
    using l by (auto simp: setUpInitialState_def known_main_def split: option.splits)
  with s show ?thesis by (auto intro: initialState_inv)
qed

lemma inv_queue [wf_intros]:
  assumes "slave_inv s" "running s \<or> q = []" "\<forall>x \<in> set q. se_action x = SSA_CHANGE_STATE"
  shows "slave_inv (s\<lparr>next_cond := c, stateQueue := q, trace := t\<rparr>)"
proof -
  let ?s = "s\<lparr>next_cond := c, stateQueue := q, trace := t\<rparr>"
  have "known_main m ?s = known_main m s" for m by (simp add: known_main_def)
  moreover have "idle ?s = idle s" "blocked ?s = blocked s" "changeable ?s = changeable s"
    "marked ?s = marked s"
    by (simp_all add: idle_def blocked_def changeable_def marked_def)
  ultimately show ?thesis using assms by (auto simp: inv_defs)
qed

lemma inv_trace [wf_intros]: "slave_inv s \<Longrightarrow> slave_inv (s\<lparr>next_cond := c, trace := t\<rparr>)"
  using inv_queue [where q = "stateQueue s" and c = c and t = t and s = s] by (auto simp: inv_defs)

lemma inv_emit [wf_intros]: "slave_inv s \<Longrightarrow> slave_inv (emit es s)"
  using inv_trace [where s = s and c = "next_cond s" and t = "trace s @ es"] by (simp add: emit_def)

lemma inv_push [wf_intros]:
  "slave_inv s \<Longrightarrow> running s \<Longrightarrow> \<forall>x \<in> set q. se_action x = SSA_CHANGE_STATE \<Longrightarrow> slave_inv (s\<lparr>stateQueue := q\<rparr>)"
  using inv_queue [where s = s and q = q and c = "next_cond s" and t = "trace s"] by simp

lemma inv_queueD: "slave_inv s \<Longrightarrow> x \<in> set (stateQueue s) \<Longrightarrow> se_action x = SSA_CHANGE_STATE"
  by (simp add: inv_defs)

lemma cnt_update_nth: "cnt ((es[i := (es ! i)\<lparr>cnt := k\<rparr>]) ! j) = (if i = j \<and> i < length es then k else cnt (es ! j))"
  by (cases "i < length es") (auto simp: nth_list_update list_update_beyond)

lemma add_cnt_frame [simp]:
  "running (add_cnt k i s) = running s" "currentState (add_cnt k i s) = currentState s"
  "desiredState (add_cnt k i s) = desiredState s" "stateQueue (add_cnt k i s) = stateQueue s"
  "initialState (add_cnt k i s) = initialState s" "thread_running (add_cnt k i s) = thread_running s"
  "trace (add_cnt k i s) = trace s" "has_handler (add_cnt k i s) = has_handler s"
  "length (stateList (add_cnt k i s)) = length (stateList s)" "idle (add_cnt k i s) = idle s"
  by (simp_all add: add_cnt_def idle_def)

lemma add_cnt_nth:
  "stateList (add_cnt k i s) ! j = (if i = j \<and> i < length (stateList s)
     then (stateList s ! j)\<lparr>cnt := cnt (stateList s ! j) + k\<rparr> else stateList s ! j)"
  by (cases "i < length (stateList s)") (auto simp: add_cnt_def nth_list_update list_update_beyond)

lemma add_cnt_mains [simp]:
  "mainstates (stateList (add_cnt k i s) ! j) = mainstates (stateList s ! j)"
  "sub_name (stateList (add_cnt k i s) ! j) = sub_name (stateList s ! j)"
  "sub_state (stateList (add_cnt k i s) ! j) = sub_state (stateList s ! j)"
  "sub_act (stateList (add_cnt k i s) ! j) = sub_act (stateList s ! j)"
  by (simp_all add: add_cnt_nth)

lemma blocked_nth: "blocked s \<longleftrightarrow> (\<exists>j < length (stateList s). currentState s \<in> set (mainstates (stateList s ! j)) \<and>
    desired s \<notin> set (mainstates (stateList s ! j)) \<and> cnt (stateList s ! j) \<noteq> 0)"
  unfolding blocked_def by (metis in_set_conv_nth)

lemma all_nth: "(\<forall>e \<in> set es. P e) \<longleftrightarrow> (\<forall>j < length es. P (es ! j))"
  by (metis in_set_conv_nth)

lemma marked_add_cnt: "marked (add_cnt k i s) = marked s"
  by (simp add: marked_def all_nth)

lemma inv_add_cnt [wf_intros]:
  assumes "slave_inv s" "0 \<le> k \<or> currentState s = ''Shutdown''"
  shows "slave_inv (add_cnt k i s)"
proof -
  have km: "known_main m (add_cnt k i s) = known_main m s" for m by (rule known_main_shape) simp
  have lay: "layout (stateList (add_cnt k i s)) = layout (stateList s)" by (rule layout_shape) simp
  have ch: "changeable (add_cnt k i s) = changeable s"
    by (simp add: changeable_def valid_main_def list_ex_length)
  have bl: "blocked (add_cnt k i s)" if "blocked s" "currentState s \<noteq> ''Shutdown''"
  proof -
    have "\<forall>j < length (stateList s). 0 \<le> cnt (stateList s ! j)"
      using assms(1) that(2) by (simp add: inv_defs all_nth)
    with that assms(2) show ?thesis by (fastforce simp: blocked_nth add_cnt_nth)
  qed
  have cn: "\<forall>e \<in> set (stateList (add_cnt k i s)). 0 \<le> cnt e" if "currentState s \<noteq> ''Shutdown''"
    using assms that by (auto simp: inv_defs all_nth add_cnt_nth)
  show ?thesis
    using assms(1) bl cn
    by (auto simp: slave_inv_def base_inv_def quiet_def shutdown_ok_def pending_ok_def km lay ch marked_add_cnt)
qed

lemma hndSetMainState_inv [wf_intros]: "slave_inv s \<Longrightarrow> slave_inv (hndSetMainState q m s)"
proof -
  assume s: "slave_inv s"
  have "slave_inv (s\<lparr>next_cond := c\<rparr>)" for c
    using inv_trace [where s = s and c = c and t = "trace s", OF s] by simp
  then have e: "slave_inv (emit es (s\<lparr>next_cond := c\<rparr>))" for es c by (rule inv_emit)
  have q: "slave_inv (s\<lparr>next_cond := c, stateQueue := x\<rparr>)"
    if "running s" "\<forall>y \<in> set x. se_action y = SSA_CHANGE_STATE" for x c
    using inv_queue [where s = s and c = c and q = x and t = "trace s"] s that by simp
  show ?thesis
    by (auto simp: hndSetMainState_def new_entry_def Let_def intro!: e q dest: inv_queueD [OF s])
qed

lemma handleQuery_inv: "slave_inv s \<Longrightarrow> slave_inv (handleQuery q c m s)"
  by (auto simp: handleQuery_def split_beta intro: wf_intros)

lemma updateState_thread [simp]:
  "thread_running (updateState s) = thread_running s" "running (updateState s) = running s"
  "stateQueue (updateState s) = stateQueue s" "initialState (updateState s) = initialState s"
  "next_cond (updateState s) = next_cond s"
  by (simp_all add: updateState_cases perform_change_def finish_change_def notify_subs_def enter_others_def
      enter_nonneutral_def quit_nonneutral_def quit_others_def enforce_eq answer_desired_eq set_desired_action_def
      slave_simps split: option.split)

lemma updateState_current: "distinct (map sub_name (stateList s)) \<Longrightarrow>
   currentState (updateState s) = currentState s \<or> currentState (updateState s) = target_state (desired s) \<and> idle (updateState s)"
  by (auto simp: updateState_cases perform_eq idle_def)

lemma updateState_desired: "distinct (map sub_name (stateList s)) \<Longrightarrow> \<not> idle (updateState s) \<Longrightarrow> desired (updateState s) = desired s"
  by (auto simp: updateState_cases perform_eq idle_def split: if_splits)

lemma thread_off_pred:
  "idle (s\<lparr>thread_running := b\<rparr>) = idle s" "changeable (s\<lparr>thread_running := b\<rparr>) = changeable s"
  "blocked (s\<lparr>thread_running := b\<rparr>) = blocked s"
  "settled r (s\<lparr>thread_running := b\<rparr>) = (settled r s)\<lparr>thread_running := b\<rparr>"
  "mark_actions (s\<lparr>thread_running := b\<rparr>) = (mark_actions s)\<lparr>thread_running := b\<rparr>"
  by (simp_all add: idle_def changeable_def blocked_def settled_def mark_actions_def)

lemma updateState_thread_off:
  assumes "distinct (map sub_name (stateList s))"
  shows "updateState (s\<lparr>thread_running := b\<rparr>) = (updateState s)\<lparr>thread_running := b\<rparr>"
proof -
  have "perform_change (mark_actions (s\<lparr>thread_running := b\<rparr>)) = (perform_change (mark_actions s))\<lparr>thread_running := b\<rparr>"
    using assms by (subst perform_eq, simp, subst perform_eq, simp) (simp add: thread_off_pred)
  then show ?thesis by (simp add: updateState_cases thread_off_pred)
qed

text \<open>The update thread runs \<open>updateState\<close> on the state with the next request taken from the queue.\<close>

definition dequeued :: "slave \<Rightarrow> slave" where
  "dequeued s = (let q = hd (stateQueue s) in
     s\<lparr>desiredState := q, stateQueue := tl (stateQueue s),
       trace := trace s @ (if se_state q \<in> {''Deactivated'', ''Shutdown'', ''FatalError'', ''deactivated''}
         then [Blocking False] else []),
       thread_running := thread_running s \<and> se_state q \<noteq> ''Shutdown''\<rparr>)"

lemma dequeued_simps [simp]:
  "desiredState (dequeued s) = hd (stateQueue s)" "stateQueue (dequeued s) = tl (stateQueue s)"
  "stateList (dequeued s) = stateList s" "currentState (dequeued s) = currentState s"
  "has_handler (dequeued s) = has_handler s" "running (dequeued s) = running s"
  "initialState (dequeued s) = initialState s" "next_cond (dequeued s) = next_cond s"
  "thread_running (dequeued s) \<longleftrightarrow> thread_running s \<and> se_state (hd (stateQueue s)) \<noteq> ''Shutdown''"
  by (simp_all add: dequeued_def Let_def)

lemma on_execute_dequeued:
  assumes "distinct (map sub_name (stateList s))" "thread_running s" "stateQueue s \<noteq> []"
  shows "snd (on_execute s) = updateState (dequeued s)"
proof -
  obtain q qs where q: "stateQueue s = q # qs" using assms(3) by (cases "stateQueue s") auto
  define s2 where "s2 = (let s1 = s\<lparr>desiredState := q, stateQueue := qs\<rparr> in
    if se_state q \<in> {''Deactivated'', ''Shutdown'', ''FatalError'', ''deactivated''} then emit [Blocking False] s1 else s1)"
  have r: "snd (on_execute s) = (if se_state q = ''Shutdown'' then (updateState s2)\<lparr>thread_running := False\<rparr> else updateState s2)"
    using assms q by (simp add: on_execute_def updateStateFromThread_def s2_def Let_def)
  have d: "distinct (map sub_name (stateList s2))"
    using assms(1) by (simp add: s2_def Let_def slave_simps)
  have "dequeued s = (if se_state q = ''Shutdown'' then s2\<lparr>thread_running := False\<rparr> else s2)"
    using q assms(2) by (cases s) (auto simp: dequeued_def s2_def Let_def emit_def)
  then show ?thesis by (simp add: r updateState_thread_off [OF d])
qed

lemma dequeued_base_inv:
  assumes "slave_inv s" "thread_running s" "stateQueue s \<noteq> []"
  shows "base_inv (dequeued s)" "currentState s \<noteq> ''Shutdown''"
proof -
  show ns: "currentState s \<noteq> ''Shutdown''" using assms by (auto simp: inv_defs)
  have "running s" using assms(1,3) by (auto simp: inv_defs)
  moreover have "known_main m (dequeued s) = known_main m s" for m by (rule known_main_shape) simp
  moreover have "\<forall>q \<in> set (tl (stateQueue s)). se_action q = SSA_CHANGE_STATE"
    using assms(1,3) by (auto simp: inv_defs dest: list.set_sel(2))
  ultimately show "base_inv (dequeued s)"
    using assms ns by (auto simp: inv_defs idle_def)
qed

lemma on_execute_stays: "\<not> (thread_running s \<and> stateQueue s \<noteq> []) \<Longrightarrow> snd (on_execute s) = s"
  by (auto simp: on_execute_def updateStateFromThread_def)

lemma on_execute_inv: "slave_inv s \<Longrightarrow> slave_inv (snd (on_execute s))"
proof -
  assume s: "slave_inv s"
  then have d: "distinct (map sub_name (stateList s))" by (simp add: inv_defs layout_distinct)
  show ?thesis
  proof (cases "thread_running s \<and> stateQueue s \<noteq> []")
    case True
    then show ?thesis
      using dequeued_base_inv [OF s] on_execute_dequeued [OF d] by (simp add: updateState_inv)
  qed (use s on_execute_stays in simp)
qed

lemma wait_change_inv:
  assumes "slave_inv s" "running s"
  shows "slave_inv (snd (wait_change m s))"
proof -
  let ?q = "\<lparr>se_action = SSA_CHANGE_STATE, se_state = m, se_client = None, se_cond = next_cond s\<rparr> # stateQueue s"
  have "slave_inv (s\<lparr>next_cond := next_cond s + 1, stateQueue := ?q, trace := trace s\<rparr>)"
    by (rule inv_queue) (use assms in \<open>auto dest: inv_queueD\<close>)
  then show ?thesis by (simp add: wait_change_def push_front_def new_entry_def)
qed

lemma setWaitState_inv: "slave_inv s \<Longrightarrow> slave_inv (snd (setWaitState m s))"
  by (auto simp: setWaitState_def intro: wait_change_inv)

lemma acquire_inv: "slave_inv s \<Longrightarrow> slave_inv (snd (acquire n s))"
  by (auto simp: acquire_def acquire_changed_def acquire_activated_def Let_def split: option.splits intro: wf_intros)

lemma tryAcquire_inv: "slave_inv s \<Longrightarrow> slave_inv (snd (tryAcquire n s))"
  by (auto simp: tryAcquire_def Let_def split: option.splits intro: wf_intros)

lemma resume_inv: "slave_inv s \<Longrightarrow> running s \<Longrightarrow> slave_inv (snd (resume p s))"
  by (cases p) (auto simp: acquire_changed_def acquire_activated_def setWaitState_resume_def
      intro!: wf_intros dest: inv_queueD)

lemma release_inv: "slave_inv s \<Longrightarrow> slave_inv (snd (release n s))"
proof -
  assume s: "slave_inv s"
  then have d: "distinct (map sub_name (stateList s))" by (simp add: inv_defs layout_distinct)
  have "base_inv (snd (release_cnt n s)) \<and> currentState (snd (release_cnt n s)) = currentState s \<and>
      desiredState (snd (release_cnt n s)) = desiredState s"
  proof (cases "find_sub n (stateList s)")
    case (Some i)
    have "base_inv (add_cnt (-1) i s)" if "0 < cnt (stateList s ! i)"
    proof -
      have "known_main m (add_cnt (-1) i s) = known_main m s" for m by (rule known_main_shape) simp
      moreover have "layout (stateList (add_cnt (-1) i s)) = layout (stateList s)" by (rule layout_shape) simp
      ultimately show ?thesis using s that by (auto simp: inv_defs all_nth add_cnt_nth)
    qed
    with s Some show ?thesis by (auto simp: release_cnt_def slave_inv_def)
  qed (use s in \<open>auto simp: release_cnt_def slave_inv_def\<close>)
  moreover have "currentState s = ''Shutdown'' \<longrightarrow> idle s" using s by (simp add: inv_defs)
  ultimately have "slave_inv (updateState (snd (release_cnt n s)))"
    by (intro updateState_inv) (auto simp: idle_def)
  moreover have "fst (release_cnt n s) \<noteq> SMART_OK \<Longrightarrow> snd (release_cnt n s) = s"
    by (auto simp: release_cnt_def split: option.splits if_splits)
  ultimately show ?thesis using s by (auto simp: release_def split_beta)
qed

lemma activate_inv: "slave_inv s \<Longrightarrow> slave_inv (snd (activate s))"
proof -
  assume s: "slave_inv s"
  let ?s = "s\<lparr>running := True\<rparr>"
  have "known_main m ?s = known_main m s" for m by (simp add: known_main_def)
  moreover have "idle ?s = idle s" "blocked ?s = blocked s" "changeable ?s = changeable s" "marked ?s = marked s"
    by (simp_all add: idle_def blocked_def changeable_def marked_def)
  ultimately show ?thesis using s by (simp add: inv_defs activate_def)
qed

lemma exec_inv: "slave_inv s \<Longrightarrow> enabled op s \<Longrightarrow> slave_inv (exec op s)"
  by (cases op) (simp_all add: defineStates_inv setUpInitialState_inv activate_inv handleQuery_inv on_execute_inv
      setWaitState_inv acquire_inv tryAcquire_inv release_inv resume_inv)

lemma new_slave_inv: "slave_inv (new_slave h)"
proof -
  have "\<forall>e \<in> set initial_subs. 0 \<le> cnt e" by (simp add: initial_subs_def new_sub_def)
  then show ?thesis using initial_layout by (auto simp: inv_defs new_slave_def idle_def known_main_def)
qed

theorem reachable_inv: "reachable D s \<Longrightarrow> slave_inv s"
  by (induction rule: reachable.induct) (auto simp: new_slave_inv exec_inv)

subsection \<open>Active substates\<close>

text \<open>The active substates are those of the current main state.\<close>

definition consistent :: "string \<Rightarrow> sub_entry list \<Rightarrow> bool" where
  "consistent c es \<longleftrightarrow> (\<forall>e \<in> set es. sub_state e = STATE_ACTIVATED \<longleftrightarrow> c \<in> set (mainstates e))"

definition deactivation :: "string \<Rightarrow> bool" where
  "deactivation m \<longleftrightarrow> m = ''Deactivated'' \<or> m = ''deactivated''"

definition clean :: "slave \<Rightarrow> bool" where
  "clean s \<longleftrightarrow> (\<not> idle s \<longrightarrow> \<not> deactivation (desired s)) \<and> (\<forall>q \<in> set (stateQueue s). \<not> deactivation (se_state q))"

definition cons_inv :: "slave \<Rightarrow> bool" where
  "cons_inv s \<longleftrightarrow> slave_inv s \<and> consistent (currentState s) (stateList s) \<and> clean s"

lemma sub_mode_cases: "sub_state e \<noteq> STATE_ACTIVATED \<longleftrightarrow> sub_state e = STATE_DEACTIVATED"
  by (cases "sub_state e") auto

lemma consistent_switched: "consistent c es \<Longrightarrow> consistent d (map (switched c d) es)"
  by (auto simp: consistent_def switched_state)

lemma consistent_nth: "consistent c es \<longleftrightarrow> (\<forall>j < length es. sub_state (es ! j) = STATE_ACTIVATED \<longleftrightarrow> c \<in> set (mainstates (es ! j)))"
  by (simp add: consistent_def all_nth)

lemma consistent_add_cnt [simp]: "consistent c (stateList (add_cnt k i s)) = consistent c (stateList s)"
  by (simp add: consistent_nth)

lemma consistent_mark [simp]: "consistent c (stateList (mark_actions s)) = consistent c (stateList s)"
  by (simp add: consistent_def mark_actions_def)

lemma updateState_consistent:
  assumes "distinct (map sub_name (stateList s))" "consistent (currentState s) (stateList s)"
    and "\<not> idle s \<Longrightarrow> \<not> deactivation (desired s)"
  shows "consistent (currentState (updateState s)) (stateList (updateState s))"
  using assms consistent_switched [OF assms(2)]
  by (auto simp: updateState_cases perform_eq target_state_def deactivation_def)

lemma updateState_clean:
  assumes "distinct (map sub_name (stateList s))" "clean s"
  shows "clean (updateState s)"
proof -
  have "idle s \<Longrightarrow> idle (updateState s)" by (simp add: updateState_cases)
  then show ?thesis using updateState_desired [OF assms(1)] assms(2) by (auto simp: clean_def)
qed

lemma defineStates_list:
  assumes "layout (stateList s)" "\<not> running s" "m \<notin> set reserved_main" "n \<notin> set reserved_sub"
  shows "\<forall>e \<in> set (stateList (snd (defineStates m n s))).
    (\<exists>e' \<in> set (stateList s). sub_state e = sub_state e' \<and> set (mainstates e) - {m} = set (mainstates e') - {m}) \<or>
    sub_state e = STATE_DEACTIVATED \<and> mainstates e = [m]"
proof -
  obtain ms us where l: "layout_of ms us (stateList s)" using assms(1) by (auto simp: layout_def)
  note t = layout_of_table [OF l]
  let ?es = "snd (define_main m (stateList s))"
  have d: "distinct (map sub_name (stateList s))" using assms(1) by (rule layout_distinct)
  have nn: "''nonneutral'' \<in> sub_name ` set (stateList s)"
    using l names_shape [of "''nonneutral''" "stateList s"] by (auto simp: layout_of_def base_shapes_def)
  then obtain i where i: "find_sub ''nonneutral'' (stateList s) = Some i"
    using find_sub_None [of "''nonneutral''"] by auto
  have e1: "\<forall>e \<in> set ?es. \<exists>e' \<in> set (stateList s). sub_state e = sub_state e' \<and> set (mainstates e) - {m} = set (mainstates e') - {m}"
    using bind_main_spec(2) [OF i t, of m] find_sub_SomeD(3) [OF i d] by (auto simp: define_main_def i)
  have t': "table_ok (map shape ?es)" by (simp only: define_main_spec(2) [OF t nn] table_ok_bind t)
  then have d': "distinct (map sub_name ?es)" by (simp add: table_ok_def map_fst_shape)
  have e2: "\<forall>e \<in> set (snd (define_sub m n ?es)). (\<exists>e' \<in> set ?es. sub_state e = sub_state e' \<and>
      set (mainstates e) - {m} = set (mainstates e') - {m}) \<or> sub_state e = STATE_DEACTIVATED \<and> mainstates e = [m]"
  proof (cases "find_sub n ?es")
    case None
    then show ?thesis by (auto simp: define_sub_def new_sub_def)
  next
    case (Some j)
    show ?thesis
      using bind_main_spec(2) [OF Some t', of m] find_sub_SomeD(3) [OF Some d'] by (auto simp: define_sub_def Some)
  qed
  have "stateList (snd (defineStates m n s)) = snd (define_sub m n ?es)"
    using define_main_spec(1) [OF t nn, of m] assms(2-4) by (simp add: defineStates_def split_beta)
  then show ?thesis using e1 e2 by (metis (no_types, lifting))
qed

lemma defineStates_consistent:
  assumes "slave_inv s" "consistent (currentState s) (stateList s)"
  shows "consistent (currentState s) (stateList (snd (defineStates m n s)))"
proof (cases "running s \<or> m \<in> set reserved_main \<or> n \<in> set reserved_sub")
  case True
  then show ?thesis using assms(2) by (auto simp: defineStates_def)
next
  case False
  then have c: "currentState s = ''Init''" using assms(1) by (auto simp: inv_defs)
  have m: "m \<noteq> ''Init''" using False by (auto simp: reserved_main_def)
  have eq: "''Init'' \<in> set a \<longleftrightarrow> ''Init'' \<in> set b" if "set a - {m} = set b - {m}" for a b :: "string list"
    using that m by blast
  show ?thesis
    unfolding consistent_def
  proof
    fix e assume "e \<in> set (stateList (snd (defineStates m n s)))"
    moreover have "layout (stateList s)" using assms(1) by (simp add: inv_defs)
    ultimately consider e' where "e' \<in> set (stateList s)" "sub_state e = sub_state e'" "set (mainstates e) - {m} = set (mainstates e') - {m}"
      | "sub_state e = STATE_DEACTIVATED" "mainstates e = [m]"
      using defineStates_list [of s m n] False by blast
    then show "sub_state e = STATE_ACTIVATED \<longleftrightarrow> currentState s \<in> set (mainstates e)"
    proof cases
      case 1
      from eq [OF 1(3)] 1(1,2) assms(2) c show ?thesis by (simp add: consistent_def)
    qed (use c m in simp)
  qed
qed

lemma known_main_clean: "known_main m s \<Longrightarrow> \<not> deactivation m"
  by (auto simp: known_main_def layout_of_def deactivation_def reserved_main_def)

lemma handleQuery_frame [simp]:
  "stateList (handleQuery q c m s) = stateList s" "currentState (handleQuery q c m s) = currentState s"
  "desiredState (handleQuery q c m s) = desiredState s" "running (handleQuery q c m s) = running s"
  "thread_running (handleQuery q c m s) = thread_running s" "initialState (handleQuery q c m s) = initialState s"
  by (auto simp: handleQuery_def hndSetMainState_def new_entry_def split_beta slave_simps)

lemma handleQuery_queue: "x \<in> set (stateQueue (handleQuery q c m s)) \<Longrightarrow> x \<in> set (stateQueue s) \<or> se_state x = m"
  by (auto simp: handleQuery_def hndSetMainState_def new_entry_def split_beta slave_simps split: if_splits)

lemma setWaitState_frame [simp]:
  "stateList (snd (setWaitState m s)) = stateList s" "currentState (snd (setWaitState m s)) = currentState s"
  "desiredState (snd (setWaitState m s)) = desiredState s"
  by (auto simp: setWaitState_def wait_change_def push_front_def new_entry_def split_beta)

lemma setWaitState_queue: "x \<in> set (stateQueue (snd (setWaitState m s))) \<Longrightarrow> x \<in> set (stateQueue s) \<or>
    se_state x \<in> {''Alive'', ''FatalError'', ''Shutdown''}"
  by (auto simp: setWaitState_def wait_change_def push_front_def new_entry_def split_beta split: if_splits)

text \<open>The calls that only count.\<close>

lemma acquire_list: "(\<exists>i. snd (acquire n s) = add_cnt 1 i s) \<or> snd (acquire n s) = s \<or>
    (\<exists>i. snd (acquire n s) = add_cnt (-1) i (add_cnt 1 i s))"
  by (auto simp: acquire_def acquire_changed_def acquire_activated_def Let_def split: option.splits)

lemma tryAcquire_list: "(\<exists>k i. snd (tryAcquire n s) = add_cnt k i s) \<or> snd (tryAcquire n s) = s"
  by (auto simp: tryAcquire_def Let_def split: option.splits)

lemma release_cnt_list: "(\<exists>k i. snd (release_cnt n s) = add_cnt k i s) \<or> snd (release_cnt n s) = s"
  by (auto simp: release_cnt_def split: option.splits)

lemma add_cnt_cons [simp]: "clean (add_cnt k i s) = clean s"
  by (simp add: clean_def)

lemma exec_cons:
  assumes "cons_inv s" "enabled op s" "no_deactivation op"
  shows "cons_inv (exec op s)"
proof -
  have i: "slave_inv s" "consistent (currentState s) (stateList s)" "clean s" using assms(1) by (auto simp: cons_inv_def)
  have d: "distinct (map sub_name (stateList s))" using i(1) by (simp add: inv_defs layout_distinct)
  have "consistent (currentState (exec op s)) (stateList (exec op s)) \<and> clean (exec op s)"
  proof (cases op)
    case (OpDefine m n)
    then show ?thesis
      using defineStates_consistent [OF i(1,2), of m n] defineStates_frame [of m n s] i(3)
      by (auto simp: clean_def idle_def)
  next
    case (OpSetInitial m)
    then show ?thesis using i(2,3)
      by (auto simp: setUpInitialState_def clean_def idle_def split: option.splits)
  next
    case OpActivate
    then show ?thesis using i(2,3) by (simp add: activate_def clean_def idle_def)
  next
    case (OpQuery q c m)
    then show ?thesis using i(2,3) assms(3) handleQuery_queue [of _ q c m s]
      by (auto simp: clean_def idle_def deactivation_def)
  next
    case OpThread
    show ?thesis
    proof (cases "thread_running s \<and> stateQueue s \<noteq> []")
      case True
      have "\<not> deactivation (se_state (hd (stateQueue s)))" "clean (dequeued s)"
        using i(3) True by (auto simp: clean_def dest: list.set_sel(2))
      with OpThread True d i on_execute_dequeued [OF d] show ?thesis
        by (simp add: updateState_consistent updateState_clean)
    next
      case False
      then show ?thesis using OpThread i on_execute_stays by simp
    qed
  next
    case (OpSetWait m)
    have "\<forall>q \<in> set (stateQueue (snd (setWaitState m s))). \<not> deactivation (se_state q)"
      using i(3) by (auto simp: clean_def deactivation_def dest!: setWaitState_queue)
    then show ?thesis using OpSetWait i(2,3) by (auto simp: clean_def idle_def)
  next
    case (OpAcquire n)
    then show ?thesis using i(2,3) acquire_list [of n s] by auto
  next
    case (OpTryAcquire n)
    then show ?thesis using i(2,3) tryAcquire_list [of n s] by auto
  next
    case (OpRelease n)
    let ?s = "snd (release_cnt n s)"
    have r: "consistent (currentState ?s) (stateList ?s)" "clean ?s" "distinct (map sub_name (stateList ?s))"
      using release_cnt_list [of n s] i(2,3) d by (auto simp: map_fst_shape simp del: map_map)
    then have "consistent (currentState (updateState ?s)) (stateList (updateState ?s))" "clean (updateState ?s)"
      using updateState_consistent [OF r(3,1)] updateState_clean [OF r(3,2)] by (auto simp: clean_def [of ?s])
    with r show ?thesis using OpRelease by (simp add: release_def split_beta)
  next
    case (OpResume p)
    then show ?thesis using i(2,3) known_main_clean [of "initialState s" s] i(1)
      by (cases p) (auto simp: acquire_changed_def acquire_activated_def setWaitState_resume_def clean_def idle_def inv_defs)
  qed
  then show ?thesis using exec_inv [OF i(1) assms(2)] by (simp add: cons_inv_def)
qed

lemma new_slave_cons: "cons_inv (new_slave h)"
  using new_slave_inv by (auto simp: cons_inv_def clean_def new_slave_def idle_def consistent_def initial_subs_def new_sub_def)

lemma reachable_cons: "reachable no_deactivation s \<Longrightarrow> cons_inv s"
  by (induction rule: reachable.induct) (auto simp: new_slave_cons exec_cons)

end
