(* ===== verification/SlaveProperties.thy ===== *)
theory SlaveProperties
  imports SlaveInvariant "HOL-Library.Multiset"
begin

section \<open>What the operations of the state slave guarantee\<close>

text \<open>
  Acquired substates stay active, the change handler is called in a fixed order, queries are answered
  at most once, and the properties of the life cycle, with the cases in which the code loses a request
  or leaves the invariant.
\<close>

subsection \<open>Acquired substates\<close>

definition held :: "nat \<Rightarrow> slave \<Rightarrow> bool" where
  "held i s \<longleftrightarrow> i < length (stateList s) \<and> sub_state (stateList s ! i) = STATE_ACTIVATED \<and> 0 < cnt (stateList s ! i)"

lemma updateState_nth:
  assumes "distinct (map sub_name (stateList s))" "i < length (stateList s)"
  shows "length (stateList (updateState s)) = length (stateList s)"
    "cnt (stateList (updateState s) ! i) = cnt (stateList s ! i)"
    "mainstates (stateList (updateState s) ! i) = mainstates (stateList s ! i)"
    "sub_name (stateList (updateState s) ! i) = sub_name (stateList s ! i)"
  using assms by (auto simp: updateState_cases perform_eq) (simp_all add: mark_actions_def)

lemma updateState_held:
  assumes d: "distinct (map sub_name (stateList s))" and h: "held i s"
  shows "held i (updateState s)"
proof (cases "\<not> idle s \<and> desired s \<noteq> currentState s \<and> changeable s \<and> \<not> blocked s")
  case True
  then have "\<not> (currentState s \<in> set (mainstates (stateList s ! i)) \<and> desired s \<notin> set (mainstates (stateList s ! i)))"
    using h by (auto simp: blocked_nth held_def)
  with True d h show ?thesis by (auto simp: held_def updateState_cases perform_eq switched_state)
next
  case False
  then have "stateList (updateState s) \<in> {stateList s, stateList (mark_actions s)}"
    by (auto simp: updateState_cases)
  then show ?thesis using h by (auto simp: held_def) (simp_all add: mark_actions_def)
qed

lemma find_sub_index:
  assumes "distinct (map sub_name es)" "i < length es"
  shows "find_sub n es = Some i \<longleftrightarrow> sub_name (es ! i) = n"
proof
  assume "sub_name (es ! i) = n"
  then obtain j where "find_sub n es = Some j"
    using assms(2) find_sub_None [of n es] by (metis image_eqI nth_mem option.exhaust)
  with find_sub_SomeD(1,2) [OF this assms(1)] distinct_map_unique [OF assms(1), of i j] assms(2) \<open>sub_name (es ! i) = n\<close>
  show "find_sub n es = Some i" by simp
qed (use find_sub_SomeD assms(1) in blast)

lemma held_add_cnt: "held i s \<Longrightarrow> 0 \<le> k \<or> j \<noteq> i \<Longrightarrow> held i (add_cnt k j s)"
  by (auto simp: held_def add_cnt_nth)

lemma defineStates_running: "running s \<Longrightarrow> snd (defineStates m n s) = s"
  by (simp add: defineStates_def)

lemma setUpInitialState_list: "stateList (snd (setUpInitialState m s)) = stateList s"
  by (auto simp: setUpInitialState_def split: option.splits)

text \<open>Once acquired, a substate stays active and acquired until it is released.\<close>

lemma exec_held:
  assumes "slave_inv s" "running s" "held i s"
    and "op \<noteq> OpRelease (sub_name (stateList s ! i))" "op = OpResume (AcquireInactive i) \<Longrightarrow> currentState s \<noteq> ''Shutdown''"
  shows "held i (exec op s)"
proof -
  have d: "distinct (map sub_name (stateList s))" using assms(1) by (simp add: inv_defs layout_distinct)
  have i: "i < length (stateList s)" using assms(3) by (simp add: held_def)
  show ?thesis
  proof (cases op)
    case OpThread
    show ?thesis
    proof (cases "thread_running s \<and> stateQueue s \<noteq> []")
      case True
      have "held i (updateState (dequeued s))"
        by (rule updateState_held) (use d assms(3) in \<open>simp_all add: held_def\<close>)
      with True OpThread on_execute_dequeued [OF d] show ?thesis by simp
    qed (use OpThread on_execute_stays assms(3) in simp)
  next
    case (OpRelease n)
    then have n: "sub_name (stateList s ! i) \<noteq> n" using assms(4) by auto
    then have "find_sub n (stateList s) \<noteq> Some i" by (simp add: find_sub_index [OF d i])
    then have h: "held i (snd (release_cnt n s))"
      using assms(3) by (auto simp: release_cnt_def intro!: held_add_cnt split: option.splits)
    have "distinct (map sub_name (stateList (snd (release_cnt n s))))"
      using release_cnt_list [of n s] d by (auto simp: map_fst_shape simp del: map_map)
    with h have "held i (updateState (snd (release_cnt n s)))" by (rule updateState_held [rotated])
    with h OpRelease show ?thesis by (simp add: release_def split_beta)
  next
    case (OpResume p)
    have w: "held i (s\<lparr>stateQueue := q\<rparr>)" for q using assms(3) by (simp add: held_def)
    show ?thesis
    proof (cases p)
      case (AcquireInactive j)
      then show ?thesis using OpResume assms(3,5)
        by (cases "j = i") (simp_all add: acquire_activated_def held_add_cnt)
    qed (use OpResume assms(3) w in \<open>simp_all add: acquire_changed_def setWaitState_resume_def held_add_cnt\<close>)
  next
    case (OpAcquire n)
    have "held i (add_cnt (-1) j (add_cnt 1 j s))" for j using assms(3) by (auto simp: held_def add_cnt_nth)
    with OpAcquire acquire_list [of n s] assms(3) show ?thesis by (auto simp: held_add_cnt)
  next
    case (OpTryAcquire n)
    then show ?thesis using assms(3)
      by (auto simp: tryAcquire_def Let_def held_add_cnt split: option.splits)
  qed (use assms(2,3) in \<open>simp_all add: defineStates_running setUpInitialState_list activate_def held_def\<close>)
qed

subsection \<open>Order of the callbacks\<close>

text \<open>The substates a change leaves and enters, in the order of the state list.\<close>

definition left_subs :: "string \<Rightarrow> string \<Rightarrow> sub_entry list \<Rightarrow> string list" where
  "left_subs c d es = map sub_name (filter (\<lambda>e. c \<in> set (mainstates e) \<and> d \<notin> set (mainstates e)) es)"

definition entered_subs :: "string \<Rightarrow> string \<Rightarrow> sub_entry list \<Rightarrow> string list" where
  "entered_subs c d es = map sub_name (filter (\<lambda>e. c \<notin> set (mainstates e) \<and> d \<in> set (mainstates e)) es)"

definition nonneutral_last :: "string list \<Rightarrow> string list" where
  "nonneutral_last ns = filter (\<lambda>n. n \<noteq> ''nonneutral'') ns @ filter (\<lambda>n. n = ''nonneutral'') ns"

definition nonneutral_first :: "string list \<Rightarrow> string list" where
  "nonneutral_first ns = filter (\<lambda>n. n = ''nonneutral'') ns @ filter (\<lambda>n. n \<noteq> ''nonneutral'') ns"

lemma action_for_iff:
  "action_for c d ms = STATE_ACTION_DEACTIVATE \<longleftrightarrow> c \<in> set ms \<and> d \<notin> set ms"
  "action_for c d ms = STATE_ACTION_ACTIVATE \<longleftrightarrow> c \<notin> set ms \<and> d \<in> set ms"
  by (auto simp: action_for_def)

lemma change_events_order:
  "change_events (stateList (mark_actions s)) =
     map Quit (nonneutral_last (left_subs (currentState s) (desired s) (stateList s))) @
     map Enter (nonneutral_first (entered_subs (currentState s) (desired s) (stateList s)))"
proof -
  have "map (\<lambda>e. Quit (sub_name e)) (filter (\<lambda>e. P e \<and> Q (sub_name e)) es) = map Quit (filter Q (map sub_name (filter P es)))"
    "map (\<lambda>e. Enter (sub_name e)) (filter (\<lambda>e. P e \<and> Q (sub_name e)) es) = map Enter (filter Q (map sub_name (filter P es)))"
    for P Q and es :: "sub_entry list"
    by (induction es) auto
  then show ?thesis
    by (simp add: change_events_def mark_actions_def filter_map comp_def leaving_def entering_def is_nn_def
        mark_action_for action_for_iff nonneutral_last_def nonneutral_first_def left_subs_def entered_subs_def)
qed

subsection \<open>Answers\<close>

definition answered :: "event list \<Rightarrow> nat multiset" where
  "answered t = mset (concat (map (\<lambda>e. case e of Answer q r ms \<Rightarrow> [q] | _ \<Rightarrow> []) t))"

definition opt_mset :: "nat option \<Rightarrow> nat multiset" where
  "opt_mset c = (case c of None \<Rightarrow> {#} | Some q \<Rightarrow> {#q#})"

text \<open>The queries still to be answered: the client of the desired state and those of the queue.\<close>

definition open_queries :: "slave \<Rightarrow> nat multiset" where
  "open_queries s = opt_mset (se_client (desiredState s)) + (\<Sum>q \<in># mset (stateQueue s). opt_mset (se_client q))"

definition known_queries :: "slave \<Rightarrow> nat multiset" where
  "known_queries s = answered (trace s) + open_queries s"

fun op_query :: "op \<Rightarrow> nat multiset" where
  "op_query (OpQuery q c m) = {#q#}"
| "op_query _ = {#}"

lemma answered_append [simp]: "answered (t @ u) = answered t + answered u"
  by (simp add: answered_def)

lemma answered_events [simp]:
  "answered [] = {#}" "answered (Answer q r ms # t) = add_mset q (answered t)" "answered (Quit n # t) = answered t"
  "answered (Enter n # t) = answered t" "answered (Blocking b # t) = answered t"
  "answered (NotifySub i # t) = answered t" "answered (NotifyReq c # t) = answered t"
  by (simp_all add: answered_def)

lemma answered_none:
  "answered (map (\<lambda>e. Quit (f e)) xs) = {#}" "answered (map (\<lambda>e. Enter (f e)) xs) = {#}"
  "answered (notify_events d es) = {#}" "answered (enforce_events d) = {#}"
  "answered (answer_events r c) = opt_mset c"
proof -
  show "answered (map (\<lambda>e. Quit (f e)) xs) = {#}" "answered (map (\<lambda>e. Enter (f e)) xs) = {#}"
    by (induction xs) auto
  have "answered (map (\<lambda>(i, e). NotifySub i) ys) = {#}" for ys :: "(nat \<times> sub_entry) list" by (induction ys) auto
  then show "answered (notify_events d es) = {#}" by (simp add: notify_events_def)
  show "answered (enforce_events d) = {#}" by (simp add: enforce_events_def)
  show "answered (answer_events r c) = opt_mset c" by (cases c) (simp_all add: answer_events_def opt_mset_def)
qed

lemma answered_change [simp]: "answered (change_events es) = {#}"
  by (simp add: change_events_def answered_none)

lemma updateState_queries:
  assumes "distinct (map sub_name (stateList s))"
  shows "known_queries (updateState s) = known_queries s"
  using assms
  by (auto simp: updateState_cases perform_eq known_queries_def open_queries_def settled_def answered_none opt_mset_def
      split: option.splits)

lemma add_cnt_queries [simp]: "known_queries (add_cnt k i s) = known_queries s"
  by (simp add: known_queries_def open_queries_def)

lemma exec_queries:
  assumes "slave_inv s"
  shows "known_queries (exec op s) \<subseteq># known_queries s + op_query op"
proof -
  have d: "distinct (map sub_name (stateList s))" using assms by (simp add: inv_defs layout_distinct)
  show ?thesis
  proof (cases op)
    case (OpDefine m n)
    then show ?thesis using defineStates_frame [of m n s] by (simp add: known_queries_def open_queries_def)
  next
    case (OpSetInitial m)
    then show ?thesis by (auto simp: setUpInitialState_def known_queries_def open_queries_def split: option.splits)
  next
    case OpActivate
    then show ?thesis by (simp add: activate_def known_queries_def open_queries_def)
  next
    case (OpQuery q c m)
    then show ?thesis
      by (auto simp: handleQuery_def hndSetMainState_def new_entry_def split_beta known_queries_def open_queries_def
          slave_simps opt_mset_def)
  next
    case OpThread
    show ?thesis
    proof (cases "thread_running s \<and> stateQueue s \<noteq> []")
      case True
      then obtain q qs where q: "stateQueue s = q # qs" by (cases "stateQueue s") auto
      have "known_queries (updateState (dequeued s)) = known_queries (dequeued s)"
        using d by (intro updateState_queries) simp
      moreover have "known_queries (dequeued s) \<subseteq># known_queries s"
        using q by (simp add: known_queries_def open_queries_def) (simp add: dequeued_def Let_def)
      ultimately show ?thesis using True OpThread on_execute_dequeued [OF d] by simp
    qed (use OpThread on_execute_stays in simp)
  next
    case (OpSetWait m)
    then show ?thesis
      by (auto simp: setWaitState_def wait_change_def push_front_def new_entry_def split_beta known_queries_def
          open_queries_def opt_mset_def)
  next
    case (OpAcquire n)
    then show ?thesis using acquire_list [of n s] by auto
  next
    case (OpTryAcquire n)
    then show ?thesis using tryAcquire_list [of n s] by auto
  next
    case (OpRelease n)
    have "known_queries (snd (release_cnt n s)) = known_queries s \<and>
        distinct (map sub_name (stateList (snd (release_cnt n s))))"
      using release_cnt_list [of n s] d by (auto simp: map_fst_shape simp del: map_map)
    then show ?thesis using OpRelease by (simp add: release_def split_beta updateState_queries)
  next
    case (OpResume p)
    then show ?thesis
      by (cases p) (auto simp: acquire_changed_def acquire_activated_def setWaitState_resume_def known_queries_def
          open_queries_def opt_mset_def)
  qed
qed

section \<open>Properties of the state slave\<close>

lemma reachable_fold:
  assumes "reachable D s" "\<forall>op \<in> set ops. D op \<and> (\<forall>p. op \<noteq> OpResume p)"
  shows "reachable D (fold exec ops s)"
  using assms
proof (induction ops arbitrary: s)
  case (Cons op ops)
  then have "enabled op s" by (cases op) auto
  with Cons show ?case by (auto intro: reachable.step)
qed simp

lemma slave_distinct: "slave_inv s \<Longrightarrow> distinct (map sub_name (stateList s))"
  by (simp add: inv_defs layout_distinct)

text \<open>A slave with two user main states, used in the examples.\<close>

definition setup_ops :: "op list" where
  "setup_ops = [OpDefine ''Work'' ''motor'', OpDefine ''Idle'' ''lamp'', OpActivate, OpSetWait ''Alive'', OpThread]"

definition sample_slave :: slave where
  "sample_slave = fold exec (setup_ops @ [OpQuery 7 1 ''Work'', OpThread, OpAcquire ''motor'']) (new_slave True)"

lemma sample_reachable: "reachable no_deactivation sample_slave"
  unfolding sample_slave_def
  by (intro reachable_fold reachable.start) (simp add: setup_ops_def)

lemma reachable_mono: "reachable D s \<Longrightarrow> (\<And>op. D op \<Longrightarrow> E op) \<Longrightarrow> reachable E s"
  by (induction rule: reachable.induct) (auto intro: reachable.intros)

lemma sample_reachable_any: "reachable any_op sample_slave"
  by (rule reachable_mono [OF sample_reachable]) (simp add: any_op_def)

lemma sample_eval: "currentState sample_slave = ''Work'' \<and> running sample_slave \<and>
   length (stateList sample_slave) = 7 \<and> sub_name (stateList sample_slave ! 5) = ''motor'' \<and>
   sub_state (stateList sample_slave ! 5) = STATE_ACTIVATED \<and> cnt (stateList sample_slave ! 5) = 1"
  by code_simp

text \<open>C2: In every state the slave can reach without a request to deactivate it, the active substates are exactly
  the substates the current main state has.\<close>

theorem slave_active_substates:
  assumes "reachable no_deactivation s" "e \<in> set (stateList s)"
  shows "sub_state e = STATE_ACTIVATED \<longleftrightarrow> currentState s \<in> set (mainstates e)"
  using reachable_cons [OF assms(1)] assms(2) by (simp add: cons_inv_def consistent_def)

theorem slave_active_substates_witness:
  "sub_state (stateList sample_slave ! 5) = STATE_ACTIVATED \<longleftrightarrow>
    currentState sample_slave \<in> set (mainstates (stateList sample_slave ! 5))"
  by (intro slave_active_substates [OF sample_reachable] nth_mem) (simp add: sample_eval)

text \<open>C3: An acquired substate stays active and acquired through every call of any thread, of the master and of the
  update thread, until it is released: a change of the main state never deactivates it. The one call left out is
  that of a thread that had waited in \<open>acquire\<close> for the same, inactive substate and goes on after the shutdown:
  it takes back the count it had added.\<close>

theorem acquired_stays_active:
  assumes "reachable any_op s" "running s" "i < length (stateList s)"
    and "sub_state (stateList s ! i) = STATE_ACTIVATED" "0 < cnt (stateList s ! i)"
    and "op \<noteq> OpRelease (sub_name (stateList s ! i))" "op = OpResume (AcquireInactive i) \<Longrightarrow> currentState s \<noteq> ''Shutdown''"
  shows "sub_state (stateList (exec op s) ! i) = STATE_ACTIVATED \<and> 0 < cnt (stateList (exec op s) ! i)"
  using exec_held [OF reachable_inv [OF assms(1)] assms(2)] assms(3-7) by (simp add: held_def)

theorem acquired_stays_active_witness:
  "sub_state (stateList (exec OpThread sample_slave) ! 5) = STATE_ACTIVATED \<and>
   0 < cnt (stateList (exec OpThread sample_slave) ! 5)"
  by (rule acquired_stays_active [OF sample_reachable_any]) (simp_all add: sample_eval)

text \<open>A requested state change is pending only while some substate of the current main state that the requested
  one does not have is acquired: no release of the last such substate leaves the request waiting.\<close>

theorem pending_only_while_acquired:
  assumes "reachable any_op s" "se_action (desiredState s) = SSA_CHANGE_STATE"
  shows "\<exists>e \<in> set (stateList s). currentState s \<in> set (mainstates e) \<and>
    se_state (desiredState s) \<notin> set (mainstates e) \<and> 0 < cnt e"
proof -
  have i: "slave_inv s" by (rule reachable_inv [OF assms(1)])
  have p: "\<not> idle s" using assms(2) by (simp add: idle_def)
  then obtain e where e: "e \<in> set (stateList s)" "currentState s \<in> set (mainstates e)"
    "se_state (desiredState s) \<notin> set (mainstates e)" "cnt e \<noteq> 0"
    using i by (auto simp: slave_inv_def pending_ok_def blocked_def)
  moreover have "0 \<le> cnt e" using i p e(1) by (auto simp: slave_inv_def base_inv_def shutdown_ok_def)
  ultimately show ?thesis by force
qed

definition pending_slave :: slave where
  "pending_slave = fold exec (setup_ops @ [OpQuery 7 1 ''Work'', OpThread, OpAcquire ''motor'', OpQuery 8 1 ''Idle'', OpThread])
     (new_slave True)"

lemma pending_reachable: "reachable any_op pending_slave"
  unfolding pending_slave_def
  by (intro reachable_fold reachable.start) (simp add: setup_ops_def any_op_def)

lemma pending_eval: "se_action (desiredState pending_slave) = SSA_CHANGE_STATE \<and> currentState pending_slave = ''Work'' \<and>
  se_state (desiredState pending_slave) = ''Idle'' \<and> se_client (desiredState pending_slave) = Some 8 \<and>
  running pending_slave \<and> stateQueue pending_slave = [] \<and> thread_running pending_slave \<and>
  map shape (stateList pending_slave) = [(''init'', [''Init'']), (''neutral'', [''Neutral'']),
    (''fatalError'', [''FatalError'']), (''shutdown'', [''Shutdown'']), (''nonneutral'', [''Work'', ''Idle'']),
    (''motor'', [''Work'']), (''lamp'', [''Idle''])] \<and>
  map cnt (stateList pending_slave) = [0, 0, 0, 0, 0, 1, 0]"
  by code_simp

theorem pending_only_while_acquired_witness:
  "\<exists>e \<in> set (stateList pending_slave). currentState pending_slave \<in> set (mainstates e) \<and>
    se_state (desiredState pending_slave) \<notin> set (mainstates e) \<and> 0 < cnt e"
  by (rule pending_only_while_acquired [OF pending_reachable]) (simp add: pending_eval)

text \<open>The callbacks of the change handler among the events.\<close>

fun is_callback :: "event \<Rightarrow> bool" where
  "is_callback (Quit n) = True"
| "is_callback (Enter n) = True"
| "is_callback _ = False"

lemma callbacks_none [simp]:
  "filter is_callback (enforce_events d) = []" "filter is_callback (answer_events r c) = []"
  "filter is_callback (notify_events d es) = []"
proof -
  have "filter is_callback (map (\<lambda>(i, e). NotifySub i) xs) = []" for xs :: "(nat \<times> sub_entry) list"
    by (induction xs) auto
  then show "filter is_callback (notify_events d es) = []" by (simp add: notify_events_def)
qed (auto simp: enforce_events_def answer_events_def split: option.split)

lemma callbacks_change: "filter is_callback (map Quit ns @ map Enter ms) = map Quit ns @ map Enter ms"
  by (simp add: filter_map comp_def)

text \<open>C23: When the update thread performs the next request (one for a main state other than the current one, known,
  \<open>Alive\<close> or a deactivation, none of the substates to be left being acquired), the change handler is called in this
  order: a quit for every substate that is left, in the order of their definition but \<open>nonneutral\<close> last, then an
  enter for every substate that is entered, \<open>nonneutral\<close> first; no other callback is made. What is left and entered
  goes by the name requested, so a deactivation leaves all substates of the current main state and enters none.\<close>

theorem callback_order:
  assumes "reachable any_op s" "thread_running s" "has_handler s" "stateQueue s = q # qs"
    and "se_state q \<noteq> currentState s" "valid_main (se_state q) (stateList s) \<or> se_state q \<in> {''Alive'', ''Deactivated'', ''deactivated''}"
    and "\<forall>e \<in> set (stateList s). currentState s \<in> set (mainstates e) \<and> se_state q \<notin> set (mainstates e) \<longrightarrow> cnt e = 0"
  shows "filter is_callback (trace (exec OpThread s)) = filter is_callback (trace s) @
    map Quit (nonneutral_last (left_subs (currentState s) (se_state q) (stateList s))) @
    map Enter (nonneutral_first (entered_subs (currentState s) (se_state q) (stateList s)))"
proof -
  have i: "slave_inv s" by (rule reachable_inv [OF assms(1)])
  have d: "distinct (map sub_name (stateList (dequeued s)))" using slave_distinct [OF i] by simp
  have "se_action q = SSA_CHANGE_STATE" using inv_queueD [OF i, of q] assms(4) by simp
  then have "\<not> idle (dequeued s)" "changeable (dequeued s)" "\<not> blocked (dequeued s)" "desired (dequeued s) \<noteq> currentState s"
    using assms(4-7) by (auto simp: idle_def changeable_def blocked_def)
  then have u: "exec OpThread s = perform_change (mark_actions (dequeued s))"
    using on_execute_dequeued [of s] slave_distinct [OF i] assms(2,4) by (simp add: updateState_cases)
  have "filter is_callback (trace (dequeued s)) = filter is_callback (trace s)"
    by (simp add: dequeued_def Let_def)
  then show ?thesis
    unfolding u perform_eq [OF d] using assms(3,4)
    by (simp add: change_events_order callbacks_change)
qed

definition queued_slave :: slave where
  "queued_slave = fold exec (setup_ops @ [OpQuery 7 1 ''Work'', OpThread, OpQuery 8 1 ''Idle'']) (new_slave True)"

lemma queued_reachable: "reachable no_deactivation queued_slave"
  unfolding queued_slave_def
  by (intro reachable_fold reachable.start) (simp add: setup_ops_def)

lemma queued_eval: "thread_running queued_slave \<and> has_handler queued_slave \<and> running queued_slave \<and>
   stateQueue queued_slave = [\<lparr>se_action = SSA_CHANGE_STATE, se_state = ''Idle'', se_client = Some 8, se_cond = 3\<rparr>] \<and>
   desiredState queued_slave = \<lparr>se_action = SSA_UNDEFINED, se_state = ''Work'', se_client = None, se_cond = 2\<rparr> \<and>
   currentState queued_slave = ''Work'' \<and> valid_main ''Idle'' (stateList queued_slave) \<and>
   list_all (\<lambda>e. cnt e = 0) (stateList queued_slave)"
  by code_simp

theorem callback_order_witness:
  "filter is_callback (trace (exec OpThread queued_slave)) = filter is_callback (trace queued_slave) @
    map Quit (nonneutral_last (left_subs (currentState queued_slave) ''Idle'' (stateList queued_slave))) @
    map Enter (nonneutral_first (entered_subs (currentState queued_slave) ''Idle'' (stateList queued_slave)))"
  using callback_order [OF reachable_mono [OF queued_reachable], of
      "\<lparr>se_action = SSA_CHANGE_STATE, se_state = ''Idle'', se_client = Some 8, se_cond = 3\<rparr>" "[]"] queued_eval
  by (simp add: any_op_def list_all_iff)

text \<open>The runs with the calls made, in order.\<close>

inductive run :: "bool \<Rightarrow> op list \<Rightarrow> slave \<Rightarrow> bool" for h where
  start: "run h [] (new_slave h)"
| step: "run h ops s \<Longrightarrow> enabled op s \<Longrightarrow> run h (ops @ [op]) (exec op s)"

lemma run_fold: "\<forall>op \<in> set ops. \<forall>p. op \<noteq> OpResume p \<Longrightarrow> run h ops (fold exec ops (new_slave h))"
proof (induction ops rule: rev_induct)
  case (snoc op ops)
  then have "enabled op (fold exec ops (new_slave h))" by (cases op) auto
  with snoc show ?case by (auto intro: run.step)
qed (simp add: run.start)

text \<open>C24: The answers sent are answers to queries received: in any run, with any interleaving of calls, the multiset of
  query ids answered is contained in that of the queries received, so a query with a unique id is answered at most
  once.\<close>

theorem answered_at_most_once:
  assumes "run h ops s"
  shows "answered (trace s) \<subseteq># (\<Sum>op \<in># mset ops. op_query op)"
proof -
  have "slave_inv s \<and> known_queries s \<subseteq># (\<Sum>op \<in># mset ops. op_query op)"
    using assms
  proof (induction rule: run.induct)
    case start
    then show ?case using new_slave_inv [of h]
      by (simp add: known_queries_def open_queries_def new_slave_def opt_mset_def answered_def)
  next
    case (step ops s op)
    then have "known_queries (exec op s) \<subseteq># known_queries s + op_query op" by (intro exec_queries) simp
    also have "\<dots> \<subseteq># (\<Sum>op \<in># mset (ops @ [op]). op_query op)" using step.IH by simp
    finally show ?case using step exec_inv by simp
  qed
  then show ?thesis by (auto simp: known_queries_def elim: subset_mset.order_trans [rotated])
qed

theorem answered_at_most_once_witness:
  "answered (trace queued_slave) \<subseteq># (\<Sum>op \<in># mset (setup_ops @ [OpQuery 7 1 ''Work'', OpThread, OpQuery 8 1 ''Idle'']). op_query op)"
proof -
  have "run True (setup_ops @ [OpQuery 7 1 ''Work'', OpThread, OpQuery 8 1 ''Idle'']) queued_slave"
    unfolding queued_slave_def by (rule run_fold) (simp add: setup_ops_def)
  then show ?thesis by (rule answered_at_most_once)
qed

text \<open>C30: The main state \<open>Shutdown\<close> is final: no call leaves it, and the update thread has stopped.\<close>

theorem shutdown_final:
  assumes "reachable any_op s" "currentState s = ''Shutdown''"
  shows "currentState (exec op s) = ''Shutdown'' \<and> \<not> thread_running (exec op s)"
proof -
  have i: "slave_inv s" by (rule reachable_inv [OF assms(1)])
  then have id: "idle s" "\<not> thread_running s" using assms(2) by (auto simp: inv_defs)
  have r: "updateState s' = settled SMART_ERROR s'" if "desiredState s' = desiredState s" for s'
    using that id(1) by (simp add: updateState_cases idle_def)
  show ?thesis
  proof (cases op)
    case (OpRelease n)
    have "desiredState (snd (release_cnt n s)) = desiredState s \<and> currentState (snd (release_cnt n s)) = currentState s \<and>
        thread_running (snd (release_cnt n s)) = thread_running s"
      using release_cnt_list [of n s] by auto
    then show ?thesis using OpRelease assms(2) id(2) r [of "snd (release_cnt n s)"] by (simp add: release_def split_beta)
  next
    case (OpDefine m n)
    then show ?thesis using defineStates_frame [of m n s] assms(2) id by simp
  next
    case (OpAcquire n)
    then show ?thesis using acquire_list [of n s] assms(2) id by auto
  next
    case (OpTryAcquire n)
    then show ?thesis using tryAcquire_list [of n s] assms(2) id by auto
  next
    case (OpResume p)
    then show ?thesis using assms(2) id
      by (cases p) (auto simp: acquire_changed_def acquire_activated_def setWaitState_resume_def)
  qed (use assms(2) id in \<open>auto simp: setUpInitialState_def activate_def on_execute_def setWaitState_def
      wait_change_def push_front_def new_entry_def split_beta split: option.split\<close>)
qed

definition stopped_slave :: slave where
  "stopped_slave = fold exec (setup_ops @ [OpQuery 7 1 ''Shutdown'', OpThread]) (new_slave False)"

lemma stopped_reachable: "reachable any_op stopped_slave"
  unfolding stopped_slave_def
  by (intro reachable_fold reachable.start) (simp add: setup_ops_def any_op_def)

theorem shutdown_final_witness:
  "currentState (exec (OpQuery 9 1 ''Work'') stopped_slave) = ''Shutdown'' \<and>
   \<not> thread_running (exec (OpQuery 9 1 ''Work'') stopped_slave)"
  by (rule shutdown_final [OF stopped_reachable]) code_simp

text \<open>The steps of a request: the request is queued without an answer, and the run of the update thread
  performs it, with one answer, the last event.\<close>

lemma request_round:
  assumes "reachable any_op s" "running s" "thread_running s" "stateQueue s = []"
    and "m \<notin> set not_commandable" "m \<noteq> ''Shutdown''" "\<not> deactivation m" "valid_main m (stateList s)"
    and "currentState s \<notin> {''Init'', ''Shutdown'', ''FatalError''}"
    and "\<forall>e \<in> set (stateList s). currentState s \<in> set (mainstates e) \<and> m \<notin> set (mainstates e) \<longrightarrow> cnt e = 0"
  shows "trace (exec (OpQuery q 1 m) s) = trace s \<and> currentState (exec OpThread (exec (OpQuery q 1 m) s)) = m \<and>
    (\<exists>t. answered t = {#} \<and> trace (exec OpThread (exec (OpQuery q 1 m) s)) = trace s @ t @ [Answer q SMART_OK []])"
proof -
  let ?e = "\<lparr>se_action = SSA_CHANGE_STATE, se_state = m, se_client = Some q, se_cond = next_cond s\<rparr>"
  let ?s = "s\<lparr>next_cond := next_cond s + 1, stateQueue := [?e]\<rparr>"
  have i: "slave_inv s" by (rule reachable_inv [OF assms(1)])
  have q: "exec (OpQuery q 1 m) s = ?s"
    using assms(2,4-6,9) by (simp add: handleQuery_def hndSetMainState_def new_entry_def)
  have d: "distinct (map sub_name (stateList (dequeued ?s)))" "distinct (map sub_name (stateList ?s))"
    using slave_distinct [OF i] by simp_all
  have u: "exec OpThread ?s = updateState (dequeued ?s)"
    using on_execute_dequeued [OF d(2)] assms(3) by simp
  have t: "trace (dequeued ?s) = trace s @ (if m \<in> {''Deactivated'', ''Shutdown'', ''FatalError'', ''deactivated''} then [Blocking False] else [])"
    by (simp add: dequeued_def Let_def)
  let ?b = "if m \<in> {''Deactivated'', ''Shutdown'', ''FatalError'', ''deactivated''} then [Blocking False] else []"
  show ?thesis
  proof (cases "m = currentState s")
    case True
    then have "updateState (dequeued ?s) = settled SMART_OK (dequeued ?s)"
      by (simp add: updateState_cases idle_def)
    then show ?thesis unfolding q u using True t
      by (intro conjI exI [of _ ?b]) (simp_all add: settled_def answer_events_def)
  next
    case False
    then have "updateState (dequeued ?s) = perform_change (mark_actions (dequeued ?s))"
      using assms(8,10) by (auto simp: updateState_cases idle_def changeable_def blocked_def)
    then show ?thesis unfolding q u perform_eq [OF d(1)] using t assms(7)
      by (intro conjI exI [of _ "?b @ _ @ _ @ _ @ [_]"])
        (simp_all add: answer_events_def target_state_def deactivation_def answered_none)
  qed
qed

text \<open>A request of the master for a known main state, received while nothing is pending and none of the substates to
  leave is acquired, is performed by the next run of the update thread: the main state is the requested one and the
  master is answered OK, last.\<close>

theorem request_served:
  assumes "reachable any_op s" "running s" "thread_running s" "stateQueue s = []"
    and "m \<notin> set not_commandable" "m \<noteq> ''Shutdown''" "\<not> deactivation m" "valid_main m (stateList s)"
    and "currentState s \<notin> {''Init'', ''Shutdown'', ''FatalError''}"
    and "\<forall>e \<in> set (stateList s). currentState s \<in> set (mainstates e) \<and> m \<notin> set (mainstates e) \<longrightarrow> cnt e = 0"
  shows "currentState (exec OpThread (exec (OpQuery q 1 m) s)) = m \<and>
    (\<exists>t. trace (exec OpThread (exec (OpQuery q 1 m) s)) = trace s @ t @ [Answer q SMART_OK []])"
  using request_round [OF assms] by blast

lemma queued0_eval: "running (exec OpThread queued_slave) \<and> thread_running (exec OpThread queued_slave) \<and>
   stateQueue (exec OpThread queued_slave) = [] \<and> valid_main ''Work'' (stateList (exec OpThread queued_slave)) \<and>
   currentState (exec OpThread queued_slave) = ''Idle'' \<and> list_all (\<lambda>e. cnt e = 0) (stateList (exec OpThread queued_slave))"
  by code_simp

theorem request_served_witness:
  "currentState (exec OpThread (exec (OpQuery 9 1 ''Work'') (exec OpThread queued_slave))) = ''Work'' \<and>
    (\<exists>t. trace (exec OpThread (exec (OpQuery 9 1 ''Work'') (exec OpThread queued_slave))) =
      trace (exec OpThread queued_slave) @ t @ [Answer 9 SMART_OK []])"
proof (rule request_served)
  show "reachable any_op (exec OpThread queued_slave)"
    by (rule reachable.step) (use reachable_mono [OF queued_reachable] in \<open>simp_all add: any_op_def\<close>)
qed (use queued0_eval in \<open>simp_all add: list_all_iff not_commandable_def deactivation_def\<close>)

text \<open>C25: Releasing the last acquisition completes the pending change, in runs without a request to deactivate: if the only acquired substate among those to be
  left is the released one, acquired once, then after the release the main state is the requested one, nothing is
  pending any more, the active substates are those of the new main state and the waiting master is answered OK.\<close>

theorem release_completes_change:
  assumes "reachable no_deactivation s" "running s" "se_action (desiredState s) = SSA_CHANGE_STATE"
    and "find_sub n (stateList s) = Some i" "cnt (stateList s ! i) = 1" "currentState s \<in> set (mainstates (stateList s ! i))"
    and "\<forall>j < length (stateList s). j \<noteq> i \<and> currentState s \<in> set (mainstates (stateList s ! j)) \<and>
      se_state (desiredState s) \<notin> set (mainstates (stateList s ! j)) \<longrightarrow> cnt (stateList s ! j) = 0"
  shows "fst (release n s) = SMART_OK \<and>
    currentState (snd (release n s)) = se_state (desiredState s) \<and>
    se_action (desiredState (snd (release n s))) = SSA_UNDEFINED \<and>
    consistent (currentState (snd (release n s))) (stateList (snd (release n s))) \<and>
    (case se_client (desiredState s) of None \<Rightarrow> True | Some q \<Rightarrow> Answer q SMART_OK [] \<in> set (trace (snd (release n s))))"
proof -
  have c: "cons_inv s" by (rule reachable_cons [OF assms(1)])
  then have i: "slave_inv s" and cs: "consistent (currentState s) (stateList s)" and cl: "clean s"
    by (auto simp: cons_inv_def)
  note d = slave_distinct [OF i]
  have il: "i < length (stateList s)" using find_sub_SomeD(1) [OF assms(4) d] .
  have p: "\<not> idle s" using assms(3) by (simp add: idle_def)
  then have ne: "desired s \<noteq> currentState s" "changeable s" and nd: "\<not> deactivation (desired s)"
    using i cl by (auto simp: slave_inv_def pending_ok_def clean_def)
  have act: "sub_state (stateList s ! i) = STATE_ACTIVATED"
    using cs assms(6) il by (simp add: consistent_nth)
  let ?s = "add_cnt (-1) i s"
  have r: "release n s = (SMART_OK, updateState ?s)"
    using assms(2,4,5) act by (simp add: release_def release_cnt_def)
  have d': "distinct (map sub_name (stateList ?s))" using d by (simp add: map_fst_shape del: map_map)
  have "changeable ?s" using ne(2) by (simp add: changeable_def valid_main_def list_ex_length)
  moreover have "\<not> blocked ?s"
    using assms(5,7) by (auto simp: blocked_nth add_cnt_nth)
  ultimately have u: "updateState ?s = perform_change (mark_actions ?s)"
    using p ne(1) by (simp add: updateState_cases)
  have "consistent (currentState (updateState ?s)) (stateList (updateState ?s))"
    by (rule updateState_consistent [OF d']) (use cs nd in simp_all)
  then show ?thesis
    unfolding r using nd by (auto simp: u perform_eq [OF d'] target_state_def deactivation_def answer_events_def
        split: option.split)
qed

lemma pending_reachable': "reachable no_deactivation pending_slave"
  unfolding pending_slave_def
  by (intro reachable_fold reachable.start) (simp add: setup_ops_def)

lemma pending_nth: "find_sub ''motor'' (stateList pending_slave) = Some 5 \<and> cnt (stateList pending_slave ! 5) = 1 \<and>
  currentState pending_slave \<in> set (mainstates (stateList pending_slave ! 5)) \<and> length (stateList pending_slave) = 7 \<and>
  list_all (\<lambda>j. j \<noteq> 5 \<longrightarrow> cnt (stateList pending_slave ! j) = 0) [0..<7]"
  by code_simp

theorem release_completes_change_witness:
  "fst (release ''motor'' pending_slave) = SMART_OK \<and>
    currentState (snd (release ''motor'' pending_slave)) = se_state (desiredState pending_slave) \<and>
    se_action (desiredState (snd (release ''motor'' pending_slave))) = SSA_UNDEFINED \<and>
    consistent (currentState (snd (release ''motor'' pending_slave))) (stateList (snd (release ''motor'' pending_slave))) \<and>
    (case se_client (desiredState pending_slave) of None \<Rightarrow> True | Some q \<Rightarrow>
      Answer q SMART_OK [] \<in> set (trace (snd (release ''motor'' pending_slave))))"
  by (rule release_completes_change [OF pending_reachable']) (use pending_eval pending_nth in \<open>auto simp: list_all_iff\<close>)

text \<open>C26: Start-up. From the freshly activated slave, \<open>setWaitState("Alive")\<close> blocks until the update thread has performed
  the change to \<open>Alive\<close>, then queues the configured initial state and blocks until the thread has performed that; the call
  then returns OK, with the component in its initial state. Each wait is woken through the condition of its request.\<close>

theorem startup_reaches_initial_state:
  assumes "reachable any_op s" "running s" "thread_running s" "stateQueue s = []" "currentState s = ''Init''"
    and "\<forall>e \<in> set (stateList s). cnt e = 0" "valid_main (initialState s) (stateList s)" "initialState s \<noteq> ''Shutdown''"
  shows "\<exists>c. fst (setWaitState ''Alive'' s) = Block (WaitChange ''Alive'' c) \<and>
    (let s1 = exec OpThread (exec (OpSetWait ''Alive'') s); s2 = exec (OpResume (WaitChange ''Alive'' c)) s1; s3 = exec OpThread s2 in
       currentState s1 = ''Alive'' \<and> NotifyReq c \<in> set (trace s1) \<and>
       fst (resume (WaitChange ''Alive'' c) s1) = Block (WaitInitial c) \<and>
       currentState s3 = initialState s \<and> (\<exists>t. trace s3 = trace s2 @ t \<and> NotifyReq c \<in> set t) \<and>
       fst (resume (WaitInitial c) s3) = Return SMART_OK)"
proof -
  let ?c = "next_cond s"
  let ?e = "\<lambda>m. \<lparr>se_action = SSA_CHANGE_STATE, se_state = m, se_client = None, se_cond = ?c\<rparr>"
  let ?s0 = "s\<lparr>next_cond := Suc ?c, stateQueue := [?e ''Alive'']\<rparr>"
  note i = reachable_inv [OF assms(1)]
  note d = slave_distinct [OF i]
  have w: "setWaitState ''Alive'' s = (Block (WaitChange ''Alive'' ?c), ?s0)"
    using assms(2,4,5) by (simp add: setWaitState_def wait_change_def push_front_def new_entry_def)
  have d0: "distinct (map sub_name (stateList ?s0))" "distinct (map sub_name (stateList (dequeued ?s0)))" using d by simp_all
  define s1 where "s1 = exec OpThread (exec (OpSetWait ''Alive'') s)"
  have s1: "s1 = perform_change (mark_actions (dequeued ?s0))"
    using on_execute_dequeued [OF d0(1)] assms(3,5,6)
    by (simp add: s1_def w updateState_cases idle_def changeable_def blocked_def)
  have s1w: "exec OpThread ?s0 = s1" by (simp add: s1_def w)
  have f1: "currentState s1 = ''Alive''" "NotifyReq ?c \<in> set (trace s1)" "running s1" "thread_running s1" "stateQueue s1 = []"
    "initialState s1 = initialState s" "stateList s1 = map (switched ''Init'' ''Alive'') (stateList s)"
    using assms(2,3,5) by (simp_all add: s1 perform_eq [OF d0(2)] target_state_def)
  let ?s2 = "s1\<lparr>stateQueue := [?e (initialState s)]\<rparr>"
  have s2: "exec (OpResume (WaitChange ''Alive'' ?c)) s1 = ?s2"
    using f1 by (simp add: setWaitState_resume_def)
  have d2: "distinct (map sub_name (stateList ?s2))" "distinct (map sub_name (stateList (dequeued ?s2)))"
    using d f1(7) by (simp_all add: comp_def)
  have na: "initialState s \<noteq> ''Alive''" "\<not> deactivation (initialState s)"
    using i by (auto simp: inv_defs known_main_def layout_of_def reserved_main_def deactivation_def)
  have "changeable (dequeued ?s2)" "\<not> blocked (dequeued ?s2)"
    using assms(6,7) f1(7) by (auto simp: changeable_def valid_main_def list_ex_iff blocked_def)
  then have s3: "exec OpThread ?s2 = perform_change (mark_actions (dequeued ?s2))"
    using on_execute_dequeued [OF d2(1)] f1 na by (simp add: updateState_cases idle_def)
  have "currentState (exec OpThread ?s2) = initialState s"
    "\<exists>t. trace (exec OpThread ?s2) = trace ?s2 @ t \<and> NotifyReq ?c \<in> set t"
    unfolding s3 perform_eq [OF d2(2)] using na assms(8)
    by (simp_all add: target_state_def deactivation_def) (simp add: dequeued_def Let_def)
  then show ?thesis
    using f1 w s2 s1w by (intro exI [of _ ?c]) (simp add: Let_def setWaitState_resume_def del: exec.simps(5,10))
qed

definition ready_slave :: slave where
  "ready_slave = fold exec [OpDefine ''Work'' ''motor'', OpSetInitial ''Work'', OpActivate] (new_slave False)"

lemma ready_reachable: "reachable any_op ready_slave"
  unfolding ready_slave_def
  by (intro reachable_fold reachable.start) (simp add: any_op_def)

lemma ready_eval: "running ready_slave \<and> thread_running ready_slave \<and> stateQueue ready_slave = [] \<and>
  currentState ready_slave = ''Init'' \<and> list_all (\<lambda>e. cnt e = 0) (stateList ready_slave) \<and>
  valid_main ''Work'' (stateList ready_slave) \<and> initialState ready_slave = ''Work''"
  by code_simp

theorem startup_reaches_initial_state_witness:
  "\<exists>c. fst (setWaitState ''Alive'' ready_slave) = Block (WaitChange ''Alive'' c) \<and>
    (let s1 = exec OpThread (exec (OpSetWait ''Alive'') ready_slave); s2 = exec (OpResume (WaitChange ''Alive'' c)) s1; s3 = exec OpThread s2 in
       currentState s1 = ''Alive'' \<and> NotifyReq c \<in> set (trace s1) \<and>
       fst (resume (WaitChange ''Alive'' c) s1) = Block (WaitInitial c) \<and>
       currentState s3 = initialState ready_slave \<and> (\<exists>t. trace s3 = trace s2 @ t \<and> NotifyReq c \<in> set t) \<and>
       fst (resume (WaitInitial c) s3) = Return SMART_OK)"
  by (rule startup_reaches_initial_state [OF ready_reachable]) (use ready_eval in \<open>simp_all add: list_all_iff\<close>)

text \<open>What defining does to the rows of the state table, of which only the main states can change.\<close>

definition bind_row :: "string \<Rightarrow> string \<Rightarrow> sub_entry \<Rightarrow> sub_entry" where
  "bind_row m n e = (if sub_name e = n then e\<lparr>mainstates := insert_end m (mainstates e)\<rparr> else e)"

definition bind_rows :: "string \<Rightarrow> string \<Rightarrow> sub_entry list \<Rightarrow> sub_entry list" where
  "bind_rows m n es = (if n \<in> set (map sub_name es) then map (bind_row m n) es
     else es @ [\<lparr>mainstates = [m], sub_name = n, cnt = 0, sub_act = STATE_ACTION_NONE, sub_state = STATE_DEACTIVATED\<rparr>])"

lemma define_main_rows:
  assumes "table_ok (map shape es)" "''nonneutral'' \<in> sub_name ` set es"
  shows "define_main m es = (SMART_OK, map (bind_row m ''nonneutral'') es)"
proof -
  obtain i where i: "find_sub ''nonneutral'' es = Some i"
    using assms(2) find_sub_None [of "''nonneutral''" es] by auto
  have d: "distinct (map sub_name es)" using assms(1) by (simp add: table_ok_def map_fst_shape)
  have "define_main m es = bind_main m i es"
    using find_sub_SomeD(3) [OF i d] by (simp add: define_main_def i)
  with bind_main_spec [OF i assms(1), of m] show ?thesis by (simp add: prod_eq_iff bind_row_def [abs_def])
qed

lemma define_sub_rows:
  assumes "table_ok (map shape es)"
  shows "define_sub m n es = (SMART_OK, bind_rows m n es)"
proof (cases "find_sub n es")
  case None
  then have "n \<notin> set (map sub_name es)" using find_sub_None by fastforce
  with None show ?thesis by (simp add: define_sub_def bind_rows_def new_sub_def)
next
  case (Some i)
  have d: "distinct (map sub_name es)" using assms by (simp add: table_ok_def map_fst_shape)
  have "define_sub m n es = bind_main m i es"
    using find_sub_SomeD(3) [OF Some d] by (simp add: define_sub_def Some)
  moreover have "n \<in> set (map sub_name es)" using find_sub_SomeD(1,2) [OF Some d] by auto
  ultimately show ?thesis using bind_main_spec [OF Some assms, of m]
    by (simp add: prod_eq_iff bind_rows_def bind_row_def [abs_def])
qed

text \<open>C29: Defining states. Before activation, \<open>defineStates\<close> with names that are not reserved succeeds and changes nothing
  but the state table, row by row: the main state is added to the main states of \<open>nonneutral\<close> and of the substate,
  at the end and only once; a substate that is new gets a new last row, deactivated, unused and with this main state
  only; counts, modes and actions of all rows, the other rows and the first four built-in ones stay as they are.\<close>

theorem define_states_refines:
  assumes "reachable any_op s" "\<not> running s" "m \<notin> set reserved_main" "n \<notin> set reserved_sub"
  shows "defineStates m n s = (SMART_OK, s\<lparr>stateList := bind_rows m n (map (bind_row m ''nonneutral'') (stateList s))\<rparr>) \<and>
    take 4 (stateList (snd (defineStates m n s))) = take 4 (stateList s)"
proof -
  have i: "slave_inv s" by (rule reachable_inv [OF assms(1)])
  then obtain ms us where l: "layout_of ms us (stateList s)" by (auto simp: inv_defs layout_def)
  note t = layout_of_table [OF l]
  have "''nonneutral'' \<in> fst ` set (map shape (stateList s))" using l by (auto simp: layout_of_def base_shapes_def)
  then have nn: "''nonneutral'' \<in> sub_name ` set (stateList s)" using names_shape by blast
  note main = define_main_rows [OF t nn, of m]
  have "table_ok (map shape (snd (define_main m (stateList s))))"
    by (simp only: define_main_spec(2) [OF t nn] table_ok_bind t)
  from define_sub_rows [OF this, of m n] main
  have def: "defineStates m n s = (SMART_OK, s\<lparr>stateList := bind_rows m n (map (bind_row m ''nonneutral'') (stateList s))\<rparr>)"
    using assms(2-4) by (simp add: defineStates_def)
  have "map fst (map shape (stateList s)) = map fst (base_shapes ms @ us)" using l by (simp add: layout_of_def)
  then have names: "map sub_name (stateList s) = [''init'', ''neutral'', ''fatalError'', ''shutdown'', ''nonneutral''] @ map fst us"
    by (simp add: map_fst_shape base_shapes_def del: map_map)
  from arg_cong [OF names, of length] have four: "4 \<le> length (stateList s)" by simp
  have "map sub_name (take 4 (stateList s)) = [''init'', ''neutral'', ''fatalError'', ''shutdown'']"
    by (simp only: take_map [symmetric] names) simp
  from arg_cong [OF this, of set]
  have first: "sub_name ` set (take 4 (stateList s)) = {''init'', ''neutral'', ''fatalError'', ''shutdown''}" by simp
  have "bind_row m k e = e" if "e \<in> set (take 4 (stateList s))" "k \<notin> {''init'', ''neutral'', ''fatalError'', ''shutdown''}" for e k
  proof -
    have "sub_name e \<noteq> k" using that imageI [OF that(1), of sub_name] unfolding first by metis
    then show ?thesis by (simp add: bind_row_def)
  qed
  moreover have "n \<notin> {''init'', ''neutral'', ''fatalError'', ''shutdown''}" using assms(4) by (auto simp: reserved_sub_def)
  ultimately have "bind_row m n (bind_row m ''nonneutral'' e) = e \<and> bind_row m ''nonneutral'' e = e" if "e \<in> set (take 4 (stateList s))" for e
    using that by simp
  then have "take 4 (map (\<lambda>e. bind_row m n (bind_row m ''nonneutral'' e)) (stateList s)) = take 4 (stateList s)"
    "take 4 (map (bind_row m ''nonneutral'') (stateList s)) = take 4 (stateList s)"
    by (auto simp: take_map intro!: map_idI)
  then show ?thesis using four unfolding def by (simp add: bind_rows_def comp_def)
qed

theorem define_states_refines_witness:
  "defineStates ''Work'' ''motor'' (new_slave True) =
     (SMART_OK, (new_slave True)\<lparr>stateList := bind_rows ''Work'' ''motor'' (map (bind_row ''Work'' ''nonneutral'') (stateList (new_slave True)))\<rparr>) \<and>
   take 4 (stateList (snd (defineStates ''Work'' ''motor'' (new_slave True)))) = take 4 (stateList (new_slave True))"
  by (rule define_states_refines [OF reachable.start])
    (simp_all add: new_slave_def reserved_main_def reserved_sub_def)

lemma query_then_thread:
  assumes "slave_inv s" "running s" "thread_running s" "stateQueue s = []"
    and "m \<notin> set not_commandable" "m \<noteq> ''Shutdown''" "currentState s \<notin> {''Init'', ''Shutdown'', ''FatalError''}"
  obtains s' where "exec OpThread (exec (OpQuery q 1 m) s) = updateState s'" "stateList s' = stateList s"
    "currentState s' = currentState s" "running s'" "thread_running s'" "stateQueue s' = []"
    "desiredState s' = \<lparr>se_action = SSA_CHANGE_STATE, se_state = m, se_client = Some q, se_cond = next_cond s\<rparr>"
proof -
  let ?e = "\<lparr>se_action = SSA_CHANGE_STATE, se_state = m, se_client = Some q, se_cond = next_cond s\<rparr>"
  let ?s = "s\<lparr>next_cond := Suc (next_cond s), stateQueue := [?e]\<rparr>"
  have q: "exec (OpQuery q 1 m) s = ?s"
    using assms(2,4-7) by (simp add: handleQuery_def hndSetMainState_def new_entry_def)
  have "exec OpThread ?s = updateState (dequeued ?s)"
    using on_execute_dequeued [of ?s] slave_distinct [OF assms(1)] assms(3) by simp
  with that [of "dequeued ?s"] q assms(2,3,6) show ?thesis by simp
qed

lemma exec_current:
  assumes "slave_inv s"
  shows "currentState (exec op s) = currentState s \<or> (\<exists>d. currentState (exec op s) = target_state d)"
proof -
  note d = slave_distinct [OF assms]
  show ?thesis
  proof (cases op)
    case (OpRelease n)
    have "currentState (snd (release_cnt n s)) = currentState s \<and> distinct (map sub_name (stateList (snd (release_cnt n s))))"
      using release_cnt_list [of n s] d by (auto simp: map_fst_shape simp del: map_map)
    then show ?thesis using OpRelease updateState_current [of "snd (release_cnt n s)"]
      by (auto simp: release_def split_beta)
  next
    case OpThread
    then show ?thesis using updateState_current [of "dequeued s"] on_execute_dequeued [OF d] on_execute_stays [of s] d
      by (cases "thread_running s \<and> stateQueue s \<noteq> []") auto
  next
    case (OpDefine m n)
    then show ?thesis using defineStates_frame [of m n s] by simp
  next
    case (OpAcquire n)
    then show ?thesis using acquire_list [of n s] by auto
  next
    case (OpTryAcquire n)
    then show ?thesis using tryAcquire_list [of n s] by auto
  next
    case (OpResume p)
    then show ?thesis
      by (cases p) (auto simp: acquire_changed_def acquire_activated_def setWaitState_resume_def)
  qed (auto simp: setUpInitialState_def activate_def split: option.split)
qed

lemma current_no_deactivation: "reachable D s \<Longrightarrow> \<not> deactivation (currentState s)"
proof (induction rule: reachable.induct)
  case (start h)
  then show ?case by (simp add: new_slave_def deactivation_def)
next
  case (step s op)
  then show ?case using exec_current [OF reachable_inv [OF step(1)], of op]
    by (auto simp: target_state_def deactivation_def split: if_splits)
qed

lemma layout_mains:
  assumes "layout_of ms us es" "e \<in> set es"
  shows "set (mainstates e) \<subseteq> {''Init'', ''Neutral'', ''FatalError'', ''Shutdown''} \<union> set ms"
proof -
  have eq: "map shape es = base_shapes ms @ us" using assms(1) by (simp add: layout_of_def)
  have "shape e \<in> set (map shape es)" using assms(2) by simp
  then have "shape e \<in> set (base_shapes ms) \<or> shape e \<in> set us" by (simp only: eq set_append) blast
  moreover have "set (snd u) \<subseteq> set ms" if "u \<in> set us" for u using assms(1) that by (simp add: layout_of_def)
  ultimately show ?thesis by (force simp: shape_def base_shapes_def)
qed

text \<open>A request to deactivate ends in a state outside the invariant: the component is in the main state \<open>Neutral\<close> with
  every substate deactivated, the substate \<open>neutral\<close> of that main state included, and a later request for \<open>Neutral\<close> is
  answered OK without activating anything.\<close>

theorem deactivation_leaves_neutral_inactive:
  assumes "reachable no_deactivation s" "running s" "thread_running s" "stateQueue s = []"
    and "currentState s \<notin> {''Init'', ''Shutdown'', ''FatalError''}" "m = ''Deactivated'' \<or> m = ''deactivated''"
    and "\<forall>e \<in> set (stateList s). currentState s \<in> set (mainstates e) \<longrightarrow> cnt e = 0"
    and "s1 = exec OpThread (exec (OpQuery q 1 m) s)" "s2 = exec OpThread (exec (OpQuery r 1 ''Neutral'') s1)"
  shows "currentState s1 = ''Neutral'' \<and> (\<forall>e \<in> set (stateList s1). sub_state e = STATE_DEACTIVATED) \<and>
    stateList s2 = stateList s1 \<and> (\<exists>t. trace s2 = t @ [Answer r SMART_OK []])"
proof -
  have c: "cons_inv s" by (rule reachable_cons [OF assms(1)])
  then have i: "slave_inv s" and cs: "consistent (currentState s) (stateList s)" by (auto simp: cons_inv_def)
  have rm: "''Deactivated'' \<in> set reserved_main" "''deactivated'' \<in> set reserved_main" by (simp_all add: reserved_main_def)
  obtain ms us where l: "layout_of ms us (stateList s)" using i by (auto simp: inv_defs layout_def)
  have nm: "m \<notin> set (mainstates e)" if "e \<in> set (stateList s)" for e
    using layout_mains [OF l that] l rm assms(6) by (auto simp: layout_of_def)
  have "m \<notin> set not_commandable" "m \<noteq> ''Shutdown''" using assms(6) by (auto simp: not_commandable_def)
  from query_then_thread [OF i assms(2-4) this assms(5), of q] obtain s' where s': "s1 = updateState s'"
    "stateList s' = stateList s" "currentState s' = currentState s" "running s'" "thread_running s'" "stateQueue s' = []"
    "desiredState s' = \<lparr>se_action = SSA_CHANGE_STATE, se_state = m, se_client = Some q, se_cond = next_cond s\<rparr>"
    using assms(8) by metis
  have cur: "currentState s \<noteq> m"
    using current_no_deactivation [OF assms(1)] assms(6) by (auto simp: deactivation_def)
  have d: "distinct (map sub_name (stateList s'))" using slave_distinct [OF i] s' by simp
  have s1: "s1 = perform_change (mark_actions s')"
    using s' cur assms(6,7) by (auto simp: updateState_cases idle_def changeable_def blocked_def)
  then have f: "currentState s1 = ''Neutral''" "stateList s1 = map (switched (currentState s) m) (stateList s)"
    "running s1" "thread_running s1" "stateQueue s1 = []"
    using s' assms(6) by (auto simp: perform_eq [OF d] target_state_def)
  then have off: "\<forall>e \<in> set (stateList s1). sub_state e = STATE_DEACTIVATED"
    using nm cs by (auto simp: switched_state consistent_def sub_mode_cases)
  have i1: "slave_inv s1"
  proof -
    have "slave_inv (exec (OpQuery q 1 m) s)" by (rule exec_inv [OF i]) simp
    then show ?thesis unfolding assms(8) by (rule exec_inv) simp
  qed
  have "''Neutral'' \<notin> set not_commandable" "''Neutral'' \<noteq> ''Shutdown''"
    "currentState s1 \<notin> {''Init'', ''Shutdown'', ''FatalError''}"
    using f(1) by (simp_all add: not_commandable_def)
  from query_then_thread [OF i1 f(3-5) this, of r] obtain s'' where s'': "s2 = updateState s''"
    "stateList s'' = stateList s1" "currentState s'' = currentState s1"
    "desiredState s'' = \<lparr>se_action = SSA_CHANGE_STATE, se_state = ''Neutral'', se_client = Some r, se_cond = next_cond s1\<rparr>"
    using assms(9) by metis
  then have s2: "s2 = settled SMART_OK s''" using f(1) by (simp add: updateState_cases idle_def)
  show ?thesis unfolding s2 using s''(2-4) f(1) off by (simp add: settled_def answer_events_def)
qed

theorem deactivation_leaves_neutral_inactive_witness:
  "let s1 = exec OpThread (exec (OpQuery 9 1 ''Deactivated'') (exec OpThread queued_slave));
       s2 = exec OpThread (exec (OpQuery 10 1 ''Neutral'') s1) in
   currentState s1 = ''Neutral'' \<and> (\<forall>e \<in> set (stateList s1). sub_state e = STATE_DEACTIVATED) \<and>
    stateList s2 = stateList s1 \<and> (\<exists>t. trace s2 = t @ [Answer 10 SMART_OK []])"
  unfolding Let_def
proof (rule deactivation_leaves_neutral_inactive [OF _ _ _ _ _ _ _ refl refl])
  show "reachable no_deactivation (exec OpThread queued_slave)"
    by (rule reachable.step [OF queued_reachable]) simp_all
qed (use queued0_eval in \<open>simp_all add: list_all_iff\<close>)

text \<open>A request that waits for a substate to be released is lost when the next request arrives: the update thread
  overwrites it, and its master is never answered (the query leaves the multiset of answered and open queries).\<close>

theorem pending_request_overwritten:
  assumes "reachable any_op s" "thread_running s" "stateQueue s \<noteq> []" "se_client (desiredState s) = Some q"
  shows "known_queries s = add_mset q (known_queries (exec OpThread s))"
proof -
  note d = slave_distinct [OF reachable_inv [OF assms(1)]]
  obtain p ps where p: "stateQueue s = p # ps" using assms(3) by (cases "stateQueue s") auto
  have "exec OpThread s = updateState (dequeued s)" using on_execute_dequeued [OF d assms(2,3)] by simp
  then have "known_queries (exec OpThread s) = known_queries (dequeued s)"
    using d by (simp only:) (rule updateState_queries, simp)
  then show ?thesis using p assms(4)
    by (simp add: known_queries_def open_queries_def opt_mset_def) (simp add: dequeued_def Let_def)
qed

theorem pending_request_overwritten_witness:
  "known_queries (exec (OpQuery 9 1 ''Neutral'') pending_slave) =
    add_mset 8 (known_queries (exec OpThread (exec (OpQuery 9 1 ''Neutral'') pending_slave)))"
proof (rule pending_request_overwritten)
  show "reachable any_op (exec (OpQuery 9 1 ''Neutral'') pending_slave)"
    by (rule reachable.step [OF pending_reachable]) (simp_all add: any_op_def)
  show "stateQueue (exec (OpQuery 9 1 ''Neutral'') pending_slave) \<noteq> []"
    using pending_eval by (simp add: handleQuery_def hndSetMainState_def new_entry_def not_commandable_def)
qed (use pending_eval in simp_all)

text \<open>A \<open>setWaitState\<close> caller whose request names the state that is already current when the update thread takes it is
  not woken: the thread drops the request without notifying its condition (two threads that both ask for \<open>FatalError\<close>
  reach this).\<close>

theorem waiter_of_current_state_not_woken:
  assumes "reachable any_op s" "thread_running s" "stateQueue s = q # qs" "se_state q = currentState s"
  shows "NotifyReq c \<in> set (trace (exec OpThread s)) \<longleftrightarrow> NotifyReq c \<in> set (trace s)"
proof -
  note i = reachable_inv [OF assms(1)]
  have "exec OpThread s = updateState (dequeued s)"
    using on_execute_dequeued [OF slave_distinct [OF i] assms(2)] assms(3) by simp
  moreover have "updateState (dequeued s) = settled SMART_OK (dequeued s)"
    using inv_queueD [OF i, of q] assms(3,4) by (simp add: updateState_cases idle_def)
  ultimately show ?thesis
    by (auto simp: settled_def answer_events_def dequeued_def Let_def split: option.splits if_splits)
qed

definition double_wait :: slave where
  "double_wait = fold exec (setup_ops @ [OpSetWait ''FatalError'', OpSetWait ''FatalError'', OpThread]) (new_slave False)"

lemma double_wait_eval: "thread_running double_wait \<and> currentState double_wait = ''FatalError'' \<and>
   stateQueue double_wait = [\<lparr>se_action = SSA_CHANGE_STATE, se_state = ''FatalError'', se_client = None, se_cond = 2\<rparr>]"
  by code_simp

theorem waiter_of_current_state_not_woken_witness:
  "NotifyReq 2 \<in> set (trace (exec OpThread double_wait)) \<longleftrightarrow> NotifyReq 2 \<in> set (trace double_wait)"
proof (rule waiter_of_current_state_not_woken [where qs = "[]" and
      q = "\<lparr>se_action = SSA_CHANGE_STATE, se_state = ''FatalError'', se_client = None, se_cond = 2\<rparr>"])
  show "reachable any_op double_wait"
    unfolding double_wait_def by (intro reachable_fold reachable.start) (simp add: setup_ops_def any_op_def)
qed (simp_all add: double_wait_eval)

text \<open>The error state is left again by a request that was queued before it: after \<open>FatalError\<close> (put at the front of the
  queue) the update thread goes on with the next entry and changes to it, although only \<open>Shutdown\<close> is allowed from there.\<close>

theorem fatal_error_left:
  "\<exists>s. reachable any_op s \<and> currentState s = ''FatalError'' \<and> currentState (exec OpThread s) = ''Work''"
proof -
  let ?ops = "setup_ops @ [OpQuery 7 1 ''Work'', OpSetWait ''FatalError'', OpThread]"
  have "reachable any_op (fold exec ?ops (new_slave False))"
    by (intro reachable_fold reachable.start) (simp add: setup_ops_def any_op_def)
  moreover have "currentState (fold exec ?ops (new_slave False)) = ''FatalError'' \<and>
      currentState (exec OpThread (fold exec ?ops (new_slave False))) = ''Work''"
    by code_simp
  ultimately show ?thesis by blast
qed

end
