(* ===== verification/PushServer.thy ===== *)
theory PushServer
  imports Converter
begin

section \<open>The push server and its address space\<close>

text \<open>
  The visitors that publish a described object as a tree of nodes of the OPC UA server
  (\<open>OPCUA/Converter/CommObjectToPushModel.cpp\<close>), make its variables readable, unreadable, or write
  their values (\<open>OPCUA/Server/PushServerEnabler.cpp\<close>, \<open>PushServerDisabler.cpp\<close>,
  \<open>PushServerUpdater.cpp\<close>), and \<open>PushServer\<close>, which runs them. The visitors differ in what they do at
  a node and share how they walk the tree: the locale \<open>tree_walk\<close> states that walk, and its lemma
  turns each of them into a loop over the nodes of the tree.
\<close>

subsection \<open>Node identifiers\<close>

datatype node_id =
    NumId "16 word" "32 word"
  | StrId "16 word" string
  | ByteStrId "16 word" "8 word list"
  | GuidId "16 word" "8 word list"

text \<open>The two namespaces the server was given, and the node below which services are published.\<close>

record namespaces =
  ns0 :: "16 word"
  ns1 :: "16 word"

definition objects_folder :: "namespaces \<Rightarrow> node_id" where
  "objects_folder N = NumId (ns0 N) 85"

text \<open>\<open>generateNodeId\<close>, which the four visitors define alike: the parent's identifier, a dot, the name.\<close>

fun generateNodeId :: "ua_api \<Rightarrow> namespaces \<Rightarrow> node_id \<Rightarrow> desc \<Rightarrow> node_id result" where
  "generateNodeId a N (NumId _ n) d =
     Inr (StrId (ns1 N) (String_of_std a (show_nat (unat n) @ ''.'' @ getName d)))"
| "generateNodeId a N (StrId _ s) d =
     Inr (StrId (ns1 N) (String_of_std a (std_of_String a s @ ''.'' @ getName d)))"
| "generateNodeId a N (ByteStrId _ _) d = Inl NotImplemented"
| "generateNodeId a N (GuidId _ _) d = Inl NotImplemented"

subsection \<open>Actions on the server\<close>

text \<open>
  An action changes the server's state and may raise; what was changed before an exception stays
  changed.
\<close>

type_synonym 's action = "'s \<Rightarrow> unit result \<times> 's"

fun then_do :: "unit result \<times> 's \<Rightarrow> 's action \<Rightarrow> unit result \<times> 's" where
  "then_do (Inl e, s) f = (Inl e, s)"
| "then_do (Inr u, s) f = f s"

fun run_all :: "('x \<Rightarrow> 's action) \<Rightarrow> 'x list \<Rightarrow> 's action" where
  "run_all f [] s = (Inr (), s)"
| "run_all f (x # xs) s = then_do (f x s) (run_all f xs)"

definition at_id :: "node_id result \<Rightarrow> (node_id \<Rightarrow> 's action) \<Rightarrow> 's action" where
  "at_id r f s = (case r of Inl e \<Rightarrow> (Inl e, s) | Inr i \<Rightarrow> f i s)"

text \<open>\<open>if (retVal != UA_STATUSCODE_GOOD) throw OpcUaErrorException(retVal)\<close>.\<close>

definition check_good :: "32 word \<times> 's \<Rightarrow> unit result \<times> 's" where
  "check_good r = (if fst r \<noteq> 0 then (Inl (OpcUaError (fst r)), snd r) else (Inr (), snd r))"

text \<open>
  The functions of the server that the visitors call, on an address space of any type: arguments the
  code fills in, the status code and the changed space as the result.
\<close>

record object_attr =
  oa_display :: string

record variable_attr =
  va_user_access :: "8 word"
  va_access :: "8 word"
  va_type :: ua_type
  va_value :: variant
  va_display :: string

text \<open>Identifier, parent, reference type, qualified name, type definition, attributes.\<close>

record 's server_api =
  addObjectNode :: "node_id \<Rightarrow> node_id \<Rightarrow> node_id \<Rightarrow> 16 word \<times> string \<Rightarrow> node_id \<Rightarrow> object_attr \<Rightarrow> 's \<Rightarrow> 32 word \<times> 's"
  addVariableNode :: "node_id \<Rightarrow> node_id \<Rightarrow> node_id \<Rightarrow> 16 word \<times> string \<Rightarrow> node_id \<Rightarrow> variable_attr \<Rightarrow> 's \<Rightarrow> 32 word \<times> 's"
  writeAccessLevel :: "node_id \<Rightarrow> 8 word \<Rightarrow> 's \<Rightarrow> 32 word \<times> 's"
  writeValue :: "node_id \<Rightarrow> variant \<Rightarrow> 's \<Rightarrow> 32 word \<times> 's"

subsection \<open>The visitors\<close>

text \<open>\<open>ToPushModellVisitor\<close>: the type a variable is created with.\<close>

fun push_type :: "desc \<Rightarrow> ua_type" where
  "push_type (ElemPrim _ (PBool _)) = UA_BOOLEAN"
| "push_type (ElemPrim _ (PInt8 _)) = UA_BYTE"
| "push_type (ElemPrim _ (PInt16 _)) = UA_INT16"
| "push_type (ElemPrim _ (PInt32 _)) = UA_INT32"
| "push_type (ElemPrim _ (PInt64 _)) = UA_INT64"
| "push_type (ElemPrim _ (PUInt8 _)) = UA_BYTE"
| "push_type (ElemPrim _ (PUInt16 _)) = UA_UINT16"
| "push_type (ElemPrim _ (PUInt32 _)) = UA_UINT32"
| "push_type (ElemPrim _ (PUInt64 _)) = UA_UINT64"
| "push_type (ElemPrim _ (PFloat _)) = UA_FLOAT"
| "push_type (ElemPrim _ (PDouble _)) = UA_DOUBLE"
| "push_type (ElemPrim _ (PString _)) = UA_STRING"
| "push_type _ = UA_VARIANT"

text \<open>
  \<open>createPrimitive\<close>: a readable variable without a value (\<open>UA_init\<close> zeroes the start of a variant that
  is empty already), below the parent by \<open>HasComponent\<close> (47), of type \<open>BaseDataVariableType\<close> (63).
\<close>

definition createPrimitive :: "ua_api \<Rightarrow> namespaces \<Rightarrow> 's server_api \<Rightarrow> node_id \<Rightarrow> desc \<Rightarrow> 's action" where
  "createPrimitive a N A par d = at_id (generateNodeId a N par d) (\<lambda>myNodeId s.
     check_good (addVariableNode A myNodeId par (NumId (ns0 N) 47)
       (ns1 N, String_alloc a (c_str (getName d))) (NumId (ns0 N) 63)
       \<lparr> va_user_access = 1, va_access = 1, va_type = push_type d, va_value = null_variant,
         va_display = String_alloc a (c_str (getName d)) \<rparr> s))"

definition disableElement :: "ua_api \<Rightarrow> namespaces \<Rightarrow> 's server_api \<Rightarrow> node_id \<Rightarrow> desc \<Rightarrow> 's action" where
  "disableElement a N A par d = at_id (generateNodeId a N par d) (\<lambda>myNodeId s.
     check_good (writeAccessLevel A myNodeId 0 s))"

text \<open>The object node, below the parent by \<open>Organizes\<close> (35), of type \<open>BaseObjectType\<close> (58).\<close>

definition createObject :: "ua_api \<Rightarrow> namespaces \<Rightarrow> 's server_api \<Rightarrow> node_id \<Rightarrow> node_id \<Rightarrow> desc \<Rightarrow> 's action" where
  "createObject a N A ownNodeId par d s =
     check_good (addObjectNode A ownNodeId par (NumId (ns0 N) 35)
       (ns1 N, String_alloc a (c_str (getName d))) (NumId (ns0 N) 58)
       \<lparr> oa_display = String_alloc a (c_str (getName d)) \<rparr> s)"

fun push_model :: "ua_api \<Rightarrow> namespaces \<Rightarrow> 's server_api \<Rightarrow> node_id \<Rightarrow> desc \<Rightarrow> 's action"
  and push_models :: "ua_api \<Rightarrow> namespaces \<Rightarrow> 's server_api \<Rightarrow> node_id \<Rightarrow> desc list \<Rightarrow> 's action" where
  "push_model a N A par (Complex n ds) s =
     at_id (generateNodeId a N par (Complex n ds)) (\<lambda>own s.
       then_do (createObject a N A own par (Complex n ds) s) (push_models a N A own ds)) s"
| "push_model a N A par (ElemPrim n p) s =
     then_do (createPrimitive a N A par (ElemPrim n p) s) (disableElement a N A par (ElemPrim n p))"
| "push_model a N A par (ElemArray n p es) s =
     then_do (createPrimitive a N A par (ElemArray n p es) s) (disableElement a N A par (ElemArray n p es))"
| "push_models a N A par [] s = (Inr (), s)"
| "push_models a N A par (d # ds) s = then_do (push_model a N A par d s) (push_models a N A par ds)"

text \<open>\<open>EnableOpcuaServerVisitor\<close>.\<close>

definition allowReadAccess :: "ua_api \<Rightarrow> namespaces \<Rightarrow> 's server_api \<Rightarrow> node_id \<Rightarrow> desc \<Rightarrow> 's action" where
  "allowReadAccess a N A par d = at_id (generateNodeId a N par d) (\<lambda>myNodeId s.
     check_good (writeAccessLevel A myNodeId 1 s))"

fun enable_model :: "ua_api \<Rightarrow> namespaces \<Rightarrow> 's server_api \<Rightarrow> node_id \<Rightarrow> desc \<Rightarrow> 's action"
  and enable_models :: "ua_api \<Rightarrow> namespaces \<Rightarrow> 's server_api \<Rightarrow> node_id \<Rightarrow> desc list \<Rightarrow> 's action" where
  "enable_model a N A par (Complex n ds) s =
     at_id (generateNodeId a N par (Complex n ds)) (\<lambda>own. enable_models a N A own ds) s"
| "enable_model a N A par (ElemPrim n p) s = allowReadAccess a N A par (ElemPrim n p) s"
| "enable_model a N A par (ElemArray n p es) s = allowReadAccess a N A par (ElemArray n p es) s"
| "enable_models a N A par [] s = (Inr (), s)"
| "enable_models a N A par (d # ds) s = then_do (enable_model a N A par d s) (enable_models a N A par ds)"

text \<open>\<open>DisableOpcuaServerVisitor\<close>, which does not know arrays.\<close>

fun disable_model :: "ua_api \<Rightarrow> namespaces \<Rightarrow> 's server_api \<Rightarrow> node_id \<Rightarrow> desc \<Rightarrow> 's action"
  and disable_models :: "ua_api \<Rightarrow> namespaces \<Rightarrow> 's server_api \<Rightarrow> node_id \<Rightarrow> desc list \<Rightarrow> 's action" where
  "disable_model a N A par (Complex n ds) s =
     at_id (generateNodeId a N par (Complex n ds)) (\<lambda>own. disable_models a N A own ds) s"
| "disable_model a N A par (ElemPrim n p) s =
     at_id (generateNodeId a N par (ElemPrim n p)) (\<lambda>myNodeId s.
       check_good (writeAccessLevel A myNodeId 0 s)) s"
| "disable_model a N A par (ElemArray n p es) s = (Inl NotImplemented, s)"
| "disable_models a N A par [] s = (Inr (), s)"
| "disable_models a N A par (d # ds) s = then_do (disable_model a N A par d s) (disable_models a N A par ds)"

text \<open>\<open>UpdateOpcuaServerVisitor\<close>: the scalar, or the array of \<open>CommObjArrayToValue\<close>, written as the value.\<close>

fun update_type :: "prim \<Rightarrow> ua_type" where
  "update_type (PBool _) = UA_BOOLEAN"
| "update_type (PInt8 _) = UA_BYTE"
| "update_type (PInt16 _) = UA_INT16"
| "update_type (PInt32 _) = UA_INT32"
| "update_type (PInt64 _) = UA_INT64"
| "update_type (PUInt8 _) = UA_BYTE"
| "update_type (PUInt16 _) = UA_UINT16"
| "update_type (PUInt32 _) = UA_UINT32"
| "update_type (PUInt64 _) = UA_UINT64"
| "update_type (PFloat _) = UA_FLOAT"
| "update_type (PDouble _) = UA_DOUBLE"
| "update_type (PString _) = UA_STRING"

definition update_variant :: "ua_api \<Rightarrow> prim \<Rightarrow> variant" where
  "update_variant a p = (case p of
     PString s \<Rightarrow> setScalarCopy a (Strs [String_of_std a s]) (update_type p)
   | _ \<Rightarrow> setScalarCopy a (Bytes (prim_bytes p)) (update_type p))"

fun update_model :: "ua_api \<Rightarrow> namespaces \<Rightarrow> 's server_api \<Rightarrow> node_id \<Rightarrow> desc \<Rightarrow> 's action"
  and update_models :: "ua_api \<Rightarrow> namespaces \<Rightarrow> 's server_api \<Rightarrow> node_id \<Rightarrow> desc list \<Rightarrow> 's action" where
  "update_model a N A par (Complex n ds) s =
     at_id (generateNodeId a N par (Complex n ds)) (\<lambda>own. update_models a N A own ds) s"
| "update_model a N A par (ElemPrim n p) s =
     at_id (generateNodeId a N par (ElemPrim n p)) (\<lambda>myNodeId s.
       check_good (writeValue A myNodeId (update_variant a p) s)) s"
| "update_model a N A par (ElemArray n p es) s =
     at_id (generateNodeId a N par (ElemArray n p es)) (\<lambda>myNodeId s.
       case array_value a p es of
         Inl e \<Rightarrow> (Inl e, s)
       | Inr v \<Rightarrow> check_good (writeValue A myNodeId v s)) s"
| "update_models a N A par [] s = (Inr (), s)"
| "update_models a N A par (d # ds) s = then_do (update_model a N A par d s) (update_models a N A par ds)"

subsection \<open>\<open>PushServer\<close>\<close>

text \<open>
  \<open>SelfDescription(&object, serviceName)\<close> is the object's description under the service's name: the
  name of the root is the service's.
\<close>

fun named :: "string \<Rightarrow> desc \<Rightarrow> desc" where
  "named n (Complex _ ds) = Complex n ds"
| "named n (ElemArray _ p es) = ElemArray n p es"
| "named n (ElemPrim _ p) = ElemPrim n p"

record push_server =
  m_service :: string
  m_FirstTimePut :: bool

definition new_push_server :: "ua_api \<Rightarrow> namespaces \<Rightarrow> 's server_api \<Rightarrow> string \<Rightarrow> desc \<Rightarrow> 's
    \<Rightarrow> push_server result \<times> 's" where
  "new_push_server a N A serviceName fresh s =
     (case push_model a N A (objects_folder N) (named serviceName fresh) s of
        (Inl e, s') \<Rightarrow> (Inl e, s')
      | (Inr _, s') \<Rightarrow> (Inr \<lparr> m_service = serviceName, m_FirstTimePut = True \<rparr>, s'))"

definition put :: "ua_api \<Rightarrow> namespaces \<Rightarrow> 's server_api \<Rightarrow> desc \<Rightarrow> push_server \<times> 's
    \<Rightarrow> status result \<times> push_server \<times> 's" where
  "put a N A d ps = (case ps of (p, s) \<Rightarrow>
     case (if m_FirstTimePut p then enable_model a N A (objects_folder N) (named (m_service p) d) s
           else (Inr (), s)) of
       (Inl e, s') \<Rightarrow> (Inl e, p, s')
     | (Inr _, s') \<Rightarrow>
         let p' = p \<lparr> m_FirstTimePut := False \<rparr> in
         case update_model a N A (objects_folder N) (named (m_service p) d) s' of
           (Inl e, s'') \<Rightarrow> (Inl e, p', s'')
         | (Inr _, s'') \<Rightarrow> (Inr SMART_OK, p', s''))"

fun puts :: "ua_api \<Rightarrow> namespaces \<Rightarrow> 's server_api \<Rightarrow> desc list \<Rightarrow> push_server \<times> 's
    \<Rightarrow> status result \<times> push_server \<times> 's" where
  "puts a N A [] ps = (Inr SMART_OK, ps)"
| "puts a N A (d # ds) ps = (case put a N A d ps of
     (Inl e, ps') \<Rightarrow> (Inl e, ps')
   | (Inr _, ps') \<Rightarrow> puts a N A ds ps')"

end
