(* ===== verification/PushProperties.thy ===== *)
theory PushProperties
  imports PushServer Roundtrip
begin

section \<open>Correctness of the push server\<close>

text \<open>
  The visitors as loops over the nodes of a described object (the locale \<open>tree_walk\<close>, interpreted on
  the four of them), the uniqueness of the node identifiers, what the server's functions promise
  (\<open>server_ok\<close>), and from these what constructing a push server and putting objects does to the
  address space, with the error paths.
\<close>

subsection \<open>The nodes of a described object\<close>

fun addressable :: "node_id \<Rightarrow> bool" where
  "addressable (NumId _ _) = True"
| "addressable (StrId _ _) = True"
| "addressable _ = False"

fun path_of :: "node_id \<Rightarrow> string" where
  "path_of (NumId _ n) = show_nat (unat n)"
| "path_of (StrId _ s) = s"
| "path_of _ = ''''"

definition child_id :: "namespaces \<Rightarrow> node_id \<Rightarrow> desc \<Rightarrow> node_id" where
  "child_id N par d = StrId (ns1 N) (path_of par @ ''.'' @ getName d)"

lemma generateNodeId_ok [conv_simps]:
  "api_ok a \<Longrightarrow> addressable par \<Longrightarrow> generateNodeId a N par d = Inr (child_id N par d)"
  by (cases par) (auto simp: child_id_def conv_simps)

lemma generateNodeId_not: "\<not> addressable par \<Longrightarrow> generateNodeId a N par d = Inl NotImplemented"
  by (cases par) auto

lemma child_id_props [simp]: "addressable (child_id N par d)" "path_of (child_id N par d) = path_of par @ ''.'' @ getName d"
  "addressable (objects_folder N)"
  by (simp_all add: child_id_def objects_folder_def)

text \<open>Every node with its identifier and its parent's, a parent before its children.\<close>

fun is_complex :: "desc \<Rightarrow> bool" where
  "is_complex (Complex _ _) = True"
| "is_complex _ = False"

fun tree_nodes :: "namespaces \<Rightarrow> node_id \<Rightarrow> desc \<Rightarrow> (node_id \<times> node_id \<times> desc) list" where
  "tree_nodes N par (Complex n ds) = (child_id N par (Complex n ds), par, Complex n ds) #
     concat (map (tree_nodes N (child_id N par (Complex n ds))) ds)"
| "tree_nodes N par d = [(child_id N par d, par, d)]"

lemma then_do_simps [simp]:
  "then_do (Inr u, s) f = f s" "then_do r (\<lambda>s. (Inr (), s)) = r"
  "then_do (then_do r f) g = then_do r (\<lambda>s. then_do (f s) g)"
  by (cases r; cases "fst r"; auto)+

lemma run_all_simps [simp]:
  "run_all f [] = (\<lambda>s. (Inr (), s))" "run_all f (x # xs) = (\<lambda>s. then_do (f x s) (run_all f xs))"
  by (auto simp: fun_eq_iff)

lemma run_all_append: "run_all f (xs @ ys) = (\<lambda>s. then_do (run_all f xs s) (run_all f ys))"
  by (induction xs) auto

text \<open>
  What the four visitors share: at a complex object they do something with the node and visit the
  children below it, at a leaf they do something with the node, and the node's identifier is the one
  \<open>generateNodeId\<close> gives.
\<close>

locale tree_walk =
  fixes walk :: "ua_api \<Rightarrow> namespaces \<Rightarrow> node_id \<Rightarrow> desc \<Rightarrow> 's action"
    and walks :: "ua_api \<Rightarrow> namespaces \<Rightarrow> node_id \<Rightarrow> desc list \<Rightarrow> 's action"
    and at_node :: "ua_api \<Rightarrow> namespaces \<Rightarrow> node_id \<times> node_id \<times> desc \<Rightarrow> 's action"
  assumes walk_complex: "api_ok a \<Longrightarrow> addressable par \<Longrightarrow> walk a N par (Complex n ds) s =
      then_do (at_node a N (child_id N par (Complex n ds), par, Complex n ds) s)
        (walks a N (child_id N par (Complex n ds)) ds)"
    and walk_leaf: "api_ok a \<Longrightarrow> addressable par \<Longrightarrow> \<not> is_complex d \<Longrightarrow>
      walk a N par d s = at_node a N (child_id N par d, par, d) s"
    and walks_list: "walks a N par ds s = run_all (walk a N par) ds s"
    and walk_not: "\<not> addressable par \<Longrightarrow> walk a N par d s = (Inl NotImplemented, s)"
begin

lemma walk_nodes:
  assumes "api_ok a" "addressable par"
  shows "walk a N par d s = run_all (at_node a N) (tree_nodes N par d) s"
  using assms(2)
proof (induction d arbitrary: par s)
  case (Complex n ds)
  have *: "run_all (walk a N q) es s = run_all (at_node a N) (concat (map (tree_nodes N q) es)) s"
    if "addressable q" "set es \<subseteq> set ds" for q es s
    using that
  proof (induction es arbitrary: s)
    case (Cons e es)
    then have "walk a N q e s = run_all (at_node a N) (tree_nodes N q e) s"
      using Complex.IH by auto
    moreover have "run_all (walk a N q) es = run_all (at_node a N) (concat (map (tree_nodes N q) es))"
      using Cons by (intro ext) auto
    ultimately show ?case by (simp add: run_all_append)
  qed simp
  then have "walks a N (child_id N par (Complex n ds)) ds
      = run_all (at_node a N) (concat (map (tree_nodes N (child_id N par (Complex n ds))) ds))"
    by (intro ext) (simp add: walks_list)
  with Complex.prems show ?case by (simp add: walk_complex [OF assms(1)])
qed (simp_all add: walk_leaf [OF assms(1)])

end

text \<open>What each visitor does at a node.\<close>

fun create_node :: "'s server_api \<Rightarrow> ua_api \<Rightarrow> namespaces \<Rightarrow> node_id \<times> node_id \<times> desc \<Rightarrow> 's action" where
  "create_node A a N (i, par, d) s = (if is_complex d then createObject a N A i par d s
     else then_do (createPrimitive a N A par d s) (\<lambda>s. check_good (writeAccessLevel A i 0 s)))"

fun enable_node :: "'s server_api \<Rightarrow> ua_api \<Rightarrow> namespaces \<Rightarrow> node_id \<times> node_id \<times> desc \<Rightarrow> 's action" where
  "enable_node A a N (i, par, d) s = (if is_complex d then (Inr (), s) else check_good (writeAccessLevel A i 1 s))"

fun disable_node :: "'s server_api \<Rightarrow> ua_api \<Rightarrow> namespaces \<Rightarrow> node_id \<times> node_id \<times> desc \<Rightarrow> 's action" where
  "disable_node A a N (i, par, Complex n ds) s = (Inr (), s)"
| "disable_node A a N (i, par, ElemPrim n p) s = check_good (writeAccessLevel A i 0 s)"
| "disable_node A a N (i, par, ElemArray n p es) s = (Inl NotImplemented, s)"

fun update_node :: "'s server_api \<Rightarrow> ua_api \<Rightarrow> namespaces \<Rightarrow> node_id \<times> node_id \<times> desc \<Rightarrow> 's action" where
  "update_node A a N (i, par, Complex n ds) s = (Inr (), s)"
| "update_node A a N (i, par, ElemPrim n p) s = check_good (writeValue A i (update_variant a p) s)"
| "update_node A a N (i, par, ElemArray n p es) s = (case array_value a p es of
       Inl e \<Rightarrow> (Inl e, s) | Inr v \<Rightarrow> check_good (writeValue A i v s))"

lemma push_models_list: "push_models a N A par ds = run_all (push_model a N A par) ds"
  by (induction ds) auto

lemma enable_models_list: "enable_models a N A par ds = run_all (enable_model a N A par) ds"
  by (induction ds) auto

lemma disable_models_list: "disable_models a N A par ds = run_all (disable_model a N A par) ds"
  by (induction ds) auto

lemma update_models_list: "update_models a N A par ds = run_all (update_model a N A par) ds"
  by (induction ds) auto

lemma at_id_simps [simp]: "at_id (Inr i) f = f i" "at_id (Inl e) f = (\<lambda>s. (Inl e, s))"
  by (auto simp: at_id_def fun_eq_iff)

lemmas visitor_defs = createPrimitive_def disableElement_def allowReadAccess_def
  generateNodeId_ok generateNodeId_not
  push_models_list enable_models_list disable_models_list update_models_list

interpretation creator: tree_walk "\<lambda>a N. push_model a N A" "\<lambda>a N. push_models a N A" "create_node A" for A
proof unfold_locales
  fix a par N d s assume "api_ok a" "addressable par" "\<not> is_complex d"
  then show "push_model a N A par d s = create_node A a N (child_id N par d, par, d) s"
    by (cases d) (auto simp: visitor_defs)
next
  fix a par N d s assume "\<not> addressable par"
  then show "push_model a N A par d s = (Inl NotImplemented, s)"
    by (cases d) (auto simp: visitor_defs)
qed (auto simp: visitor_defs)

interpretation enabler: tree_walk "\<lambda>a N. enable_model a N A" "\<lambda>a N. enable_models a N A" "enable_node A" for A
proof unfold_locales
  fix a par N d s assume "api_ok a" "addressable par" "\<not> is_complex d"
  then show "enable_model a N A par d s = enable_node A a N (child_id N par d, par, d) s"
    by (cases d) (auto simp: visitor_defs)
next
  fix a par N d s assume "\<not> addressable par"
  then show "enable_model a N A par d s = (Inl NotImplemented, s)"
    by (cases d) (auto simp: visitor_defs)
qed (auto simp: visitor_defs)

interpretation disabler: tree_walk "\<lambda>a N. disable_model a N A" "\<lambda>a N. disable_models a N A" "disable_node A" for A
proof unfold_locales
  fix a par N d s assume "api_ok a" "addressable par" "\<not> is_complex d"
  then show "disable_model a N A par d s = disable_node A a N (child_id N par d, par, d) s"
    by (cases d) (auto simp: visitor_defs)
next
  fix a par N d s assume "\<not> addressable par"
  then show "disable_model a N A par d s = (Inl NotImplemented, s)"
    by (cases d) (auto simp: visitor_defs)
qed (auto simp: visitor_defs)

interpretation updater: tree_walk "\<lambda>a N. update_model a N A" "\<lambda>a N. update_models a N A" "update_node A" for A
proof unfold_locales
  fix a par N d s assume "api_ok a" "addressable par" "\<not> is_complex d"
  then show "update_model a N A par d s = update_node A a N (child_id N par d, par, d) s"
    by (cases d) (auto simp: visitor_defs split: sum.splits)
next
  fix a par N d s assume "\<not> addressable par"
  then show "update_model a N A par d s = (Inl NotImplemented, s)"
    by (cases d) (auto simp: visitor_defs)
qed (auto simp: visitor_defs)

subsection \<open>Identifiers are unique\<close>

text \<open>
  Sibling names must differ and, below the root, hold no dot: \<open>a.b\<close> and \<open>b\<close> inside \<open>a\<close> get the same
  identifier.
\<close>

definition dot_free :: "string \<Rightarrow> bool" where
  "dot_free s \<longleftrightarrow> CHR ''.'' \<notin> set s"

fun names_ok :: "desc \<Rightarrow> bool" where
  "names_ok (Complex n ds) \<longleftrightarrow> distinct (map getName ds) \<and> list_all (\<lambda>d. dot_free (getName d) \<and> names_ok d) ds"
| "names_ok _ = True"

lemma tree_nodes_under:
  "x \<in> set (tree_nodes N par d) \<Longrightarrow>
    \<exists>t. fst x = StrId (ns1 N) (path_of par @ ''.'' @ getName d @ t) \<and> (t = [] \<or> hd t = CHR ''.'')"
proof (induction d arbitrary: par)
  case (Complex n ds)
  show ?case
  proof (cases "x \<in> set (concat (map (tree_nodes N (child_id N par (Complex n ds))) ds))")
    case True
    then obtain d where "d \<in> set ds" "x \<in> set (tree_nodes N (child_id N par (Complex n ds)) d)" by auto
    from Complex.IH [OF this] show ?thesis by auto
  qed (use Complex.prems in \<open>auto simp: child_id_def\<close>)
qed (auto simp: child_id_def)

lemma dot_prefix:
  assumes "n @ t = m @ u" "dot_free n" "dot_free m" "t = [] \<or> hd t = CHR ''.''" "u = [] \<or> hd u = CHR ''.''"
  shows "n = m"
proof -
  have *: "takeWhile (\<lambda>c. c \<noteq> CHR ''.'') (n @ t) = n" if "dot_free n" "t = [] \<or> hd t = CHR ''.''" for n t
    using that by (cases t) (auto simp: dot_free_def takeWhile_append)
  show ?thesis using * [OF assms(2,4)] * [OF assms(3,5)] assms(1) by simp
qed

lemma siblings_disjoint:
  assumes "x \<in> set (tree_nodes N par d)" "y \<in> set (tree_nodes N par e)" "getName d \<noteq> getName e"
    "dot_free (getName d)" "dot_free (getName e)"
  shows "fst x \<noteq> fst y"
  using tree_nodes_under [OF assms(1)] tree_nodes_under [OF assms(2)] assms(3-5)
  by (metis append_same_eq dot_prefix node_id.inject(2) same_append_eq)

lemma child_not_below:
  "x \<in> set (tree_nodes N (child_id N par d) e) \<Longrightarrow> fst x \<noteq> child_id N par d"
  by (drule tree_nodes_under) (auto simp: child_id_def)

lemma tree_ids_distinct: "names_ok d \<Longrightarrow> distinct (map fst (tree_nodes N par d))"
proof (induction d arbitrary: par)
  case (Complex n ds)
  let ?own = "child_id N par (Complex n ds)"
  have "distinct (map fst (concat (map (tree_nodes N ?own) es)))" if "set es \<subseteq> set ds" "distinct (map getName es)" for es
    using that
  proof (induction es)
    case (Cons e es)
    then have e: "dot_free (getName e)" "names_ok e" "e \<in> set ds"
      using Complex.prems by (auto simp: list_all_iff)
    have "fst x \<noteq> fst y" if "x \<in> set (tree_nodes N ?own e)" "f \<in> set es" "y \<in> set (tree_nodes N ?own f)" for x y f
      using that Cons.prems e Complex.prems
      by (intro siblings_disjoint [OF that(1,3)]) (auto simp: list_all_iff)
    then show ?case using Cons Complex.IH [OF e(3,2)] by (auto 0 3)
  qed simp
  moreover have "?own \<notin> fst ` set (concat (map (tree_nodes N ?own) ds))"
    using child_not_below by fastforce
  ultimately show ?case using Complex.prems by (auto simp del: set_concat)
qed auto

fun parents_first :: "node_id set \<Rightarrow> (node_id \<times> node_id \<times> desc) list \<Rightarrow> bool" where
  "parents_first S [] = True"
| "parents_first S ((i, par, d) # xs) \<longleftrightarrow> par \<in> S \<and> parents_first (insert i S) xs"

lemma parents_first_mono: "parents_first S xs \<Longrightarrow> S \<subseteq> T \<Longrightarrow> parents_first T xs"
proof (induction xs arbitrary: S T)
  case (Cons x xs)
  obtain i par d where "x = (i, par, d)" by (cases x)
  then show ?case using Cons.prems Cons.IH [of "insert i S" "insert i T"] by auto
qed simp

lemma parents_first_append: "parents_first S xs \<Longrightarrow> parents_first S ys \<Longrightarrow> parents_first S (xs @ ys)"
proof (induction xs arbitrary: S)
  case (Cons x xs)
  then show ?case by (cases x) (auto intro: parents_first_mono)
qed simp

lemma tree_parents_first: "par \<in> S \<Longrightarrow> parents_first S (tree_nodes N par d)"
proof (induction d arbitrary: par S)
  case (Complex n ds)
  let ?own = "child_id N par (Complex n ds)"
  have "parents_first (insert ?own S) (concat (map (tree_nodes N ?own) es))" if "set es \<subseteq> set ds" for es
    using that Complex.IH by (induction es) (auto intro!: parents_first_append)
  with Complex.prems show ?case by simp
qed auto

subsection \<open>What the server promises\<close>

text \<open>
  \<open>look\<close> is the content of the address space, which the code never reads itself. Creating a node
  under a fresh identifier below an existing parent succeeds, under an existing identifier it fails and
  changes nothing; the access level of a variable can be written; so can its value when it has the
  variable's data type, or any type when that is the type of all variants. Writing to a missing node fails.
\<close>

datatype ua_node =
    Object (node_parent: node_id) (node_name: string)
  | Variable (node_parent: node_id) (node_name: string) (node_type: ua_type) (node_access: "8 word")
      (node_value: variant)

definition accepts :: "ua_type \<Rightarrow> variant \<Rightarrow> bool" where
  "accepts t v \<longleftrightarrow> vtype v = Some t \<or> t = UA_VARIANT"

definition server_ok :: "'s server_api \<Rightarrow> ('s \<Rightarrow> node_id \<Rightarrow> ua_node option) \<Rightarrow> bool" where
  "server_ok A look \<longleftrightarrow>
    (\<forall>i par r q t x s. look s i = None \<and> look s par \<noteq> None \<longrightarrow>
      fst (addObjectNode A i par r q t x s) = 0 \<and>
      look (snd (addObjectNode A i par r q t x s)) = (look s)(i \<mapsto> Object par (snd q))) \<and>
    (\<forall>i par r q t x s. look s i \<noteq> None \<longrightarrow>
      fst (addObjectNode A i par r q t x s) \<noteq> 0 \<and> look (snd (addObjectNode A i par r q t x s)) = look s) \<and>
    (\<forall>i par r q t x s. look s i = None \<and> look s par \<noteq> None \<longrightarrow>
      fst (addVariableNode A i par r q t x s) = 0 \<and>
      (\<exists>v. look (snd (addVariableNode A i par r q t x s)) =
        (look s)(i \<mapsto> Variable par (snd q) (va_type x) (va_access x) v))) \<and>
    (\<forall>i par r q t x s. look s i \<noteq> None \<longrightarrow>
      fst (addVariableNode A i par r q t x s) \<noteq> 0 \<and> look (snd (addVariableNode A i par r q t x s)) = look s) \<and>
    (\<forall>i l s par n t l' v. look s i = Some (Variable par n t l' v) \<longrightarrow>
      fst (writeAccessLevel A i l s) = 0 \<and>
      look (snd (writeAccessLevel A i l s)) = (look s)(i \<mapsto> Variable par n t l v)) \<and>
    (\<forall>i l s. look s i = None \<longrightarrow>
      fst (writeAccessLevel A i l s) \<noteq> 0 \<and> look (snd (writeAccessLevel A i l s)) = look s) \<and>
    (\<forall>i w s par n t l v. look s i = Some (Variable par n t l v) \<and> accepts t w \<longrightarrow>
      fst (writeValue A i w s) = 0 \<and>
      look (snd (writeValue A i w s)) = (look s)(i \<mapsto> Variable par n t l w)) \<and>
    (\<forall>i w s. look s i = None \<longrightarrow>
      fst (writeValue A i w s) \<noteq> 0 \<and> look (snd (writeValue A i w s)) = look s)"

text \<open>A server whose state is its content, for evaluating the model, and the one node it starts with.\<close>

definition std_server :: "(node_id \<Rightarrow> ua_node option) server_api" where
  "std_server = \<lparr>
     addObjectNode = (\<lambda>i par r q t x s.
       if s i \<noteq> None then (0x805E0000, s) else if s par = None then (0x805B0000, s)
       else (0, s(i \<mapsto> Object par (snd q)))),
     addVariableNode = (\<lambda>i par r q t x s.
       if s i \<noteq> None then (0x805E0000, s) else if s par = None then (0x805B0000, s)
       else (0, s(i \<mapsto> Variable par (snd q) (va_type x) (va_access x) (va_value x)))),
     writeAccessLevel = (\<lambda>i l s. case s i of
         Some (Variable par n t l' v) \<Rightarrow> (0, s(i \<mapsto> Variable par n t l v))
       | Some (Object _ _) \<Rightarrow> (0x80350000, s)
       | None \<Rightarrow> (0x80340000, s)),
     writeValue = (\<lambda>i w s. case s i of
         Some (Variable par n t l v) \<Rightarrow>
           if accepts t w then (0, s(i \<mapsto> Variable par n t l w)) else (0x80740000, s)
       | Some (Object _ _) \<Rightarrow> (0x80350000, s)
       | None \<Rightarrow> (0x80340000, s)) \<rparr>"

definition empty_space :: "namespaces \<Rightarrow> node_id \<Rightarrow> ua_node option" where
  "empty_space N = [objects_folder N \<mapsto> Object (NumId (ns0 N) 84) ''Objects'']"

lemma std_server_ok [simp]: "server_ok std_server (\<lambda>s. s)"
  by (auto simp: server_ok_def std_server_def)

lemma server_okD:
  assumes "server_ok A look"
  shows "look s i = None \<Longrightarrow> look s par \<noteq> None \<Longrightarrow>
      \<exists>s'. addObjectNode A i par r q t x s = (0, s') \<and> look s' = (look s)(i \<mapsto> Object par (snd q))"
    and "look s i = None \<Longrightarrow> look s par \<noteq> None \<Longrightarrow> \<exists>s' v. addVariableNode A i par r q t y s = (0, s') \<and>
      look s' = (look s)(i \<mapsto> Variable par (snd q) (va_type y) (va_access y) v)"
    and "look s i = Some (Variable par n ty l' v) \<Longrightarrow>
      \<exists>s'. writeAccessLevel A i l s = (0, s') \<and> look s' = (look s)(i \<mapsto> Variable par n ty l v)"
    and "look s i = Some (Variable par n ty l' v) \<Longrightarrow> accepts ty w \<Longrightarrow>
      \<exists>s'. writeValue A i w s = (0, s') \<and> look s' = (look s)(i \<mapsto> Variable par n ty l' w)"
    and "look s i = None \<Longrightarrow> \<exists>c s'. writeAccessLevel A i l s = (c, s') \<and> c \<noteq> 0 \<and> look s' = look s"
    and "look s i \<noteq> None \<Longrightarrow> \<exists>c s'. addVariableNode A i par r q t y s = (c, s') \<and> c \<noteq> 0 \<and> look s' = look s"
proof -
  note * = assms [unfolded server_ok_def]
  show "look s i = None \<Longrightarrow> look s par \<noteq> None \<Longrightarrow>
      \<exists>s'. addObjectNode A i par r q t x s = (0, s') \<and> look s' = (look s)(i \<mapsto> Object par (snd q))"
    using * [THEN conjunct1] by (cases "addObjectNode A i par r q t x s") (metis fst_conv snd_conv)
  show "look s i = None \<Longrightarrow> look s par \<noteq> None \<Longrightarrow> \<exists>s' v. addVariableNode A i par r q t y s = (0, s') \<and>
      look s' = (look s)(i \<mapsto> Variable par (snd q) (va_type y) (va_access y) v)"
    using * [THEN conjunct2, THEN conjunct2, THEN conjunct1]
    by (cases "addVariableNode A i par r q t y s") (metis fst_conv snd_conv)
  show "look s i = Some (Variable par n ty l' v) \<Longrightarrow>
      \<exists>s'. writeAccessLevel A i l s = (0, s') \<and> look s' = (look s)(i \<mapsto> Variable par n ty l v)"
    using * [THEN conjunct2, THEN conjunct2, THEN conjunct2, THEN conjunct2, THEN conjunct1]
    by (cases "writeAccessLevel A i l s") (metis fst_conv snd_conv)
  show "look s i = Some (Variable par n ty l' v) \<Longrightarrow> accepts ty w \<Longrightarrow>
      \<exists>s'. writeValue A i w s = (0, s') \<and> look s' = (look s)(i \<mapsto> Variable par n ty l' w)"
    using * [THEN conjunct2, THEN conjunct2, THEN conjunct2, THEN conjunct2, THEN conjunct2, THEN conjunct2, THEN conjunct1]
    by (cases "writeValue A i w s") (metis fst_conv snd_conv)
  show "look s i = None \<Longrightarrow> \<exists>c s'. writeAccessLevel A i l s = (c, s') \<and> c \<noteq> 0 \<and> look s' = look s"
    using * [THEN conjunct2, THEN conjunct2, THEN conjunct2, THEN conjunct2, THEN conjunct2, THEN conjunct1]
    by (cases "writeAccessLevel A i l s") (metis fst_conv snd_conv)
  show "look s i \<noteq> None \<Longrightarrow> \<exists>c s'. addVariableNode A i par r q t y s = (c, s') \<and> c \<noteq> 0 \<and> look s' = look s"
    using * [THEN conjunct2, THEN conjunct2, THEN conjunct2, THEN conjunct1]
    by (cases "addVariableNode A i par r q t y s") (metis fst_conv snd_conv)
qed

text \<open>Success and failure of a checked call.\<close>

lemma check_good_simps [simp]:
  "check_good (0, s) = (Inr (), s)" "c \<noteq> 0 \<Longrightarrow> check_good (c, s) = (Inl (OpcUaError c), s)"
  by (simp_all add: check_good_def)

subsection \<open>What the visitors do to the address space\<close>

text \<open>The node of a description in the space, with the access level its variables have.\<close>

fun has_node :: "(node_id \<Rightarrow> ua_node option) \<Rightarrow> 8 word \<Rightarrow> node_id \<times> node_id \<times> desc \<Rightarrow> bool" where
  "has_node L acc (i, par, d) \<longleftrightarrow> (if is_complex d then L i = Some (Object par (c_str (getName d)))
     else \<exists>v. L i = Some (Variable par (c_str (getName d)) (push_type d) acc v))"

lemma has_node_upd: "has_node L acc x \<Longrightarrow> i \<noteq> fst x \<Longrightarrow> has_node (L(i \<mapsto> n)) acc x"
  by (cases x) auto

lemma create_node_ok:
  assumes "server_ok A look" "api_ok a" "addressable par" "i = child_id N par d"
    and "look s i = None" "look s par \<noteq> None"
  shows "\<exists>s' n. create_node A a N (i, par, d) s = (Inr (), s') \<and> look s' = (look s)(i \<mapsto> n) \<and>
    has_node (look s') 0 (i, par, d)"
proof (cases "is_complex d")
  case True
  with server_okD(1) [OF assms(1,5,6), of "NumId (ns0 N) 35" "(ns1 N, c_str (getName d))" "NumId (ns0 N) 58"
      "\<lparr> oa_display = c_str (getName d) \<rparr>"] show ?thesis
    using assms(2) by (auto simp: createObject_def conv_simps)
next
  case False
  let ?x = "\<lparr> va_user_access = 1, va_access = 1, va_type = push_type d, va_value = null_variant,
         va_display = c_str (getName d) \<rparr>"
  obtain s1 v where s1: "addVariableNode A i par (NumId (ns0 N) 47) (ns1 N, c_str (getName d)) (NumId (ns0 N) 63) ?x s = (0, s1)"
    "look s1 = (look s)(i \<mapsto> Variable par (c_str (getName d)) (push_type d) 1 v)"
    using server_okD(2) [OF assms(1,5,6), of "NumId (ns0 N) 47" "(ns1 N, c_str (getName d))" "NumId (ns0 N) 63" ?x] by auto
  moreover obtain s2 where "writeAccessLevel A i 0 s1 = (0, s2)"
    "look s2 = (look s1)(i \<mapsto> Variable par (c_str (getName d)) (push_type d) 0 v)"
    using server_okD(3) [OF assms(1), of s1 i par "c_str (getName d)" "push_type d" 1 v 0] s1(2) by auto
  ultimately show ?thesis using False assms(2-4) by (auto simp: createPrimitive_def conv_simps)
qed

lemma run_all_nodes:
  assumes "\<And>x s. x \<in> set xs \<Longrightarrow> R x (look s (fst x)) \<Longrightarrow>
      \<exists>s'. f x s = (Inr (), s') \<and> Q x (look s' (fst x)) \<and> (\<forall>i. i \<noteq> fst x \<longrightarrow> look s' i = look s i)"
    and "distinct (map fst xs)" "\<forall>x \<in> set xs. R x (look s (fst x))"
  shows "\<exists>s'. run_all f xs s = (Inr (), s') \<and> (\<forall>x \<in> set xs. Q x (look s' (fst x))) \<and>
      (\<forall>i. i \<notin> fst ` set xs \<longrightarrow> look s' i = look s i)"
  using assms
proof (induction xs arbitrary: s)
  case (Cons x xs)
  obtain s1 where s1: "f x s = (Inr (), s1)" "Q x (look s1 (fst x))" "\<forall>i. i \<noteq> fst x \<longrightarrow> look s1 i = look s i"
    using Cons.prems(1) [of x s] Cons.prems(3) by auto
  have "\<forall>y \<in> set xs. R y (look s1 (fst y))"
  proof
    fix y assume "y \<in> set xs"
    then have "fst y \<noteq> fst x" using Cons.prems(2) by (auto simp: image_iff)
    with s1(3) Cons.prems(3) \<open>y \<in> set xs\<close> show "R y (look s1 (fst y))" by simp
  qed
  then obtain s2 where s2: "run_all f xs s1 = (Inr (), s2)" "\<forall>x \<in> set xs. Q x (look s2 (fst x))"
    "\<forall>i. i \<notin> fst ` set xs \<longrightarrow> look s2 i = look s1 i"
    using Cons.IH [of s1] Cons.prems(1,2) by auto
  have "fst x \<notin> fst ` set xs" using Cons.prems(2) by auto
  with s1 s2 show ?case by auto
qed auto

lemma create_nodes_ok:
  assumes "server_ok A look" "api_ok a"
    and "\<forall>(i, par, d) \<in> set xs. addressable par \<and> i = child_id N par d"
    and "distinct (map fst xs)" "\<forall>x \<in> set xs. look s (fst x) = None" "parents_first (dom (look s)) xs"
  shows "\<exists>s'. run_all (create_node A a N) xs s = (Inr (), s') \<and> (\<forall>x \<in> set xs. has_node (look s') 0 x) \<and>
      (\<forall>i. i \<notin> fst ` set xs \<longrightarrow> look s' i = look s i)"
  using assms(3-6)
proof (induction xs arbitrary: s)
  case (Cons x xs)
  obtain i par d where x: "x = (i, par, d)" by (cases x)
  obtain s1 n where s1: "create_node A a N x s = (Inr (), s1)" "look s1 = (look s)(i \<mapsto> n)" "has_node (look s1) 0 x"
    using create_node_ok [OF assms(1,2), of par i N d s] Cons.prems x
    by (auto simp del: create_node.simps has_node.simps)
  have "i \<notin> fst ` set xs" using Cons.prems(2) x by auto
  then have "\<forall>y \<in> set xs. look s1 (fst y) = None" "dom (look s1) = insert i (dom (look s))"
    using Cons.prems s1(2) by auto
  then obtain s2 where s2: "run_all (create_node A a N) xs s1 = (Inr (), s2)" "\<forall>x \<in> set xs. has_node (look s2) 0 x"
    "\<forall>i. i \<notin> fst ` set xs \<longrightarrow> look s2 i = look s1 i"
    using Cons.IH [of s1] Cons.prems x by (auto simp del: has_node.simps)
  have "look s2 i = look s1 i" using s2(3) \<open>i \<notin> fst ` set xs\<close> by auto
  then have "has_node (look s2) 0 x" using s1(3) x by auto
  with s1 s2 x \<open>i \<notin> fst ` set xs\<close> show ?case by auto
qed auto

lemma tree_nodes_ids:
  "(i, p, e) \<in> set (tree_nodes N par d) \<Longrightarrow> addressable par \<Longrightarrow> addressable p \<and> i = child_id N p e"
  by (induction d arbitrary: par) auto

lemma push_model_ok:
  assumes "server_ok A look" "api_ok a" "addressable par" "names_ok d"
    and "\<forall>x \<in> set (tree_nodes N par d). look s (fst x) = None" "look s par \<noteq> None"
  shows "\<exists>s'. push_model a N A par d s = (Inr (), s') \<and> (\<forall>x \<in> set (tree_nodes N par d). has_node (look s') 0 x) \<and>
      (\<forall>i. i \<notin> fst ` set (tree_nodes N par d) \<longrightarrow> look s' i = look s i)"
proof -
  have "\<forall>(i, p, e) \<in> set (tree_nodes N par d). addressable p \<and> i = child_id N p e"
    using tree_nodes_ids assms(3) by blast
  moreover have "parents_first (dom (look s)) (tree_nodes N par d)"
    by (rule tree_parents_first) (use assms(6) in auto)
  ultimately show ?thesis
    unfolding creator.walk_nodes [OF assms(2,3)]
    using create_nodes_ok [OF assms(1,2)] tree_ids_distinct [OF assms(4)] assms(5) by blast
qed

text \<open>Enabling, and disabling a description without arrays: one access level for every variable of the tree.\<close>

lemma has_node_at: "has_node L acc x \<longleftrightarrow> has_node (\<lambda>_. L (fst x)) acc x"
  by (cases x) auto

lemma enable_model_ok:
  assumes "server_ok A look" "api_ok a" "addressable par" "names_ok d"
    and "\<forall>x \<in> set (tree_nodes N par d). has_node (look s) acc x"
  shows "\<exists>s'. enable_model a N A par d s = (Inr (), s') \<and> (\<forall>x \<in> set (tree_nodes N par d). has_node (look s') 1 x) \<and>
    (\<forall>i. i \<notin> fst ` set (tree_nodes N par d) \<longrightarrow> look s' i = look s i)"
proof -
  have "\<exists>s'. enable_node A a N x s = (Inr (), s') \<and> has_node (\<lambda>_. look s' (fst x)) 1 x \<and>
      (\<forall>i. i \<noteq> fst x \<longrightarrow> look s' i = look s i)" if h: "has_node (\<lambda>_. look s (fst x)) acc x" for x s
  proof (cases x)
    case (fields i p e)
    show ?thesis
    proof (cases "is_complex e")
      case False
      then obtain v where v: "look s i = Some (Variable p (c_str (getName e)) (push_type e) acc v)"
        using h fields by auto
      from server_okD(3) [OF assms(1) this, of 1] show ?thesis using fields False by auto
    qed (use h fields in auto)
  qed
  from run_all_nodes [where R = "\<lambda>x o'. has_node (\<lambda>_. o') acc x" and Q = "\<lambda>x o'. has_node (\<lambda>_. o') 1 x", OF this tree_ids_distinct [OF assms(4), of N par], where s = s] assms(5)
  show ?thesis unfolding enabler.walk_nodes [OF assms(2,3)] has_node_at [of "look s" for s] by blast
qed

text \<open>Updating: the value of every variable is the variant its member is sent as, at the access level it has.\<close>

fun holds_at :: "(node_id \<Rightarrow> ua_node option) \<Rightarrow> 8 word \<Rightarrow> node_id \<times> node_id \<times> desc \<Rightarrow> bool" where
  "holds_at L acc (i, par, d) \<longleftrightarrow> (if is_complex d then L i = Some (Object par (c_str (getName d)))
     else L i = Some (Variable par (c_str (getName d)) (push_type d) acc (hd (variants_of d))))"

lemma update_variant_scalar [conv_simps]: "update_variant a p = scalar_variant a p"
  by (cases p) (auto simp: update_variant_def scalar_variant_def)

lemma scalar_variant_ok: "api_ok a \<Longrightarrow> scalar_variant a p = Variant (Some (scalar_type p)) 0 [] (prim_cells p)"
  by (cases p) (auto simp: scalar_variant_def prim_cells_def conv_simps)

lemma push_type_prim [conv_simps]: "push_type (ElemPrim n p) = scalar_type p"
  by (cases p) auto

lemma tree_nodes_parts:
  "(i, q, e) \<in> set (tree_nodes N par d) \<Longrightarrow> well_typed d \<and> sendable d \<Longrightarrow> well_typed e \<and> sendable e"
proof (induction d arbitrary: par)
  case (Complex n ds)
  then show ?case by (auto simp: list_all_iff)
qed auto

lemma update_model_ok:
  assumes "server_ok A look" "api_ok a" "addressable par" "names_ok d" "well_typed d" "sendable d"
    and "\<forall>x \<in> set (tree_nodes N par d). has_node (look s) acc x"
  shows "\<exists>s'. update_model a N A par d s = (Inr (), s') \<and> (\<forall>x \<in> set (tree_nodes N par d). holds_at (look s') acc x) \<and>
    (\<forall>i. i \<notin> fst ` set (tree_nodes N par d) \<longrightarrow> look s' i = look s i)"
proof -
  have *: "holds_at L acc x \<longleftrightarrow> holds_at (\<lambda>_. L (fst x)) acc x" for L x by (cases x) auto
  have "\<exists>s'. update_node A a N x s = (Inr (), s') \<and> holds_at (\<lambda>_. look s' (fst x)) acc x \<and>
      (\<forall>i. i \<noteq> fst x \<longrightarrow> look s' i = look s i)"
    if x0: "x \<in> set (tree_nodes N par d)" and h: "has_node (\<lambda>_. look s (fst x)) acc x" for x s
  proof -
    obtain i p e where x: "x = (i, p, e)" by (cases x)
    have e: "well_typed e" "sendable e" using tree_nodes_parts x0 assms(5,6) x by blast+
    show ?thesis
    proof (cases e)
      case (ElemPrim n q)
      with h x obtain v where "look s i = Some (Variable p (c_str n) (scalar_type q) acc v)"
        by (auto simp: conv_simps)
      from server_okD(4) [OF assms(1) this, of "Variant (Some (scalar_type q)) 0 [] (prim_cells q)"] show ?thesis
        using x ElemPrim assms(2) by (auto simp: accepts_def conv_simps scalar_variant_ok)
    next
      case (ElemArray n q es)
      with h x obtain v where "look s i = Some (Variable p (c_str n) UA_VARIANT acc v)" by auto
      from server_okD(4) [OF assms(1) this, of "array_of q es"]
      show ?thesis using x ElemArray e visitors_refine(3) [OF assms(2), of es q]
        by (auto simp: accepts_def array_of_def list_all_iff)
    qed (use h x in auto)
  qed
  from run_all_nodes [where R = "\<lambda>x o'. has_node (\<lambda>_. o') acc x" and Q = "\<lambda>x o'. holds_at (\<lambda>_. o') acc x", OF this tree_ids_distinct [OF assms(4), of N par], where s = s] assms(7)
  show ?thesis unfolding updater.walk_nodes [OF assms(2,3)] has_node_at [of "look s" for s] * [of "look s" for s] by blast
qed

subsection \<open>Puts of one service\<close>

text \<open>What a client can read of a service: the value of each of its variables, in the order of the tree.\<close>

fun readable_value :: "ua_node option \<Rightarrow> variant option" where
  "readable_value (Some (Variable par n t l v)) = (if l AND 1 \<noteq> 0 then Some v else None)"
| "readable_value _ = None"

definition leaf_ids :: "namespaces \<Rightarrow> node_id \<Rightarrow> desc \<Rightarrow> node_id list" where
  "leaf_ids N par d = map fst (filter (\<lambda>(i, p, e). \<not> is_complex e) (tree_nodes N par d))"

definition published :: "(node_id \<Rightarrow> ua_node option) \<Rightarrow> namespaces \<Rightarrow> string \<Rightarrow> desc \<Rightarrow> variant option list" where
  "published L N n d = map (\<lambda>i. readable_value (L i)) (leaf_ids N (objects_folder N) (named n d))"

lemma leaf_ids_simps [simp]:
  "leaf_ids N par (Complex n ds) = concat (map (leaf_ids N (child_id N par (Complex n ds))) ds)"
  "leaf_ids N par (ElemPrim n p) = [child_id N par (ElemPrim n p)]"
  "leaf_ids N par (ElemArray n q es) = [child_id N par (ElemArray n q es)]"
  by (simp_all add: leaf_ids_def [abs_def] filter_concat map_concat comp_def)

lemma published_holds:
  assumes "\<forall>x \<in> set (tree_nodes N par d). holds_at L 1 x"
  shows "map (\<lambda>i. readable_value (L i)) (leaf_ids N par d) = map Some (variants_of d)"
  using assms
proof (induction d arbitrary: par)
  case (Complex n ds)
  have "map (\<lambda>i. readable_value (L i)) (leaf_ids N (child_id N par (Complex n ds)) e) = map Some (variants_of e)"
    if "e \<in> set ds" for e
    using that by (intro Complex.IH) (use Complex.prems in auto)
  then have "concat (map (map (\<lambda>i. readable_value (L i)) \<circ> leaf_ids N (child_id N par (Complex n ds))) ds)
      = concat (map (map Some \<circ> variants_of) ds)"
    by (metis (mono_tags, lifting) comp_apply map_eq_conv)
  then show ?case by (simp add: map_concat)
qed auto

lemma unpublished:
  assumes "\<forall>x \<in> set (tree_nodes N par d). has_node L 0 x"
  shows "map (\<lambda>i. readable_value (L i)) (leaf_ids N par d) = replicate (length (leaf_ids N par d)) None"
proof -
  have "\<forall>i \<in> set (leaf_ids N par d). readable_value (L i) = None"
    using assms by (fastforce simp: leaf_ids_def)
  then have "map (\<lambda>i. readable_value (L i)) (leaf_ids N par d) = map (\<lambda>_. None) (leaf_ids N par d)"
    by simp
  then show ?thesis by (simp add: map_replicate_const)
qed

text \<open>Objects of one type have the same nodes.\<close>

fun skeleton :: "node_id \<times> node_id \<times> desc \<Rightarrow> node_id \<times> node_id \<times> string \<times> bool \<times> ua_type" where
  "skeleton (i, par, d) = (i, par, getName d, is_complex d, push_type d)"

lemma same_type_heads: "same_type d e \<Longrightarrow> getName d = getName e \<and> is_complex d = is_complex e \<and> push_type d = push_type e"
  by (cases d; cases e) (auto simp: conv_simps dest: scalar_type_kind)

lemma child_id_name: "getName d = getName e \<Longrightarrow> child_id N par d = child_id N par e"
  by (simp add: child_id_def)

lemma same_type_skeleton:
  "same_type d e \<Longrightarrow> map skeleton (tree_nodes N par d) = map skeleton (tree_nodes N par e)"
proof (induction d arbitrary: par e)
  case (Complex n ds)
  then obtain es where e: "e = Complex n es" "list_all2 same_type ds es"
    by (cases e) (auto simp: same_types_iff)
  have "map skeleton (concat (map (tree_nodes N q) xs)) = map skeleton (concat (map (tree_nodes N q) ys))"
    if "list_all2 same_type xs ys" "set xs \<subseteq> set ds" for q xs ys
    using that
  proof (induction xs ys rule: list_all2_induct)
    case (Cons x xs y ys)
    then show ?case using Complex.IH [of x y q] by simp
  qed simp
  with e show ?case by (auto simp: child_id_def)
next
  case (ElemArray n p es)
  then show ?case by (cases e) (auto simp: child_id_def)
next
  case (ElemPrim n p)
  then show ?case using same_type_heads [of "ElemPrim n p" e] by (cases e) (auto simp: child_id_def conv_simps)
qed

lemma has_node_skeleton:
  "(\<forall>x \<in> set xs. has_node L acc x) \<longleftrightarrow> (\<forall>k \<in> set (map skeleton xs). case k of (i, par, n, c, t) \<Rightarrow>
     if c then L i = Some (Object par (c_str n)) else \<exists>v. L i = Some (Variable par (c_str n) t acc v))"
  by auto

lemma same_type_has_node:
  "same_type d e \<Longrightarrow> (\<forall>x \<in> set (tree_nodes N par d). has_node L acc x) \<longleftrightarrow>
    (\<forall>x \<in> set (tree_nodes N par e). has_node L acc x)"
  unfolding has_node_skeleton by (simp only: same_type_skeleton)

lemma same_type_leaf_ids: assumes "same_type d e" shows "leaf_ids N par d = leaf_ids N par e"
proof -
  have "leaf_ids N par d = map fst (filter (\<lambda>(i, p, n, c, t). \<not> c) (map skeleton (tree_nodes N par d)))" for d
  proof -
    have "fst (skeleton x) = fst x" "fst (snd (snd (snd (skeleton x)))) = is_complex (snd (snd x))" for x
      by (cases x; simp)+
    then show ?thesis by (simp add: leaf_ids_def filter_map comp_def case_prod_unfold)
  qed
  then show ?thesis using same_type_skeleton [OF assms] by simp
qed

lemma same_type_names_ok: "same_type d e \<Longrightarrow> names_ok d \<Longrightarrow> names_ok e"
proof (induction d arbitrary: e)
  case (Complex n ds)
  then obtain es where e: "e = Complex n es" "list_all2 same_type ds es"
    by (cases e) (auto simp: same_types_iff)
  have "map getName ds = map getName es"
    using e(2) by (induction ds es rule: list_all2_induct) (auto dest: same_type_heads)
  moreover have "list_all (\<lambda>d. dot_free (getName d) \<and> names_ok d) es"
    unfolding list_all_length
  proof (intro allI impI)
    fix k assume k: "k < length es"
    then have "same_type (ds ! k) (es ! k)" "ds ! k \<in> set ds" using e(2) by (auto simp: list_all2_conv_all_nth)
    moreover from this have "getName (es ! k) = getName (ds ! k)" using same_type_heads by metis
    ultimately show "dot_free (getName (es ! k)) \<and> names_ok (es ! k)"
      using Complex by (auto simp: list_all_iff)
  qed
  ultimately show ?case using Complex.prems(2) e(1) by simp
next
  case (ElemArray n p es)
  then show ?case by (cases e) auto
next
  case (ElemPrim n p)
  then show ?case by (cases e) auto
qed

lemma named_simps [simp]:
  "names_ok (named n d) = names_ok d" "well_typed (named n d) = well_typed d" "sendable (named n d) = sendable d"
  "variants_of (named n d) = variants_of d" "getName (named n d) = n" "is_complex (named n d) = is_complex d"
  "same_type d e \<Longrightarrow> same_type (named n d) (named n e)"
  by (cases d; cases e; simp)+

lemma named_more [simp]: "blank (named n d) = blank d" "readable (named n d) = readable d"
  by (cases d; simp)+

text \<open>The invariant of a running service: its nodes exist, closed before the first put and readable after it.\<close>

definition serving :: "(node_id \<Rightarrow> ua_node option) \<Rightarrow> namespaces \<Rightarrow> desc \<Rightarrow> push_server \<Rightarrow> bool" where
  "serving L N d p \<longleftrightarrow> (\<forall>x \<in> set (tree_nodes N (objects_folder N) (named (m_service p) d)).
     has_node L (if m_FirstTimePut p then 0 else 1) x)"

lemma holds_has_node: "holds_at L acc x \<Longrightarrow> has_node L acc x"
  by (cases x) (auto split: if_splits)

lemma put_ok:
  assumes "server_ok A look" "api_ok a" "names_ok t" "same_type t d" "well_typed d" "sendable d" "serving (look s) N t p"
  shows "\<exists>s'. put a N A d (p, s) = (Inr SMART_OK, p \<lparr> m_FirstTimePut := False \<rparr>, s') \<and>
    serving (look s') N t (p \<lparr> m_FirstTimePut := False \<rparr>) \<and>
    published (look s') N (m_service p) t = map Some (variants_of d)"
proof -
  let ?d = "named (m_service p) d" and ?f = "objects_folder N"
  have same: "same_type (named (m_service p) t) ?d" and names: "names_ok ?d"
    using assms(3,4) same_type_names_ok by auto
  note nodes = same_type_has_node [OF same, of N ?f]
  have "\<exists>s1. (if m_FirstTimePut p then enable_model a N A ?f ?d s else (Inr (), s)) = (Inr (), s1) \<and>
      (\<forall>x \<in> set (tree_nodes N ?f ?d). has_node (look s1) 1 x)"
  proof (cases "m_FirstTimePut p")
    case True
    with assms(7) show ?thesis using enable_model_ok [OF assms(1,2) child_id_props(3) names, of N "N" s 0] nodes
      by (auto simp: serving_def)
  next
    case False
    with assms(7) nodes show ?thesis by (auto simp: serving_def)
  qed
  then obtain s1 where s1: "(if m_FirstTimePut p then enable_model a N A ?f ?d s else (Inr (), s)) = (Inr (), s1)"
    "\<forall>x \<in> set (tree_nodes N ?f ?d). has_node (look s1) 1 x" by blast
  obtain s2 where s2: "update_model a N A ?f ?d s1 = (Inr (), s2)" "\<forall>x \<in> set (tree_nodes N ?f ?d). holds_at (look s2) 1 x"
    using update_model_ok [OF assms(1,2) child_id_props(3) names _ _ s1(2)] assms(5,6) by auto
  have "\<forall>x \<in> set (tree_nodes N ?f ?d). has_node (look s2) 1 x" using s2(2) holds_has_node by blast
  then have "serving (look s2) N t (p \<lparr> m_FirstTimePut := False \<rparr>)" using nodes by (simp add: serving_def)
  moreover have "published (look s2) N (m_service p) t = map Some (variants_of d)"
    using published_holds [OF s2(2)] same_type_leaf_ids [OF same, of N ?f] by (simp add: published_def)
  ultimately show ?thesis using s1(1) s2(1) by (auto simp: put_def Let_def)
qed

lemma puts_ok:
  assumes "server_ok A look" "api_ok a" "names_ok t" "\<forall>d \<in> set ds. same_type t d \<and> well_typed d \<and> sendable d"
    "serving (look s) N t p" "ds \<noteq> []"
  shows "\<exists>s'. puts a N A ds (p, s) = (Inr SMART_OK, p \<lparr> m_FirstTimePut := False \<rparr>, s') \<and>
    published (look s') N (m_service p) t = map Some (variants_of (last ds))"
  using assms(4-6)
proof (induction ds arbitrary: p s)
  case (Cons d ds)
  obtain s1 where s1: "put a N A d (p, s) = (Inr SMART_OK, p \<lparr> m_FirstTimePut := False \<rparr>, s1)"
    "serving (look s1) N t (p \<lparr> m_FirstTimePut := False \<rparr>)"
    "published (look s1) N (m_service p) t = map Some (variants_of d)"
    using put_ok [OF assms(1-3), of d s N p] Cons.prems by auto
  then show ?case using Cons.IH [of s1 "p \<lparr> m_FirstTimePut := False \<rparr>"] Cons.prems by (cases ds) auto
qed simp

lemma new_push_server_ok:
  assumes "server_ok A look" "api_ok a" "names_ok t" "look s (objects_folder N) \<noteq> None"
    and "\<forall>x \<in> set (tree_nodes N (objects_folder N) (named n t)). look s (fst x) = None"
  shows "\<exists>s'. new_push_server a N A n t s = (Inr \<lparr> m_service = n, m_FirstTimePut = True \<rparr>, s') \<and>
    serving (look s') N t \<lparr> m_service = n, m_FirstTimePut = True \<rparr> \<and>
    (\<forall>i. i \<notin> fst ` set (tree_nodes N (objects_folder N) (named n t)) \<longrightarrow> look s' i = look s i)"
  using push_model_ok [OF assms(1,2) child_id_props(3) _ assms(5,4)] assms(3)
  by (auto simp: new_push_server_def serving_def)

subsection \<open>Properties of the push server\<close>

text \<open>The node identifiers the visitors generate for a described object are pairwise different, when the names
  of the members of one object differ and hold no dot; and at each node \<open>generateNodeId\<close> gives that identifier.\<close>

theorem push_ids_unique:
  assumes "api_ok a" "addressable par" "names_ok d"
  shows "distinct (map fst (tree_nodes N par d)) \<and>
    list_all (\<lambda>(i, p, e). generateNodeId a N p e = Inr i) (tree_nodes N par d)"
  using tree_ids_distinct [OF assms(3), of N par] tree_nodes_ids [of _ _ _ N par d] assms(1,2)
  by (auto simp: list_all_iff conv_simps)

definition sample_ns :: namespaces where
  "sample_ns = \<lparr> ns0 = 0, ns1 = 1 \<rparr>"

theorem push_ids_unique_witness:
  "distinct (map fst (tree_nodes sample_ns (objects_folder sample_ns) (sample_map [] [] 0))) \<and>
   list_all (\<lambda>(i, p, e). generateNodeId std_api sample_ns p e = Inr i)
     (tree_nodes sample_ns (objects_folder sample_ns) (sample_map [] [] 0))"
  by (rule push_ids_unique) (simp_all add: sample_map_def dot_free_def)

text \<open>Constructing a push server creates every node of the description below the objects folder, each under its
  parent, with its name and, for a variable, its data type, and changes no other node; no variable can be read
  before the first put.\<close>

theorem push_service_created:
  assumes "server_ok A look" "api_ok a" "names_ok t" "look s (objects_folder N) \<noteq> None"
    and "list_all (\<lambda>x. look s (fst x) = None) (tree_nodes N (objects_folder N) (named n t))"
  shows "\<exists>s'. new_push_server a N A n t s = (Inr \<lparr> m_service = n, m_FirstTimePut = True \<rparr>, s') \<and>
    list_all (has_node (look s') 0) (tree_nodes N (objects_folder N) (named n t)) \<and>
    published (look s') N n t = replicate (length (leaf_ids N (objects_folder N) (named n t))) None \<and>
    (\<forall>i. i \<notin> fst ` set (tree_nodes N (objects_folder N) (named n t)) \<longrightarrow> look s' i = look s i)"
  using new_push_server_ok [OF assms(1-4), of n] assms(5) unpublished
  by (fastforce simp: serving_def published_def list_all_iff simp del: has_node.simps)

theorem push_service_created_witness:
  "\<exists>s'. new_push_server std_api sample_ns std_server ''map'' (sample_map [] [] 0) (empty_space sample_ns) =
      (Inr \<lparr> m_service = ''map'', m_FirstTimePut = True \<rparr>, s') \<and>
    list_all (has_node s' 0) (tree_nodes sample_ns (objects_folder sample_ns) (named ''map'' (sample_map [] [] 0))) \<and>
    published s' sample_ns ''map'' (sample_map [] [] 0) = [None, None, None]"
proof -
  have "length (leaf_ids sample_ns (objects_folder sample_ns) (named ''map'' (sample_map [] [] 0))) = 3"
    by (simp add: sample_map_def)
  with push_service_created [OF std_server_ok std_api_ok, of "sample_map [] [] 0" "empty_space sample_ns" sample_ns "''map''"]
  show ?thesis
    by (auto simp: empty_space_def sample_map_def dot_free_def child_id_def objects_folder_def numeral_3_eq_3
        simp del: has_node.simps)
qed

text \<open>After a push server was constructed and any number of objects of its type were put, at least one, every put
  returned OK, and a client reading the variables of the service gets exactly the variants the last object is
  encoded as for queries and events, in the same order.\<close>

theorem puts_publish_last:
  assumes "server_ok A look" "api_ok a" "names_ok t" "look s (objects_folder N) \<noteq> None"
    and "list_all (\<lambda>x. look s (fst x) = None) (tree_nodes N (objects_folder N) (named n t))"
    and "list_all (\<lambda>d. same_type t d \<and> well_typed d \<and> sendable d) ds" "ds \<noteq> []"
  shows "\<exists>p s1 p' s2 vs. new_push_server a N A n t s = (Inr p, s1) \<and>
    puts a N A ds (p, s1) = (Inr SMART_OK, p', s2) \<and>
    CommObjectToUaVariantArray a (last ds) = Inr vs \<and> published (look s2) N n t = map Some vs"
proof -
  let ?p = "\<lparr> m_service = n, m_FirstTimePut = True \<rparr>"
  obtain s1 where s1: "new_push_server a N A n t s = (Inr ?p, s1)" "serving (look s1) N t ?p"
    using new_push_server_ok [OF assms(1-4), of n] assms(5) by (auto simp: list_all_iff)
  then obtain s2 where "puts a N A ds (?p, s1) = (Inr SMART_OK, ?p \<lparr> m_FirstTimePut := False \<rparr>, s2)"
    "published (look s2) N n t = map Some (variants_of (last ds))"
    using puts_ok [OF assms(1-3) _ s1(2) assms(7)] assms(6) by (auto simp: list_all_iff)
  moreover have "CommObjectToUaVariantArray a (last ds) = Inr (variants_of (last ds))"
    using encode_ok [OF assms(2)] assms(6,7) by (simp add: list_all_iff)
  ultimately show ?thesis using s1(1) by blast
qed

theorem puts_publish_last_witness:
  "\<exists>p s1 p' s2 vs. new_push_server std_api sample_ns std_server ''map'' (sample_map [] [] 0) (empty_space sample_ns) = (Inr p, s1) \<and>
    puts std_api sample_ns std_server [sample_map [sample_pose 7 ''odom''] [] 3, sample_map [] [sample_row [1, 2]] 4] (p, s1)
      = (Inr SMART_OK, p', s2) \<and>
    CommObjectToUaVariantArray std_api (last [sample_map [sample_pose 7 ''odom''] [] 3, sample_map [] [sample_row [1, 2]] 4]) = Inr vs \<and>
    published s2 sample_ns ''map'' (sample_map [] [] 0) = map Some vs"
  by (rule puts_publish_last [OF std_server_ok std_api_ok])
    (simp_all add: empty_space_def sample_map_def sample_pose_def sample_row_def dot_free_def no_nul_def
      child_id_def objects_folder_def)

subsection \<open>Errors\<close>

lemma enable_missing:
  assumes "server_ok A look" "filter (\<lambda>(i, p, e). \<not> is_complex e) xs = x # ys" "look s (fst x) = None"
  shows "\<exists>c s'. run_all (enable_node A a N) xs s = (Inl (OpcUaError c), s') \<and> look s' = look s"
  using assms(2)
proof (induction xs)
  case (Cons y xs)
  obtain i p e where y: "y = (i, p, e)" by (cases y)
  show ?case
  proof (cases "is_complex e")
    case True
    with Cons y show ?thesis by auto
  next
    case False
    with Cons.prems y have "look s i = None" using assms(3) by auto
    from server_okD(5) [OF assms(1) this, of 1] y False show ?thesis by auto
  qed
qed simp

text \<open>If the first variable of the service is missing in the address space, the first put raises the status code of
  the server, the address space is unchanged, and the server still counts the next put as the first, so that it
  enables the variables again.\<close>

theorem failed_first_put_retries:
  assumes "server_ok A look" "api_ok a" "m_FirstTimePut p"
    and "leaf_ids N (objects_folder N) (named (m_service p) d) = i # is" "look s i = None"
  shows "\<exists>c s'. put a N A d (p, s) = (Inl (OpcUaError c), p, s') \<and> look s' = look s"
proof -
  let ?xs = "tree_nodes N (objects_folder N) (named (m_service p) d)"
  obtain x ys where "filter (\<lambda>(i, p, e). \<not> is_complex e) ?xs = x # ys" "fst x = i"
    using assms(4) by (auto simp: leaf_ids_def map_eq_Cons_conv)
  with enable_missing [OF assms(1) this(1), of s a N] assms(5)
  obtain c s' where "run_all (enable_node A a N) ?xs s = (Inl (OpcUaError c), s')" "look s' = look s" by auto
  then show ?thesis using assms(3) by (auto simp: put_def enabler.walk_nodes [OF assms(2) child_id_props(3)])
qed

theorem failed_first_put_retries_witness:
  "\<exists>c s'. put std_api sample_ns std_server (sample_pose 1 ''a'') (\<lparr> m_service = ''pose'', m_FirstTimePut = True \<rparr>, empty_space sample_ns)
     = (Inl (OpcUaError c), \<lparr> m_service = ''pose'', m_FirstTimePut = True \<rparr>, s') \<and> s' = empty_space sample_ns"
  by (rule failed_first_put_retries [OF std_server_ok std_api_ok])
    (simp_all add: sample_pose_def, simp_all add: empty_space_def child_id_def objects_folder_def)

fun is_array :: "desc \<Rightarrow> bool" where
  "is_array (ElemArray _ _ _) = True"
| "is_array _ = False"

text \<open>Disabling a published service closes its variables in order up to the first array member and raises
  \<open>NotImplemented\<close> there, leaving that one and the later ones as they were; without an array member it closes all.\<close>

theorem disabling_stops_at_array:
  assumes "server_ok A look" "api_ok a" "addressable par" "names_ok d"
    and "list_all (has_node (look s) acc) (tree_nodes N par d)"
  shows "\<exists>s'. disable_model a N A par d s =
      (if list_ex (\<lambda>(i, p, e). is_array e) (tree_nodes N par d) then Inl NotImplemented else Inr (), s') \<and>
    list_all (has_node (look s') 0) (takeWhile (\<lambda>(i, p, e). \<not> is_array e) (tree_nodes N par d)) \<and>
    list_all (has_node (look s') acc) (dropWhile (\<lambda>(i, p, e). \<not> is_array e) (tree_nodes N par d))"
proof -
  let ?P = "\<lambda>(i, p, e). \<not> is_array e"
  let ?xs = "takeWhile ?P (tree_nodes N par d)" and ?ys = "dropWhile ?P (tree_nodes N par d)"
  have split: "tree_nodes N par d = ?xs @ ?ys" by simp
  have "\<exists>s'. disable_node A a N x s = (Inr (), s') \<and> has_node (\<lambda>_. look s' (fst x)) 0 x \<and>
      (\<forall>i. i \<noteq> fst x \<longrightarrow> look s' i = look s i)"
    if x0: "x \<in> set ?xs" and h: "has_node (\<lambda>_. look s (fst x)) acc x" for x s
  proof -
    obtain i p e where x: "x = (i, p, e)" by (cases x)
    show ?thesis
    proof (cases e)
      case (ElemPrim n q)
      with h x obtain v where "look s i = Some (Variable p (c_str n) (scalar_type q) acc v)"
        by (auto simp: conv_simps)
      from server_okD(3) [OF assms(1) this, of 0] show ?thesis using x ElemPrim by (auto simp: conv_simps)
    qed (use x h set_takeWhileD [OF x0] in auto)
  qed
  moreover have "distinct (map fst (?xs @ ?ys))"
    using tree_ids_distinct [OF assms(4), of N par] split by simp
  then have dist: "distinct (map fst ?xs)" "fst ` set ?xs \<inter> fst ` set ?ys = {}"
    by (simp_all del: takeWhile_dropWhile_id)
  moreover have nodes: "\<forall>x \<in> set ?xs \<union> set ?ys. has_node (look s) acc x"
    using assms(5) set_takeWhileD set_dropWhileD by (fastforce simp: list_all_iff simp del: has_node.simps)
  then have "\<forall>x \<in> set ?xs. has_node (\<lambda>_. look s (fst x)) acc x"
    unfolding has_node_at [of "look s"] by blast
  ultimately obtain s' where s': "run_all (disable_node A a N) ?xs s = (Inr (), s')"
    "\<forall>x \<in> set ?xs. has_node (\<lambda>_. look s' (fst x)) 0 x" "\<forall>i. i \<notin> fst ` set ?xs \<longrightarrow> look s' i = look s i"
    using run_all_nodes [where R = "\<lambda>x o'. has_node (\<lambda>_. o') acc x" and Q = "\<lambda>x o'. has_node (\<lambda>_. o') 0 x"
        and f = "disable_node A a N" and look = look and xs = ?xs and s = s] by blast
  have "\<forall>x \<in> set ?ys. has_node (look s') acc x"
  proof
    fix x assume x: "x \<in> set ?ys"
    then have "look s' (fst x) = look s (fst x)" using s'(3) dist(2) by blast
    then show "has_node (look s') acc x" using nodes x has_node_at by (metis UnI2)
  qed
  moreover have "run_all (disable_node A a N) ?ys s' =
      (if list_ex (\<lambda>(i, p, e). is_array e) (tree_nodes N par d) then Inl NotImplemented else Inr (), s')"
  proof (cases ?ys)
    case Nil
    then have "\<not> list_ex (\<lambda>(i, p, e). is_array e) (tree_nodes N par d)"
      by (auto simp: dropWhile_eq_Nil_conv list_ex_iff)
    then show ?thesis by (simp add: Nil)
  next
    case (Cons y ys)
    obtain i p e where y: "y = (i, p, e)" by (cases y)
    with Cons have "is_array e" "y \<in> set (tree_nodes N par d)"
      using hd_dropWhile [of ?P "tree_nodes N par d"] set_dropWhileD [of y ?P] by auto
    then have "list_ex (\<lambda>(i, p, e). is_array e) (tree_nodes N par d)"
      using y by (auto simp: list_ex_iff intro!: bexI [of _ y])
    with Cons y \<open>is_array e\<close> show ?thesis by (cases e) auto
  qed
  ultimately show ?thesis
    using s'(1,2) has_node_at [of "look s'"] run_all_append [of "disable_node A a N" ?xs ?ys]
    by (auto simp: disabler.walk_nodes [OF assms(2,3)] list_all_iff simp del: has_node.simps)
qed

definition sample_track :: desc where
  "sample_track = Complex ''t'' [ElemPrim ''a'' (PBool True), ElemArray ''b'' (ElemPrim '''' (PBool True)) [], ElemPrim ''c'' (PInt8 1)]"

definition sample_space :: "node_id \<Rightarrow> ua_node option" where
  "sample_space = [StrId 1 ''85.t'' \<mapsto> Object (NumId 0 85) ''t'',
     StrId 1 ''85.t.a'' \<mapsto> Variable (StrId 1 ''85.t'') ''a'' UA_BOOLEAN 1 null_variant,
     StrId 1 ''85.t.b'' \<mapsto> Variable (StrId 1 ''85.t'') ''b'' UA_VARIANT 1 null_variant,
     StrId 1 ''85.t.c'' \<mapsto> Variable (StrId 1 ''85.t'') ''c'' UA_BYTE 1 null_variant]"

theorem disabling_stops_at_array_witness:
  "\<exists>s'. disable_model std_api sample_ns std_server (objects_folder sample_ns) sample_track sample_space = (Inl NotImplemented, s') \<and>
     s' (StrId 1 ''85.t.a'') = Some (Variable (StrId 1 ''85.t'') ''a'' UA_BOOLEAN 0 null_variant) \<and>
     s' (StrId 1 ''85.t.c'') = Some (Variable (StrId 1 ''85.t'') ''c'' UA_BYTE 1 null_variant)"
proof -
  let ?xs = "tree_nodes sample_ns (objects_folder sample_ns) sample_track"
  have nul: "c_str ''t'' = ''t''" "c_str ''a'' = ''a''" "c_str ''b'' = ''b''" "c_str ''c'' = ''c''" by (simp_all add: c_str_def)
  have nodes: "?xs = [(StrId 1 ''85.t'', NumId 0 85, sample_track),
      (StrId 1 ''85.t.a'', StrId 1 ''85.t'', ElemPrim ''a'' (PBool True)),
      (StrId 1 ''85.t.b'', StrId 1 ''85.t'', ElemArray ''b'' (ElemPrim '''' (PBool True)) []),
      (StrId 1 ''85.t.c'', StrId 1 ''85.t'', ElemPrim ''c'' (PInt8 1))]"
    by (simp add: sample_track_def child_id_def objects_folder_def sample_ns_def show_nat_85)
  have "\<exists>s'. disable_model std_api sample_ns std_server (objects_folder sample_ns) sample_track sample_space =
      (if list_ex (\<lambda>(i, p, e). is_array e) ?xs then Inl NotImplemented else Inr (), s') \<and>
    list_all (has_node s' 0) (takeWhile (\<lambda>(i, p, e). \<not> is_array e) ?xs) \<and>
    list_all (has_node s' 1) (dropWhile (\<lambda>(i, p, e). \<not> is_array e) ?xs)"
    by (rule disabling_stops_at_array [OF std_server_ok std_api_ok])
      (simp_all only: nodes, simp_all add: sample_track_def sample_space_def dot_free_def nul)
  moreover have "disable_model std_api sample_ns std_server (objects_folder sample_ns) sample_track sample_space =
      (Inl NotImplemented, sample_space (StrId 1 ''85.t.a'' \<mapsto> Variable (StrId 1 ''85.t'') ''a'' UA_BOOLEAN 0 null_variant))"
    by (simp add: disabler.walk_nodes nodes) (simp add: sample_track_def sample_space_def std_server_def)
  ultimately show ?thesis by (auto simp: sample_space_def)
qed

lemma create_node_clash:
  assumes "server_ok A look" "api_ok a" "addressable par" "\<not> is_complex d" "look s (child_id N par d) \<noteq> None"
  shows "\<exists>c s'. create_node A a N (child_id N par d, par, d) s = (Inl (OpcUaError c), s')"
  using server_okD(6) [OF assms(1,5), of par "NumId (ns0 N) 47" "(ns1 N, c_str (getName d))" "NumId (ns0 N) 63"
      "\<lparr> va_user_access = 1, va_access = 1, va_type = push_type d, va_value = null_variant, va_display = c_str (getName d) \<rparr>"]
    assms(2-4) by (auto simp: createPrimitive_def conv_simps)

text \<open>Names with dots break the creation of a service: an object \<open>x\<close> with a member \<open>y\<close> followed by a member
  \<open>x.y\<close> asks for the same identifier twice, and the constructor raises the server's status code.\<close>

theorem dotted_names_clash:
  assumes "server_ok A look" "api_ok a" "dot_free x" "dot_free y" "look s (objects_folder N) \<noteq> None"
    and "list_all (\<lambda>x. look s (fst x) = None)
      (tree_nodes N (objects_folder N) (Complex n [Complex x [ElemPrim y p]]))"
  shows "\<exists>c s'. new_push_server a N A n (Complex m [Complex x [ElemPrim y p], ElemPrim (x @ ''.'' @ y) q]) s =
    (Inl (OpcUaError c), s')"
proof -
  let ?f = "objects_folder N" and ?d = "Complex n [Complex x [ElemPrim y p]]" and ?e = "ElemPrim (x @ ''.'' @ y) q"
  let ?r = "child_id N ?f ?d"
  let ?x = "child_id N ?r (Complex x [ElemPrim y p])"
  let ?t = "tree_nodes N ?f (Complex n [Complex x [ElemPrim y p], ?e])" and ?u = "tree_nodes N ?f ?d"
  have names: "names_ok ?d" using assms(3,4) by simp
  have fresh: "\<forall>x \<in> set ?u. look s (fst x) = None" using assms(6) by (simp only: list_all_iff)
  obtain s1 where s1: "push_model a N A ?f ?d s = (Inr (), s1)" "\<forall>x \<in> set ?u. has_node (look s1) 0 x"
    using push_model_ok [OF assms(1,2) child_id_props(3) names fresh assms(5)] by blast
  have same: "child_id N ?x (ElemPrim y p) = child_id N ?r ?e" by (simp add: child_id_def)
  have "has_node (look s1) 0 (child_id N ?x (ElemPrim y p), ?x, ElemPrim y p)" using s1(2) by simp
  then have "look s1 (child_id N ?r ?e) \<noteq> None" unfolding same by (auto simp: child_id_def)
  then obtain c s' where "create_node A a N (child_id N ?r ?e, ?r, ?e) s1 = (Inl (OpcUaError c), s')"
    using create_node_clash [OF assms(1,2), of ?r ?e s1 N] by (auto simp del: create_node.simps)
  moreover have "run_all (create_node A a N) ?t = run_all (create_node A a N) (?u @ [(child_id N ?r ?e, ?r, ?e)])"
    by (simp add: child_id_def createObject_def del: append.simps) (simp add: child_id_def createObject_def)
  moreover have "run_all (create_node A a N) ?u s = (Inr (), s1)"
    using s1(1) unfolding creator.walk_nodes [OF assms(2) child_id_props(3)] .
  ultimately have "push_model a N A ?f (Complex n [Complex x [ElemPrim y p], ?e]) s = (Inl (OpcUaError c), s')"
    unfolding creator.walk_nodes [OF assms(2) child_id_props(3)]
    by (simp add: run_all_append del: create_node.simps tree_nodes.simps)
  then show ?thesis by (simp add: new_push_server_def del: push_model.simps)
qed

theorem dotted_names_clash_witness:
  "\<exists>c s'. new_push_server std_api sample_ns std_server ''m'' (Complex '''' [Complex ''a'' [ElemPrim ''b'' (PBool True)],
     ElemPrim (''a'' @ ''.'' @ ''b'') (PInt8 0)]) (empty_space sample_ns) = (Inl (OpcUaError c), s')"
  by (rule dotted_names_clash [OF std_server_ok std_api_ok])
    (simp_all add: dot_free_def, simp_all add: empty_space_def child_id_def objects_folder_def)

end
