(* ===== verification/Subscription.thy ===== *)
theory Subscription
  imports PushServer "HOL-Library.AList"
begin

section \<open>Subscriptions\<close>

text \<open>
  The client side of the push pattern, under \<open>OPCUA/Client\<close>: the ring buffer of received objects
  (\<open>AsyncSubscriptionArrayBuffer\<close>), the cursor that reads it (\<open>AsyncSubscriptionReader\<close>), the
  subscription that collects one value per monitored item and turns a complete set into an object
  (\<open>AsyncSubscriptionOpcUa\<close>, \<open>AsyncSubscriptionWithCommObject\<close>, with \<open>CommObjectBrowseToNodeIds\<close>), and
  \<open>PushClient\<close>. A call that waits on a condition variable returns \<open>None\<close> in a state where it waits; it
  is resumed by calling it again in the state of the next \<open>addData\<close>.
\<close>

subsection \<open>\<open>AsyncSubscriptionArrayBuffer\<close>\<close>

text \<open>The counter is a signed, the size of the buffer an unsigned 64-bit integer.\<close>

record 'a buffer =
  m_dataBuffer :: "'a list"
  m_bufferSize :: "64 word"
  m_dataCounter :: "64 word"

definition new_buffer :: "'a \<Rightarrow> 64 word \<Rightarrow> 'a buffer" where
  "new_buffer x queueSize = \<lparr> m_dataBuffer = replicate (unat queueSize) x, m_bufferSize = queueSize, m_dataCounter = 0 \<rparr>"

definition buf_empty :: "('a, 'm) buffer_scheme \<Rightarrow> bool" where
  "buf_empty b \<longleftrightarrow> m_dataCounter b = 0"

definition buf_hasData :: "64 word \<Rightarrow> ('a, 'm) buffer_scheme \<Rightarrow> bool" where
  "buf_hasData dataCounter b \<longleftrightarrow> sint dataCounter < sint (m_dataCounter b)"

text \<open>The remainder by the size, undefined for a buffer of size 0.\<close>

definition buf_index :: "64 word \<Rightarrow> ('a, 'm) buffer_scheme \<Rightarrow> nat result" where
  "buf_index c b = (if m_bufferSize b = 0 then Inl UndefinedBehaviour else Inr (unat (c mod m_bufferSize b)))"

definition buf_addData :: "'a \<Rightarrow> ('a, 'm) buffer_scheme \<Rightarrow> ('a, 'm) buffer_scheme result" where
  "buf_addData newData b = rbind (buf_index (m_dataCounter b) b) (\<lambda>nextIndex.
     Inr (b \<lparr> m_dataBuffer := (m_dataBuffer b)[nextIndex := newData], m_dataCounter := m_dataCounter b + 1 \<rparr>))"

text \<open>
  The value, the overflow flag and the counter of the value read. The difference of the counters is
  converted to unsigned for the comparison with the size.
\<close>

definition buf_getData :: "64 word \<Rightarrow> ('a, 'm) buffer_scheme \<Rightarrow> ('a \<times> bool \<times> 64 word) option result" where
  "buf_getData dataCounter b =
     (if \<not> buf_hasData dataCounter b then Inr None
      else
        let overflow = (m_bufferSize b < m_dataCounter b - dataCounter);
          readDataCounter = (if overflow then m_dataCounter b - m_bufferSize b else dataCounter)
        in rbind (buf_index readDataCounter b) (\<lambda>index.
             Inr (Some (m_dataBuffer b ! index, overflow, readDataCounter))))"

subsection \<open>\<open>AsyncSubscriptionReader\<close>\<close>

text \<open>The virtual functions of \<open>AsyncSubscription\<close> the reader calls.\<close>

record ('a, 'b) subscription_api =
  api_getDataCounter :: "'b \<Rightarrow> 64 word"
  api_hasData :: "64 word \<Rightarrow> 'b \<Rightarrow> bool"
  api_getData :: "64 word \<Rightarrow> 'b \<Rightarrow> ('a \<times> bool \<times> 64 word) option result"
  api_empty :: "'b \<Rightarrow> bool"
  api_addData :: "'a \<Rightarrow> 'b \<Rightarrow> 'b result"

definition ring_api :: "('a, ('a, 'm) buffer_scheme) subscription_api" where
  "ring_api = \<lparr> api_getDataCounter = m_dataCounter, api_hasData = buf_hasData, api_getData = buf_getData,
     api_empty = buf_empty, api_addData = buf_addData \<rparr>"

record reader =
  m_dataFetchCounter :: "64 word"
  m_overflow :: bool

definition new_reader :: reader where
  "new_reader = \<lparr> m_dataFetchCounter = 0, m_overflow = False \<rparr>"

definition resetOverflow :: "reader \<Rightarrow> reader" where
  "resetOverflow r = r \<lparr> m_overflow := False \<rparr>"

datatype seek_ref = REF_FIRST | REF_CURRENT | REF_END

text \<open>The last two branches of the code print a message and leave the position.\<close>

definition seek :: "('a, 'b) subscription_api \<Rightarrow> 'b \<Rightarrow> 64 word \<Rightarrow> seek_ref \<Rightarrow> reader \<Rightarrow> reader" where
  "seek S b offset ref r =
     (let endCounter = api_getDataCounter S b + 1;
        newRequestedCounter = (case ref of
            REF_FIRST \<Rightarrow> offset
          | REF_CURRENT \<Rightarrow> m_dataFetchCounter r + offset
          | REF_END \<Rightarrow> endCounter + offset)
      in if sint newRequestedCounter \<le> sint endCounter then r \<lparr> m_dataFetchCounter := newRequestedCounter \<rparr> else r)"

definition reader_hasData :: "('a, 'b) subscription_api \<Rightarrow> 'b \<Rightarrow> reader \<Rightarrow> bool" where
  "reader_hasData S b r \<longleftrightarrow> \<not> api_empty S b \<and> api_hasData S (m_dataFetchCounter r) b"

definition reader_getData :: "('a, 'b) subscription_api \<Rightarrow> 'b \<Rightarrow> reader \<Rightarrow> ('a \<times> reader) option result" where
  "reader_getData S b r = rbind (api_getData S (m_dataFetchCounter r) b) (\<lambda>res. Inr (case res of
     None \<Rightarrow> None
   | Some (ret, overflow, dataReadCounter) \<Rightarrow>
       Some (ret, r \<lparr> m_dataFetchCounter := dataReadCounter + 1, m_overflow := (m_overflow r \<or> overflow) \<rparr>)))"

definition getLastAvailableData :: "('a, 'b) subscription_api \<Rightarrow> 'b \<Rightarrow> reader \<Rightarrow> ('a \<times> reader) option result" where
  "getLastAvailableData S b r =
     (if api_empty S b then Inl NoDataAvailable else reader_getData S b (seek S b (-1) REF_END r))"

subsection \<open>\<open>CommObjectBrowseToNodeIds\<close>\<close>

datatype node_class = CLASS_OBJECT | CLASS_VARIABLE | CLASS_OTHER

record browse_ref =
  ref_name :: string
  ref_class :: node_class
  ref_target :: node_id

text \<open>The calls of the client, on a connection of any type.\<close>

record 'c client_api =
  browse :: "node_id \<Rightarrow> 'c \<Rightarrow> browse_ref list list"
  create_subscription :: "'c \<Rightarrow> (32 word \<times> 32 word) \<times> 'c"
  create_monitored :: "32 word \<Rightarrow> node_id \<Rightarrow> 'c \<Rightarrow> (32 word \<times> 32 word) \<times> 'c"
  delete_subscription :: "32 word \<Rightarrow> 'c \<Rightarrow> 32 word \<times> 'c"

record browsed =
  br_node :: node_id
  br_desc :: desc
  br_class :: node_class

definition getDescriptionByName :: "string \<Rightarrow> desc list \<Rightarrow> desc option" where
  "getDescriptionByName name ds = find (\<lambda>d. getName d = name) ds"

lemma getDescriptionByName_size: "getDescriptionByName name ds = Some d \<Longrightarrow> size d < Suc (size_list size ds)"
  unfolding getDescriptionByName_def find_Some_iff by (auto intro: less_SucI size_nth_less)

text \<open>
  The references are visited in the order the server lists them; a reference whose name is no member,
  or whose class does not fit the member, is skipped.
\<close>

function (sequential) browse_nodes :: "(node_id \<Rightarrow> browse_ref list list) \<Rightarrow> desc \<Rightarrow> node_id \<Rightarrow> browsed list" where
  "browse_nodes br (Complex n ds) i = concat (map (\<lambda>ref.
     case getDescriptionByName (ref_name ref) ds of
       None \<Rightarrow> []
     | Some (Complex m es) \<Rightarrow>
         if ref_class ref = CLASS_OBJECT then browse_nodes br (Complex m es) (ref_target ref) else []
     | Some d \<Rightarrow>
         if ref_class ref = CLASS_VARIABLE
         then [\<lparr> br_node = ref_target ref, br_desc = d, br_class = ref_class ref \<rparr>] else [])
     (concat (br i)))"
| "browse_nodes br d i = [\<lparr> br_node = i, br_desc = d, br_class = CLASS_VARIABLE \<rparr>]"
  by pat_completeness auto
termination
  by (relation "measure (\<lambda>(br, d, i). size d)") (auto dest: getDescriptionByName_size)

text \<open>
  \<open>std::list::sort\<close>, which is stable, and the comparison it is given: the flat order of a description is
  looked up by its address, for the left argument both times.
\<close>

fun insert_by :: "('x \<Rightarrow> 'x \<Rightarrow> bool) \<Rightarrow> 'x \<Rightarrow> 'x list \<Rightarrow> 'x list" where
  "insert_by lt x [] = [x]"
| "insert_by lt x (y # ys) = (if lt y x then y # insert_by lt x ys else x # y # ys)"

definition list_sort :: "('x \<Rightarrow> 'x \<Rightarrow> bool) \<Rightarrow> 'x list \<Rightarrow> 'x list" where
  "list_sort lt xs = foldr (insert_by lt) xs []"

definition compare_flat :: "('x \<Rightarrow> nat option) \<Rightarrow> 'x \<Rightarrow> 'x \<Rightarrow> bool" where
  "compare_flat orderOfFlat left right =
     (let leftIter = orderOfFlat left; rightIter = orderOfFlat left in
      case (leftIter, rightIter) of
        (Some i, Some j) \<Rightarrow> i < j
      | _ \<Rightarrow> leftIter \<noteq> None)"

subsection \<open>\<open>AsyncSubscriptionOpcUa\<close>\<close>

record data_value =
  dv_status :: "32 word option"
  dv_value :: "variant option"

record mon_item =
  mi_node :: node_id
  mi_value :: "data_value option"

text \<open>
  A subscription is a buffer of objects with the monitored items, as the association list of the map
  \<open>m_monItems\<close>; \<open>notified\<close> are the objects the data callback was called with.
\<close>

record subscription = "desc buffer" +
  m_subId :: "32 word"
  m_monitoredItemsIdorder :: "32 word list"
  m_monItems :: "(32 word \<times> mon_item) list"
  m_valuesSet :: nat
  m_onDataCallback :: bool
  notified :: "desc list"

definition new_subscription :: "desc \<Rightarrow> subscription" where
  "new_subscription fresh = \<lparr> m_dataBuffer = replicate 8 fresh, m_bufferSize = 8, m_dataCounter = 0,
     m_subId = 0, m_monitoredItemsIdorder = [], m_monItems = [], m_valuesSet = 0,
     m_onDataCallback = False, notified = [] \<rparr>"

definition isSubscribed :: "subscription \<Rightarrow> bool" where
  "isSubscribed s \<longleftrightarrow> m_subId s \<noteq> 0"

text \<open>\<open>unsubscribe\<close> takes the mutex of the connection, which is not recursive.\<close>

definition unsubscribe :: "'c client_api \<Rightarrow> subscription \<times> 'c \<Rightarrow> subscription \<times> 'c" where
  "unsubscribe C sc = (case sc of (s, c) \<Rightarrow>
     let c' = (if m_subId s \<noteq> 0 then snd (delete_subscription C (m_subId s) c) else c)
     in (s \<lparr> m_subId := 0, m_monItems := [], m_valuesSet := 0 \<rparr>, c'))"

text \<open>\<open>std::map::insert\<close> keeps an entry that is there.\<close>

definition map_insert :: "32 word \<Rightarrow> mon_item \<Rightarrow> (32 word \<times> mon_item) list \<Rightarrow> (32 word \<times> mon_item) list" where
  "map_insert k x m = (if map_of m k = None then m @ [(k, x)] else m)"

text \<open>
  One monitored item per node. When one cannot be created the code calls \<open>unsubscribe\<close> while it holds
  the mutex itself: a second lock by its owner, which is undefined.
\<close>

fun add_items :: "'c client_api \<Rightarrow> node_id list \<Rightarrow> subscription \<times> 'c \<Rightarrow> (subscription \<times> 'c) result" where
  "add_items C [] sc = Inr sc"
| "add_items C (nodeId # nodeIds) (s, c) =
     (case create_monitored C (m_subId s) nodeId c of ((statusCode, monitoredItemId), c') \<Rightarrow>
        if statusCode \<noteq> 0 then Inl UndefinedBehaviour
        else add_items C nodeIds
          (s \<lparr> m_monitoredItemsIdorder := m_monitoredItemsIdorder s @ [monitoredItemId],
               m_monItems := map_insert monitoredItemId \<lparr> mi_node = nodeId, mi_value = None \<rparr> (m_monItems s) \<rparr>, c'))"

text \<open>The status code returned is \<open>ret\<close>, which stays good.\<close>

definition subscribe_nodes :: "'c client_api \<Rightarrow> node_id list \<Rightarrow> subscription \<times> 'c \<Rightarrow> (32 word \<times> subscription \<times> 'c) result" where
  "subscribe_nodes C nodeIds sc = (case sc of (s, c) \<Rightarrow>
     if isSubscribed s then Inl UndefinedBehaviour
     else (case create_subscription C c of ((serviceResult, subscriptionId), c') \<Rightarrow>
       let s' = s \<lparr> m_subId := subscriptionId \<rparr> in
       if serviceResult \<noteq> 0 then Inr (0, s', c')
       else if m_monItems s' \<noteq> [] then Inl AssertFailed
       else if m_monitoredItemsIdorder s' \<noteq> [] then Inl AssertFailed
       else rbind (add_items C nodeIds (s', c')) (\<lambda>sc'. Inr (0, sc'))))"

text \<open>\<open>AsyncSubscriptionOpcUa::addData\<close>: the buffer, then the callback.\<close>

definition sub_addData :: "desc \<Rightarrow> subscription \<Rightarrow> subscription result" where
  "sub_addData newData s = rbind (buf_addData newData s) (\<lambda>s'.
     Inr (if m_onDataCallback s' then s' \<lparr> notified := notified s' @ [newData] \<rparr> else s'))"

definition setOnDataCallback :: "bool \<Rightarrow> subscription \<Rightarrow> subscription" where
  "setOnDataCallback callback s = s \<lparr> m_onDataCallback := callback \<rparr>"

text \<open>
  \<open>AsyncSubscriptionWithCommObject::processValues\<close>: the values in one array, read into a fresh object,
  which goes into the buffer. A value that is not set is a null pointer.
\<close>

definition process_object :: "ua_api \<Rightarrow> desc \<Rightarrow> mon_item list \<Rightarrow> subscription \<Rightarrow> unit result \<times> subscription" where
  "process_object a fresh items s =
     (case rbind (traverse (\<lambda>item. case mi_value item of
            None \<Rightarrow> Inl UndefinedBehaviour
          | Some dv \<Rightarrow> Inr (Variant_copy a (case dv_value dv of None \<Rightarrow> null_variant | Some v \<Rightarrow> v))) items)
        (\<lambda>variantArray. rbind (UaVariantArrayToCommObject a variantArray (named '''' fresh))
        (\<lambda>newValue. sub_addData newValue s)) of
       Inl e \<Rightarrow> (Inl e, s)
     | Inr s' \<Rightarrow> (Inr (), s'))"

text \<open>The values in the order of the items, each reset when it is taken.\<close>

fun collect_values :: "32 word list \<Rightarrow> (32 word \<times> mon_item) list \<Rightarrow> mon_item list result \<times> (32 word \<times> mon_item) list" where
  "collect_values [] items = (Inr [], items)"
| "collect_values (i # ids) items = (case map_of items i of
     None \<Rightarrow> (Inl (SdkError ''Not all elements found.''), items)
   | Some item \<Rightarrow>
       (case collect_values ids (AList.update i (item \<lparr> mi_value := None \<rparr>) items) of
          (Inl e, items') \<Rightarrow> (Inl e, items')
        | (Inr rest, items') \<Rightarrow> (Inr (item # rest), items')))"

definition processValues :: "ua_api \<Rightarrow> desc \<Rightarrow> subscription \<Rightarrow> unit result \<times> subscription" where
  "processValues a fresh s = (case collect_values (m_monitoredItemsIdorder s) (m_monItems s) of
     (Inl e, items) \<Rightarrow> (Inl e, s \<lparr> m_monItems := items \<rparr>)
   | (Inr listOfValues, items) \<Rightarrow>
       process_object a fresh listOfValues (s \<lparr> m_monItems := items, m_valuesSet := 0 \<rparr>))"

definition valueChanged :: "ua_api \<Rightarrow> desc \<Rightarrow> 32 word \<Rightarrow> data_value \<Rightarrow> subscription \<Rightarrow> unit result \<times> subscription" where
  "valueChanged a fresh monId value s =
     (if (case dv_status value of None \<Rightarrow> False | Some st \<Rightarrow> st \<noteq> 0) then (Inr (), s)
      else if dv_value value = None then (Inr (), s)
      else (case map_of (m_monItems s) monId of
        None \<Rightarrow> (Inr (), s)
      | Some item \<Rightarrow>
          let s' = s \<lparr> m_valuesSet := (if mi_value item = None then m_valuesSet s + 1 else m_valuesSet s),
                 m_monItems := AList.update monId (item \<lparr> mi_value := Some value \<rparr>) (m_monItems s) \<rparr>
          in if m_valuesSet s' = length (m_monItems s') then processValues a fresh s' else (Inr (), s')))"

text \<open>\<open>AsyncSubscriptionWithCommObject::subscribe\<close>; \<open>orderOfFlat\<close> is the position of a description in the flat list.\<close>

definition subscribe_object :: "'c client_api \<Rightarrow> (browsed \<Rightarrow> nat option) \<Rightarrow> desc \<Rightarrow> node_id \<Rightarrow> subscription \<times> 'c
    \<Rightarrow> (32 word \<times> subscription \<times> 'c) result" where
  "subscribe_object C orderOfFlat fresh nodeId sc =
     (let nodeIds = list_sort (compare_flat orderOfFlat)
            (browse_nodes (\<lambda>i. browse C i (snd sc)) (named '''' fresh) nodeId);
        vecOfNodeIds = map br_node (filter (\<lambda>b. br_class b = CLASS_VARIABLE) nodeIds)
      in subscribe_nodes C vecOfNodeIds sc)"

subsection \<open>\<open>PushClient\<close>\<close>

text \<open>
  The connection the naming service gave, if any, the node of the service, the subscription and the
  reader, which exist together.
\<close>

record push_client =
  pc_connected :: bool
  m_startNodeId :: node_id
  m_pSubscription :: "subscription option"
  m_pReader :: "reader option"

definition pc_connect :: "(string \<Rightarrow> string \<Rightarrow> bool \<times> node_id) \<Rightarrow> string \<Rightarrow> string \<Rightarrow> push_client \<Rightarrow> status \<times> push_client" where
  "pc_connect naming server service p =
     (let retValue = naming server service in
      (SMART_OK, p \<lparr> pc_connected := fst retValue, m_startNodeId := snd retValue \<rparr>))"

definition pc_disconnect :: "push_client \<Rightarrow> status \<times> push_client" where
  "pc_disconnect p = (SMART_OK, p \<lparr> pc_connected := False \<rparr>)"

text \<open>\<open>blocking\<close> is accepted and ignored.\<close>

definition pc_blocking :: "bool \<Rightarrow> push_client \<Rightarrow> status \<times> push_client" where
  "pc_blocking b p = (SMART_OK, p)"

text \<open>
  \<open>subscribe\<close>: a new subscription and reader replace the old ones, whose destructor unsubscribes; then the
  callback is set and the service's node is subscribed, on the connection, which must be there. The
  status code of the subscription is ignored.
\<close>

definition pc_subscribe :: "'c client_api \<Rightarrow> (browsed \<Rightarrow> nat option) \<Rightarrow> desc \<Rightarrow> push_client \<times> 'c
    \<Rightarrow> (status \<times> push_client \<times> 'c) result" where
  "pc_subscribe C orderOfFlat fresh pc = (case pc of (p, c) \<Rightarrow>
     let c' = (case m_pSubscription p of
           None \<Rightarrow> c
         | Some old \<Rightarrow> snd (unsubscribe C (setOnDataCallback False old, c)))
     in if \<not> pc_connected p then Inl UndefinedBehaviour
        else rbind (subscribe_object C orderOfFlat fresh (m_startNodeId p)
            (setOnDataCallback True (new_subscription fresh), c'))
          (\<lambda>(_, s, c''). Inr (SMART_OK, p \<lparr> m_pSubscription := Some s, m_pReader := Some new_reader \<rparr>, c'')))"

definition pc_unsubscribe :: "'c client_api \<Rightarrow> push_client \<times> 'c \<Rightarrow> status \<times> push_client \<times> 'c" where
  "pc_unsubscribe C pc = (case pc of (p, c) \<Rightarrow>
     (SMART_OK, p \<lparr> m_pReader := None, m_pSubscription := None \<rparr>,
      case m_pSubscription p of None \<Rightarrow> c | Some old \<Rightarrow> snd (unsubscribe C (old, c))))"

text \<open>The destructor.\<close>

definition pc_destroy :: "'c client_api \<Rightarrow> push_client \<times> 'c \<Rightarrow> push_client \<times> 'c" where
  "pc_destroy C pc = snd (pc_unsubscribe C pc)"

definition readValueFromSubscription :: "64 word \<Rightarrow> subscription \<Rightarrow> desc option result" where
  "readValueFromSubscription offset s = rbind (buf_getData (m_dataCounter s + offset) s) (\<lambda>res.
     Inr (case res of None \<Rightarrow> None | Some (d, _, _) \<Rightarrow> Some d))"

text \<open>The status and the object the argument \<open>d\<close> is left with.\<close>

definition getUpdate :: "push_client \<Rightarrow> desc \<Rightarrow> (status \<times> desc) option result" where
  "getUpdate p d = (case (m_pReader p, m_pSubscription p) of
     (Some _, Some s) \<Rightarrow>
       if buf_empty s then Inr (Some (SMART_NODATA, d))
       else rbind (readValueFromSubscription (-1) s) (\<lambda>res. Inr (map_option (Pair SMART_OK) res))
   | _ \<Rightarrow> Inr (Some (SMART_UNSUBSCRIBED, d)))"

definition getUpdateWait :: "push_client \<Rightarrow> desc \<Rightarrow> (status \<times> desc) option result" where
  "getUpdateWait p d = (case (m_pReader p, m_pSubscription p) of
     (Some _, Some s) \<Rightarrow> rbind (readValueFromSubscription 0 s) (\<lambda>res. Inr (map_option (Pair SMART_OK) res))
   | _ \<Rightarrow> Inr (Some (SMART_UNSUBSCRIBED, d)))"

end
