(* ===== verification/SubscriptionProperties.thy ===== *)
theory SubscriptionProperties
  imports Subscription PushProperties "HOL-Library.Sublist"
begin

section \<open>Correctness of subscriptions\<close>

text \<open>
  The ring buffer as a list of which the last objects can be read (\<open>buf_rep\<close>); the interface the reader
  is written against (the locale \<open>object_stream\<close>, interpreted on the ring buffer) and what the reader
  gets through it in any interleaving with the writer; how a subscription finds the nodes of an object,
  and collects one value per node into an object (\<open>sub_ok\<close>); and the cases in which the code does not
  do what its comments say.
\<close>

subsection \<open>The ring buffer holds the last objects\<close>

lemma sint_of_nat_small: "n < 2 ^ 63 \<Longrightarrow> sint (of_nat n :: 64 word) = int n"
  by (simp add: signed_of_nat signed_take_bit_int_eq_self)

lemma unat_of_nat_small: "n < 2 ^ 64 \<Longrightarrow> unat (of_nat n :: 64 word) = n"
  by (simp add: unat_of_nat take_bit_nat_eq_self)

text \<open>
  The buffer after the objects \<open>xs\<close> were added: the counter is their number, each of the last ones is in
  its slot, and slots not yet written hold the default object.
\<close>

definition buf_rep :: "'a \<Rightarrow> ('a, 'm) buffer_scheme \<Rightarrow> 'a list \<Rightarrow> bool" where
  "buf_rep x b xs \<longleftrightarrow> length xs < 2 ^ 63 \<and> m_dataCounter b = of_nat (length xs) \<and> m_bufferSize b \<noteq> 0 \<and>
     length (m_dataBuffer b) = unat (m_bufferSize b) \<and>
     (\<forall>i < length xs. length xs \<le> i + unat (m_bufferSize b) \<longrightarrow>
        m_dataBuffer b ! (i mod unat (m_bufferSize b)) = xs ! i) \<and>
     (\<forall>j. length xs \<le> j \<and> j < unat (m_bufferSize b) \<longrightarrow> m_dataBuffer b ! j = x)"

definition capacity :: "('a, 'm) buffer_scheme \<Rightarrow> nat" where
  "capacity b = unat (m_bufferSize b)"

lemma new_buffer_rep: "n \<noteq> 0 \<Longrightarrow> buf_rep x (new_buffer x n) []"
  by (simp add: buf_rep_def new_buffer_def)

lemma mod_window: "i < l \<Longrightarrow> l < i + n \<Longrightarrow> i mod n \<noteq> l mod (n :: nat)"
proof
  assume "i < l" "l < i + n" "i mod n = l mod n"
  then have "n dvd l - i" by (simp add: mod_eq_dvd_iff_nat [symmetric])
  with \<open>i < l\<close> \<open>l < i + n\<close> show False using nat_dvd_not_less [of "l - i" n] by simp
qed

lemma buf_index_of_nat: "buf_rep x b xs \<Longrightarrow> k < 2 ^ 63 \<Longrightarrow> buf_index (of_nat k) b = Inr (k mod capacity b)"
  by (auto simp: buf_index_def buf_rep_def capacity_def unat_mod unat_of_nat_small)

lemma buf_addData_rep:
  assumes "buf_rep x b xs" "length xs + 1 < 2 ^ 63"
  shows "\<exists>b'. buf_addData y b = Inr b' \<and> buf_rep x b' (xs @ [y]) \<and> capacity b' = capacity b \<and>
    b' = b \<lparr> m_dataBuffer := m_dataBuffer b', m_dataCounter := m_dataCounter b' \<rparr>"
proof -
  let ?n = "capacity b" and ?l = "length xs"
  let ?b = "b \<lparr> m_dataBuffer := (m_dataBuffer b)[?l mod ?n := y], m_dataCounter := m_dataCounter b + 1 \<rparr>"
  have n: "0 < ?n" "length (m_dataBuffer b) = ?n" using assms(1) by (auto simp: buf_rep_def capacity_def unat_gt_0)
  have "buf_addData y b = Inr ?b"
    using assms(1) buf_index_of_nat [OF assms(1), of ?l] by (simp add: buf_addData_def buf_rep_def)
  moreover have "buf_rep x ?b (xs @ [y])"
    unfolding buf_rep_def
  proof (intro conjI allI impI)
    fix i assume i: "i < length (xs @ [y])" "length (xs @ [y]) \<le> i + unat (m_bufferSize ?b)"
    show "m_dataBuffer ?b ! (i mod unat (m_bufferSize ?b)) = (xs @ [y]) ! i"
    proof (cases "i = ?l")
      case True
      with n show ?thesis by (simp add: capacity_def [symmetric])
    next
      case False
      with i have "i < ?l" "?l < i + ?n" by (auto simp: capacity_def)
      with mod_window [OF this] assms(1) n show ?thesis by (simp add: capacity_def nth_append buf_rep_def)
    qed
  next
    fix j assume j: "length (xs @ [y]) \<le> j \<and> j < unat (m_bufferSize ?b)"
    then have "j \<noteq> ?l mod ?n" by (simp add: capacity_def)
    with j assms(1) show "m_dataBuffer ?b ! j = x" by (simp add: buf_rep_def)
  qed (use assms in \<open>auto simp: buf_rep_def\<close>)
  ultimately show ?thesis by (auto simp: capacity_def)
qed

lemma buf_hasData_of_nat: "buf_rep x b xs \<Longrightarrow> k < 2 ^ 63 \<Longrightarrow> buf_hasData (of_nat k) b \<longleftrightarrow> k < length xs"
  by (auto simp: buf_hasData_def buf_rep_def sint_of_nat_small)

lemma buf_getData_waits: "buf_rep x b xs \<Longrightarrow> k < 2 ^ 63 \<Longrightarrow> length xs \<le> k \<Longrightarrow> buf_getData (of_nat k) b = Inr None"
  by (simp add: buf_getData_def buf_hasData_of_nat)

lemma buf_getData_reads:
  assumes "buf_rep x b xs" "k < length xs"
  shows "buf_getData (of_nat k) b = Inr (Some (let j = max k (length xs - capacity b) in
    (xs ! j, capacity b < length xs - k, of_nat j)))"
proof -
  let ?l = "length xs" and ?n = "capacity b"
  have l: "?l < 2 ^ 63" "m_dataCounter b = of_nat ?l" "0 < ?n" using assms(1) by (auto simp: buf_rep_def capacity_def unat_gt_0)
  have "(of_nat ?l - of_nat k :: 64 word) = of_nat (?l - k)" using assms(2) by simp
  then have ovf: "(m_bufferSize b < m_dataCounter b - of_nat k) = (?n < ?l - k)"
    using l by (simp add: word_less_nat_alt unat_of_nat_small capacity_def)
  have slot: "rbind (buf_index (of_nat j) b) (\<lambda>i. Inr (Some (m_dataBuffer b ! i, f, c))) = Inr (Some (xs ! j, f, c))"
    if "j < ?l" "?l \<le> j + ?n" for j f c
    using that buf_index_of_nat [OF assms(1), of j] l assms(1) by (simp add: buf_rep_def capacity_def)
  show ?thesis
  proof (cases "?n < ?l - k")
    case True
    then have "m_dataCounter b - m_bufferSize b = of_nat (?l - ?n)"
      using l by (simp add: capacity_def)
    moreover have "max k (?l - ?n) = ?l - ?n" "?l - ?n < ?l" "?l \<le> ?l - ?n + ?n" using True l(3) assms(2) by auto
    ultimately show ?thesis using True assms l ovf slot [of "?l - ?n"]
      by (simp add: buf_getData_def buf_hasData_of_nat Let_def)
  next
    case False
    then have "max k (?l - ?n) = k" "?l \<le> k + ?n" by auto
    with False assms l ovf slot [of k] show ?thesis
      by (simp add: buf_getData_def buf_hasData_of_nat Let_def)
  qed
qed

subsection \<open>Reading through the interface\<close>

text \<open>
  What the reader relies on: the counter is the number of objects added, the object at a position is
  the one added there, or the oldest still held when that one was overwritten, and a position not yet
  added makes the caller wait.
\<close>

locale object_stream =
  fixes S :: "('a, 'b) subscription_api"
    and rep :: "'b \<Rightarrow> 'a list \<Rightarrow> bool"
    and cap :: "'b \<Rightarrow> nat"
  assumes bounded: "rep b xs \<Longrightarrow> length xs < 2 ^ 63"
    and cap_pos: "rep b xs \<Longrightarrow> 0 < cap b"
    and counter: "rep b xs \<Longrightarrow> api_getDataCounter S b = of_nat (length xs)"
    and empty: "rep b xs \<Longrightarrow> api_empty S b \<longleftrightarrow> xs = []"
    and waits: "rep b xs \<Longrightarrow> k < 2 ^ 63 \<Longrightarrow> length xs \<le> k \<Longrightarrow> api_getData S (of_nat k) b = Inr None"
    and reads: "rep b xs \<Longrightarrow> k < length xs \<Longrightarrow> api_getData S (of_nat k) b =
      Inr (Some (let j = max k (length xs - cap b) in (xs ! j, cap b < length xs - k, of_nat j)))"
    and adds: "rep b xs \<Longrightarrow> length xs + 1 < 2 ^ 63 \<Longrightarrow>
      \<exists>b'. api_addData S x b = Inr b' \<and> rep b' (xs @ [x]) \<and> cap b' = cap b"

text \<open>
  A producer that adds and a consumer that calls \<open>getData\<close>, in any order; a call that would wait has no
  effect yet. The results of the calls, and the final state.
\<close>

datatype 'a stream_op = Add 'a | Read

fun added :: "'a stream_op list \<Rightarrow> 'a list" where
  "added [] = []"
| "added (Add x # ops) = x # added ops"
| "added (Read # ops) = added ops"

fun stream_run :: "('a, 'b) subscription_api \<Rightarrow> 'a stream_op list \<Rightarrow> 'b \<times> reader \<Rightarrow> ('a list \<times> 'b \<times> reader) result" where
  "stream_run S [] br = Inr ([], br)"
| "stream_run S (Add x # ops) (b, r) = rbind (api_addData S x b) (\<lambda>b'. stream_run S ops (b', r))"
| "stream_run S (Read # ops) (b, r) = rbind (reader_getData S b r) (\<lambda>res. case res of
     None \<Rightarrow> stream_run S ops (b, r)
   | Some (x, r') \<Rightarrow> rbind (stream_run S ops (b, r')) (\<lambda>(xs, br). Inr (x # xs, br)))"

context object_stream
begin

lemma reader_step:
  assumes "rep b xs" "m_dataFetchCounter r = of_nat k" "k \<le> length xs"
  shows "k < length xs \<Longrightarrow> reader_getData S b r = Inr (Some (let j = max k (length xs - cap b) in
      (xs ! j, r \<lparr> m_dataFetchCounter := of_nat (j + 1), m_overflow := (m_overflow r \<or> cap b < length xs - k) \<rparr>)))"
    and "k = length xs \<Longrightarrow> reader_getData S b r = Inr None"
  using assms reads [OF assms(1), of k] waits [OF assms(1), of k] bounded [OF assms(1)]
  by (auto simp: reader_getData_def Let_def add.commute)

lemma subseq_take_nth:
  assumes "subseq ys (take k xs)" "k \<le> j" "j < length xs"
  shows "subseq (ys @ [xs ! j]) (take (j + 1) xs)"
proof -
  have "take (j + 1) xs = (take k xs @ take (j - k) (drop k xs)) @ [xs ! j]"
    using assms(2,3) by (simp add: take_Suc_conv_app_nth take_add [symmetric])
  then show ?thesis using assms(1) by (metis subseq_append_iff subseq_order.refl list_emb_prefix subseq_append')
qed

lemma run_subsequence:
  assumes "rep b xs" "m_dataFetchCounter r = of_nat k" "k \<le> length xs" "length xs + length (added ops) < 2 ^ 63"
    and "subseq ys (take k xs)" "m_overflow r \<or> ys = take k xs"
  shows "\<exists>zs b' r'. stream_run S ops (b, r) = Inr (zs, b', r') \<and> rep b' (xs @ added ops) \<and>
    subseq (ys @ zs) (xs @ added ops) \<and> (m_overflow r' \<or> ys @ zs = take (length (ys @ zs)) (xs @ added ops))"
  using assms
proof (induction ops arbitrary: b xs r k ys)
  case Nil
  have "subseq ys xs" using Nil.prems(5) by (metis append_take_drop_id list_emb_append2 list_emb_prefix)
  moreover have "m_overflow r \<or> ys = take (length ys) xs" using Nil.prems(3,6) by (auto simp: min_absorb2)
  ultimately show ?case using Nil.prems(1) by simp
next
  case (Cons op ops)
  show ?case
  proof (cases op)
    case (Add x)
    obtain b' where b': "api_addData S x b = Inr b'" "rep b' (xs @ [x])"
      using adds [OF Cons.prems(1), of x] Cons.prems(4) Add by auto
    have "k \<le> length (xs @ [x])" "take k (xs @ [x]) = take k xs" using Cons.prems(3) by auto
    with Cons.IH [OF b'(2) Cons.prems(2), of ys] Cons.prems(4-6) Add b'(1) show ?thesis by simp
  next
    case Read
    show ?thesis
    proof (cases "k = length xs")
      case True
      with Read Cons.prems Cons.IH [OF Cons.prems(1-3) _ Cons.prems(5,6)] show ?thesis
        by (simp add: reader_step(2) [OF Cons.prems(1,2)])
    next
      case False
      define j where "j = max k (length xs - cap b)"
      define r' where "r' = r \<lparr> m_dataFetchCounter := of_nat (j + 1), m_overflow := (m_overflow r \<or> cap b < length xs - k) \<rparr>"
      have k: "k < length xs" using False Cons.prems(3) by simp
      have j: "k \<le> j" "j < length xs" using k cap_pos [OF Cons.prems(1)] by (auto simp: j_def)
      have step: "reader_getData S b r = Inr (Some (xs ! j, r'))"
        using reader_step(1) [OF Cons.prems(1-3) k] by (simp add: j_def r'_def Let_def)
      have sub: "subseq (ys @ [xs ! j]) (take (j + 1) xs)" by (rule subseq_take_nth [OF Cons.prems(5) j])
      have keep: "m_overflow r' \<or> ys @ [xs ! j] = take (j + 1) xs"
      proof (cases "cap b < length xs - k")
        case False
        then have "j = k" by (simp add: j_def)
        with Cons.prems(6) k show ?thesis by (auto simp: r'_def take_Suc_conv_app_nth)
      qed (simp add: r'_def)
      have "m_dataFetchCounter r' = of_nat (j + 1)" "j + 1 \<le> length xs" using j by (auto simp: r'_def)
      from Cons.IH [OF Cons.prems(1) this _ sub keep] Cons.prems(4) Read step show ?thesis by auto
    qed
  qed
qed

text \<open>The last value through \<open>getLastAvailableData\<close>: the position after the last one, so the call waits for a new one.\<close>

lemma last_available_waits:
  assumes "rep b xs" "xs \<noteq> []" "length xs + 1 < 2 ^ 63"
  shows "getLastAvailableData S b r = Inr None"
  using assms waits [OF assms(1), of "length xs"] empty [OF assms(1)] counter [OF assms(1)] sint_of_nat_small [of "length xs"]
    sint_of_nat_small [of "length xs + 1"]
  by (simp add: getLastAvailableData_def seek_def reader_getData_def Let_def add.commute)

end

interpretation ring: object_stream ring_api "buf_rep x" capacity for x
proof unfold_locales
  fix b :: "('a, 'm) buffer_scheme" and xs
  assume b: "buf_rep x b xs"
  show "length xs < 2 ^ 63" "0 < capacity b" "api_getDataCounter ring_api b = of_nat (length xs)"
    using b by (auto simp: buf_rep_def capacity_def ring_api_def unat_gt_0)
  show "api_empty ring_api b \<longleftrightarrow> xs = []"
    using b unat_of_nat_small [of "length xs"] by (auto simp: ring_api_def buf_empty_def buf_rep_def)
qed (auto simp: ring_api_def buf_getData_waits buf_getData_reads dest: buf_addData_rep)

subsection \<open>Collecting the values of an object\<close>

text \<open>
  The items of a subscription as the list of item identifiers with their nodes and the values received
  so far; the state of a subscription between two notifications: some item has no value yet, and the
  objects \<open>xs\<close> went into the buffer.
\<close>

definition items_of :: "(32 word \<times> node_id) list \<Rightarrow> (32 word \<Rightarrow> data_value option) \<Rightarrow> (32 word \<times> mon_item) list" where
  "items_of ids f = map (\<lambda>(i, n). (i, \<lparr> mi_node = n, mi_value = f i \<rparr>)) ids"

definition missing :: "(32 word \<times> node_id) list \<Rightarrow> (32 word \<Rightarrow> data_value option) \<Rightarrow> 32 word set" where
  "missing ids f = {i \<in> fst ` set ids. f i = None}"

definition sub_ok :: "desc \<Rightarrow> (32 word \<times> node_id) list \<Rightarrow> (32 word \<Rightarrow> data_value option) \<Rightarrow> desc list \<Rightarrow> subscription \<Rightarrow> bool" where
  "sub_ok fresh ids f xs s \<longleftrightarrow> distinct (map fst ids) \<and> m_monitoredItemsIdorder s = map fst ids \<and>
     m_monItems s = items_of ids f \<and> m_valuesSet s + card (missing ids f) = length ids \<and> buf_rep fresh s xs"

lemma finite_missing [simp]: "finite (missing ids f)"
  by (simp add: missing_def)

lemma map_of_items: "map_of (items_of ids f) i = map_option (\<lambda>n. \<lparr> mi_node = n, mi_value = f i \<rparr>) (map_of ids i)"
  by (induction ids) (auto simp: items_of_def)

lemma items_of_cong: "(\<And>i. i \<in> fst ` set ids \<Longrightarrow> f i = g i) \<Longrightarrow> items_of ids f = items_of ids g"
  by (force simp: items_of_def)

lemma update_items:
  "distinct (map fst ids) \<Longrightarrow> map_of ids i = Some n \<Longrightarrow>
    AList.update i \<lparr> mi_node = n, mi_value = v \<rparr> (items_of ids f) = items_of ids (f(i := v))"
proof (induction ids)
  case (Cons x ids)
  show ?case
  proof (cases "fst x = i")
    case True
    with Cons.prems have "items_of ids (f(i := v)) = items_of ids f"
      by (intro items_of_cong) (auto simp: image_iff)
    with True Cons.prems show ?thesis by (cases x) (auto simp: items_of_def)
  next
    case False
    with Cons show ?thesis by (cases x) (auto simp: items_of_def)
  qed
qed simp

lemma collect_items:
  "distinct (map fst ids) \<Longrightarrow> distinct ks \<Longrightarrow> set ks \<subseteq> fst ` set ids \<Longrightarrow>
    collect_values ks (items_of ids f) =
      (Inr (map (\<lambda>k. \<lparr> mi_node = the (map_of ids k), mi_value = f k \<rparr>) ks),
       items_of ids (\<lambda>i. if i \<in> set ks then None else f i))"
proof (induction ks arbitrary: f)
  case (Cons k ks)
  obtain n where n: "map_of ids k = Some n"
    using Cons.prems(1,3) by (auto dest: weak_map_of_SomeI)
  have upd: "AList.update k (\<lparr> mi_node = n, mi_value = f k \<rparr> \<lparr> mi_value := None \<rparr>) (items_of ids f) = items_of ids (f(k := None))"
    using update_items [OF Cons.prems(1) n, of None f] by simp
  have "(\<lambda>i. if i \<in> set ks then None else (f(k := None)) i) = (\<lambda>i. if i \<in> set (k # ks) then None else f i)"
    by auto
  moreover have "map (\<lambda>j. \<lparr> mi_node = the (map_of ids j), mi_value = (f(k := None)) j \<rparr>) ks =
      map (\<lambda>j. \<lparr> mi_node = the (map_of ids j), mi_value = f j \<rparr>) ks"
    using Cons.prems(2) by auto
  moreover have "collect_values (k # ks) (items_of ids f) = (case collect_values ks (items_of ids (f(k := None))) of
       (Inl e, items') \<Rightarrow> (Inl e, items')
     | (Inr rest, items') \<Rightarrow> (Inr (\<lparr> mi_node = n, mi_value = f k \<rparr> # rest), items'))"
    using n upd by (simp add: map_of_items del: fun_upd_apply)
  ultimately show ?case using Cons.IH [of "f(k := None)"] Cons.prems n by (simp del: fun_upd_apply collect_values.simps)
qed simp

lemma missing_update: "i \<in> missing ids f \<Longrightarrow> missing ids (f(i := Some v)) = missing ids f - {i}"
  by (auto simp: missing_def)

text \<open>A value the subscription counts: it carries a value, and no bad status.\<close>

definition good_value :: "data_value \<Rightarrow> bool" where
  "good_value dv \<longleftrightarrow> dv_value dv \<noteq> None \<and> (dv_status dv = None \<or> dv_status dv = Some 0)"

lemma valueChanged_good:
  assumes "sub_ok fresh ids f xs s" "good_value dv" "map_of ids i = Some n"
  shows "valueChanged a fresh i dv s =
    (let s' = s \<lparr> m_valuesSet := (if f i = None then m_valuesSet s + 1 else m_valuesSet s),
           m_monItems := items_of ids (f(i := Some dv)) \<rparr>
     in if m_valuesSet s' = length ids then processValues a fresh s' else (Inr (), s'))"
proof -
  have "AList.update i (\<lparr> mi_node = n, mi_value = f i \<rparr> \<lparr> mi_value := Some dv \<rparr>) (m_monItems s) = items_of ids (f(i := Some dv))"
    using update_items [OF _ assms(3), of "Some dv" f] assms(1) by (simp add: sub_ok_def)
  moreover have "length (items_of ids g) = length ids" for g by (simp add: items_of_def)
  ultimately show ?thesis using assms
    by (auto simp: valueChanged_def good_value_def sub_ok_def map_of_items Let_def)
qed

lemma valueChanged_stores:
  assumes "sub_ok fresh ids f xs s" "good_value dv" "i \<in> fst ` set ids" "missing ids f - {i} \<noteq> {}"
  shows "\<exists>s'. valueChanged a fresh i dv s = (Inr (), s') \<and> sub_ok fresh ids (f(i := Some dv)) xs s' \<and>
    m_onDataCallback s' = m_onDataCallback s \<and> notified s' = notified s \<and> m_subId s' = m_subId s"
proof -
  obtain n where n: "map_of ids i = Some n"
    using assms(1,3) by (auto simp: sub_ok_def dest: weak_map_of_SomeI)
  have miss: "missing ids (f(i := Some dv)) = missing ids f - {i}" by (auto simp: missing_def)
  have "(if f i = None then m_valuesSet s + 1 else m_valuesSet s) + card (missing ids f - {i}) = length ids"
  proof (cases "f i = None")
    case True
    then have "card (missing ids f) = Suc (card (missing ids f - {i}))"
      using assms(3) by (intro card_Suc_Diff1 [symmetric]) (auto simp: missing_def)
    with True assms(1) show ?thesis by (simp add: sub_ok_def)
  next
    case False
    then have "missing ids f - {i} = missing ids f" by (auto simp: missing_def)
    with False assms(1) show ?thesis by (simp add: sub_ok_def)
  qed
  moreover from assms(4) have "0 < card (missing ids f - {i})" by (simp add: card_gt_0_iff)
  ultimately show ?thesis
    using assms(1) miss valueChanged_good [OF assms(1,2) n, of a] by (auto simp: sub_ok_def Let_def buf_rep_def)
qed

text \<open>The variant a data value carries, and the object the values of all items make.\<close>

definition dv_variant :: "data_value \<Rightarrow> variant" where
  "dv_variant dv = (case dv_value dv of None \<Rightarrow> null_variant | Some v \<Rightarrow> v)"

lemma valueChanged_completes:
  assumes "sub_ok fresh ids f xs s" "good_value dv" "i \<in> fst ` set ids" "missing ids f = {i}" "api_ok a"
    and "UaVariantArrayToCommObject a (map (\<lambda>k. dv_variant (the ((f(i := Some dv)) k))) (map fst ids)) (named '''' fresh) = Inr d"
    and "length xs + 1 < 2 ^ 63"
  shows "\<exists>s'. valueChanged a fresh i dv s = (Inr (), s') \<and> sub_ok fresh ids (\<lambda>_. None) (xs @ [d]) s' \<and>
    m_onDataCallback s' = m_onDataCallback s \<and> m_subId s' = m_subId s \<and>
    notified s' = notified s @ (if m_onDataCallback s then [d] else [])"
proof -
  let ?f = "f(i := Some dv)"
  obtain n where n: "map_of ids i = Some n"
    using assms(1,3) by (auto simp: sub_ok_def dest: weak_map_of_SomeI)
  have fi: "f i = None" using assms(4) by (auto simp: missing_def)
  have set_all: "?f k \<noteq> None" if "k \<in> fst ` set ids" for k
    using that assms(4) by (cases "k = i") (auto simp: missing_def)
  let ?s = "s \<lparr> m_valuesSet := m_valuesSet s + 1, m_monItems := items_of ids ?f \<rparr>"
  let ?vals = "map (\<lambda>k. \<lparr> mi_node = the (map_of ids k), mi_value = ?f k \<rparr>) (map fst ids)"
  let ?t = "s \<lparr> m_monItems := items_of ids (\<lambda>_. None), m_valuesSet := 0 \<rparr>"
  have "valueChanged a fresh i dv s = processValues a fresh ?s"
    using valueChanged_good [OF assms(1,2) n, of a] fi assms(1,4) by (simp add: sub_ok_def)
  moreover have "items_of ids (\<lambda>k. if k \<in> set (map fst ids) then None else ?f k) = items_of ids (\<lambda>_. None)"
    by (rule items_of_cong) simp
  then have "collect_values (m_monitoredItemsIdorder ?s) (m_monItems ?s) = (Inr ?vals, items_of ids (\<lambda>_. None))"
    using collect_items [of ids "map fst ids" ?f] assms(1) by (simp add: sub_ok_def)
  then have "processValues a fresh ?s = process_object a fresh ?vals ?t"
    by (simp add: processValues_def)
  moreover have "traverse (\<lambda>item. case mi_value item of None \<Rightarrow> Inl UndefinedBehaviour
       | Some dv \<Rightarrow> Inr (Variant_copy a (case dv_value dv of None \<Rightarrow> null_variant | Some v \<Rightarrow> v))) ?vals =
      Inr (map (\<lambda>item. dv_variant (the (mi_value item))) ?vals)"
  proof (rule traverse_map_Inr)
    fix item assume "item \<in> set ?vals"
    then obtain k where k: "k \<in> fst ` set ids" "mi_value item = ?f k" by (fastforce simp del: fun_upd_apply)
    have "mi_value item \<noteq> None" unfolding k(2) by (rule set_all [OF k(1)])
    then show "(case mi_value item of None \<Rightarrow> Inl UndefinedBehaviour
       | Some dv \<Rightarrow> Inr (Variant_copy a (case dv_value dv of None \<Rightarrow> null_variant | Some v \<Rightarrow> v))) =
      Inr (dv_variant (the (mi_value item)))"
      using assms(5) by (auto simp: conv_simps dv_variant_def)
  qed
  moreover have "map (\<lambda>item. dv_variant (the (mi_value item))) ?vals = map (\<lambda>k. dv_variant (the (?f k))) (map fst ids)"
    by simp
  moreover have "buf_rep fresh ?t xs" using assms(1) by (simp add: sub_ok_def buf_rep_def)
  from buf_addData_rep [OF this assms(7), of d] obtain b' where
    b': "buf_addData d ?t = Inr b'" "buf_rep fresh b' (xs @ [d])"
      "b' = ?t \<lparr> m_dataBuffer := m_dataBuffer b', m_dataCounter := m_dataCounter b' \<rparr>" by blast
  ultimately have "valueChanged a fresh i dv s =
      (Inr (), if m_onDataCallback b' then b' \<lparr> notified := notified b' @ [d] \<rparr> else b')"
    using assms(6) by (simp add: process_object_def sub_addData_def del: map_map)
  moreover have "m_onDataCallback b' = m_onDataCallback s" "notified b' = notified s" "m_subId b' = m_subId s"
    "m_monitoredItemsIdorder b' = m_monitoredItemsIdorder s" "m_monItems b' = items_of ids (\<lambda>_. None)" "m_valuesSet b' = 0"
    by (subst b'(3), simp)+
  moreover have "card (missing ids (\<lambda>_. None)) = length ids"
    using assms(1) distinct_card [of "map fst ids"] by (simp add: missing_def sub_ok_def)
  ultimately show ?thesis using assms(1) b'(2) by (auto simp: sub_ok_def buf_rep_def)
qed

fun notify_all :: "ua_api \<Rightarrow> desc \<Rightarrow> (32 word \<times> data_value) list \<Rightarrow> subscription action" where
  "notify_all a fresh [] s = (Inr (), s)"
| "notify_all a fresh ((i, dv) # ns) s = then_do (valueChanged a fresh i dv s) (notify_all a fresh ns)"

lemma notify_round:
  assumes "sub_ok fresh ids f xs s" "api_ok a" "length xs + 1 < 2 ^ 63" "ns \<noteq> []"
    and "distinct (map fst ns)" "fst ` set ns = missing ids f" "\<forall>(i, dv) \<in> set ns. good_value dv"
    and "UaVariantArrayToCommObject a
      (map (\<lambda>k. dv_variant (the (case map_of ns k of None \<Rightarrow> f k | Some dv \<Rightarrow> Some dv))) (map fst ids)) (named '''' fresh) = Inr d"
  shows "\<exists>s'. notify_all a fresh ns s = (Inr (), s') \<and> sub_ok fresh ids (\<lambda>_. None) (xs @ [d]) s' \<and>
    m_onDataCallback s' = m_onDataCallback s \<and> m_subId s' = m_subId s \<and>
    notified s' = notified s @ (if m_onDataCallback s then [d] else [])"
  using assms
proof (induction ns arbitrary: f s)
  case (Cons x ns)
  obtain i dv where x: "x = (i, dv)" by (cases x)
  have i: "i \<in> fst ` set ids" "good_value dv" "i \<notin> fst ` set ns" "missing ids f = insert i (fst ` set ns)"
    using Cons.prems(5-7) x by (auto simp: missing_def)
  have vals: "(case map_of (x # ns) k of None \<Rightarrow> f k | Some dv \<Rightarrow> Some dv) =
      (case map_of ns k of None \<Rightarrow> (f(i := Some dv)) k | Some dv \<Rightarrow> Some dv)" for k
  proof (cases "k = i")
    case True
    then have "map_of ns k = None" using i(3) by (simp add: map_of_eq_None_iff)
    with True x show ?thesis by simp
  qed (use x in \<open>simp split: option.split\<close>)
  show ?case
  proof (cases "ns = []")
    case True
    then have "UaVariantArrayToCommObject a (map (\<lambda>k. dv_variant (the ((f(i := Some dv)) k))) (map fst ids)) (named '''' fresh) = Inr d"
      using Cons.prems(8) unfolding vals by simp
    from valueChanged_completes [OF Cons.prems(1) i(2,1) _ Cons.prems(2) this Cons.prems(3)] True x i(4)
    show ?thesis by auto
  next
    case False
    then have "missing ids f - {i} \<noteq> {}" using i(3,4) by auto
    from valueChanged_stores [OF Cons.prems(1) i(2,1) this, of a] obtain s1 where
      s1: "valueChanged a fresh i dv s = (Inr (), s1)" "sub_ok fresh ids (f(i := Some dv)) xs s1"
        "m_onDataCallback s1 = m_onDataCallback s" "notified s1 = notified s" "m_subId s1 = m_subId s" by blast
    have "fst ` set ns = missing ids (f(i := Some dv))" using i(3,4) by (auto simp: missing_def)
    from Cons.IH [OF s1(2) Cons.prems(2,3) False _ this] Cons.prems(5,7,8) s1 x show ?thesis
      unfolding vals by auto
  qed
qed simp

subsection \<open>Finding the nodes and subscribing to them\<close>

text \<open>The comparison is constantly false, so sorting with it changes nothing.\<close>

lemma compare_flat_False [simp]: "\<not> compare_flat order l r"
  by (cases "order l") (auto simp: compare_flat_def)

lemma list_sort_id [simp]: "list_sort (compare_flat order) xs = xs"
proof -
  have "insert_by (compare_flat order) x ys = x # ys" for x ys by (cases ys) auto
  then show ?thesis by (induction xs) (auto simp: list_sort_def)
qed

text \<open>
  A server that lists, below every object node of a description, the members in their order; references
  with other names, as to the type of the node, may come anywhere between.
\<close>

definition child_ref :: "namespaces \<Rightarrow> node_id \<Rightarrow> desc \<Rightarrow> browse_ref" where
  "child_ref N i d = \<lparr> ref_name = getName d,
     ref_class = (if is_complex d then CLASS_OBJECT else CLASS_VARIABLE), ref_target = child_id N i d \<rparr>"

fun lists_members :: "(node_id \<Rightarrow> browse_ref list list) \<Rightarrow> namespaces \<Rightarrow> node_id \<Rightarrow> desc \<Rightarrow> bool" where
  "lists_members br N i (Complex n ds) \<longleftrightarrow>
     filter (\<lambda>ref. ref_name ref \<in> getName ` set ds) (concat (br i)) = map (child_ref N i) ds \<and>
     list_all (\<lambda>d. lists_members br N (child_id N i d) d) ds"
| "lists_members br N i d = True"

lemma getDescriptionByName_None: "getDescriptionByName n ds = None \<longleftrightarrow> n \<notin> getName ` set ds"
  by (auto simp: getDescriptionByName_def find_None_iff)

lemma getDescriptionByName_member:
  "distinct (map getName ds) \<Longrightarrow> d \<in> set ds \<Longrightarrow> getDescriptionByName (getName d) ds = Some d"
  unfolding getDescriptionByName_def by (induction ds) (auto simp: image_iff)

lemma concat_map_filter: "(\<And>x. x \<in> set xs \<Longrightarrow> \<not> P x \<Longrightarrow> f x = []) \<Longrightarrow> concat (map f xs) = concat (map f (filter P xs))"
  by (induction xs) auto

fun below :: "namespaces \<Rightarrow> node_id \<Rightarrow> desc \<Rightarrow> node_id list" where
  "below N i (Complex n ds) = concat (map (\<lambda>d. below N (child_id N i d) d) ds)"
| "below N i d = [i]"

lemma below_leaf_ids: "below N (child_id N par d) d = leaf_ids N par d"
proof (induction d arbitrary: par)
  case (Complex n ds)
  then show ?case by (simp cong: map_cong)
qed auto

lemma browse_leaf: "\<not> is_complex d \<Longrightarrow> browse_nodes br d i = [\<lparr> br_node = i, br_desc = d, br_class = CLASS_VARIABLE \<rparr>]"
  by (cases d) auto

lemma browse_finds:
  assumes "names_ok d" "lists_members br N i d"
  shows "map br_node (browse_nodes br d i) = below N i d \<and> (\<forall>b \<in> set (browse_nodes br d i). br_class b = CLASS_VARIABLE)"
  using assms
proof (induction d arbitrary: i)
  case (Complex n ds)
  define f where "f = (\<lambda>ref :: browse_ref. case getDescriptionByName (ref_name ref) ds of
       None \<Rightarrow> []
     | Some (Complex m es) \<Rightarrow>
         if ref_class ref = CLASS_OBJECT then browse_nodes br (Complex m es) (ref_target ref) else []
     | Some d \<Rightarrow>
         if ref_class ref = CLASS_VARIABLE
         then [\<lparr> br_node = ref_target ref, br_desc = d, br_class = ref_class ref \<rparr>] else [])"
  have "f (child_ref N i d) = browse_nodes br d (child_id N i d)" if "d \<in> set ds" for d
    using getDescriptionByName_member [of ds d] that Complex.prems(1)
    by (cases d) (simp_all add: child_ref_def f_def)
  then have *: "map (f \<circ> child_ref N i) ds = map (\<lambda>d. browse_nodes br d (child_id N i d)) ds" by simp
  have "concat (map f (concat (br i))) = concat (map f (filter (\<lambda>ref. ref_name ref \<in> getName ` set ds) (concat (br i))))"
    by (rule concat_map_filter) (simp add: getDescriptionByName_None [symmetric] f_def)
  also have "\<dots> = concat (map (\<lambda>d. browse_nodes br d (child_id N i d)) ds)"
    using Complex.prems(2) by (simp add: * [unfolded comp_def] comp_def del: map_eq_conv)
  finally have browse: "browse_nodes br (Complex n ds) i = concat (map (\<lambda>d. browse_nodes br d (child_id N i d)) ds)"
    by (simp add: f_def)
  have IH: "map br_node (browse_nodes br d (child_id N i d)) = below N (child_id N i d) d \<and>
      (\<forall>b \<in> set (browse_nodes br d (child_id N i d)). br_class b = CLASS_VARIABLE)" if "d \<in> set ds" for d
    using that Complex.prems by (intro Complex.IH) (auto simp: list_all_iff)
  then show ?case by (auto simp: browse map_concat cong: map_cong simp del: browse_nodes.simps)
qed (auto simp: browse_leaf)

lemma subscribed_nodes:
  assumes "names_ok d" "lists_members br N i d"
  shows "map br_node (filter (\<lambda>b. br_class b = CLASS_VARIABLE) (list_sort (compare_flat order) (browse_nodes br d i))) = below N i d"
  using browse_finds [OF assms] by (simp add: filter_id_conv)

text \<open>The item identifiers the connection hands out for a list of nodes, when every item can be created.\<close>

fun create_items :: "'c client_api \<Rightarrow> 32 word \<Rightarrow> node_id list \<Rightarrow> 'c \<Rightarrow> (32 word list \<times> 'c) option" where
  "create_items C sub [] c = Some ([], c)"
| "create_items C sub (n # ns) c = (case create_monitored C sub n c of ((st, i), c') \<Rightarrow>
     if st \<noteq> 0 then None else map_option (\<lambda>(is, c''). (i # is, c'')) (create_items C sub ns c'))"

lemma create_items_length: "create_items C sub ns c = Some (is, c') \<Longrightarrow> length is = length ns"
proof (induction ns arbitrary: c "is")
  case (Cons n ns)
  obtain st i c1 where c1: "create_monitored C sub n c = ((st, i), c1)" by (metis surj_pair)
  with Cons.prems obtain js where "is = i # js" "create_items C sub ns c1 = Some (js, c')"
    by (auto split: if_splits)
  with Cons.IH [of c1 js] show ?case by simp
qed simp

lemma add_items_ok:
  "create_items C (m_subId s) ns c = Some (is, c') \<Longrightarrow> distinct (map fst (m_monItems s) @ is) \<Longrightarrow>
    add_items C ns (s, c) = Inr (s \<lparr> m_monitoredItemsIdorder := m_monitoredItemsIdorder s @ is,
      m_monItems := m_monItems s @ items_of (zip is ns) (\<lambda>_. None) \<rparr>, c')"
proof (induction ns arbitrary: s c "is")
  case Nil
  then show ?case by (simp add: items_of_def)
next
  case (Cons n ns)
  obtain st i c1 where c1: "create_monitored C (m_subId s) n c = ((st, i), c1)" by (metis surj_pair)
  with Cons.prems(1) obtain js where js: "st = 0" "is = i # js" "create_items C (m_subId s) ns c1 = Some (js, c')"
    by (auto split: if_splits)
  let ?s = "s \<lparr> m_monitoredItemsIdorder := m_monitoredItemsIdorder s @ [i],
      m_monItems := m_monItems s @ [(i, \<lparr> mi_node = n, mi_value = None \<rparr>)] \<rparr>"
  have "map_of (m_monItems s) i = None" using Cons.prems(2) js(2) by (simp add: map_of_eq_None_iff)
  then have "add_items C (n # ns) (s, c) = add_items C ns (?s, c1)" using c1 js(1) by (simp add: map_insert_def)
  moreover have "add_items C ns (?s, c1) = Inr (?s \<lparr> m_monitoredItemsIdorder := m_monitoredItemsIdorder ?s @ js,
      m_monItems := m_monItems ?s @ items_of (zip js ns) (\<lambda>_. None) \<rparr>, c')"
    by (rule Cons.IH) (use js Cons.prems(2) in auto)
  ultimately show ?case using js(2) by (simp add: items_of_def)
qed

lemma subscribe_nodes_ok:
  assumes "create_subscription C c = ((0, sid), c1)" "create_items C sid ns c1 = Some (is, c2)" "distinct is"
  shows "\<exists>s. subscribe_nodes C ns (setOnDataCallback b (new_subscription fresh), c) = Inr (0, s, c2) \<and>
    sub_ok fresh (zip is ns) (\<lambda>_. None) [] s \<and> m_onDataCallback s = b \<and> notified s = [] \<and> m_subId s = sid"
proof -
  let ?s = "setOnDataCallback b (new_subscription fresh)"
  have len: "length is = length ns" by (rule create_items_length [OF assms(2)])
  then have keys: "map fst (zip is ns) = is" by simp
  then have "card (missing (zip is ns) (\<lambda>_. None)) = length (zip is ns)"
    using distinct_card [of "map fst (zip is ns)"] assms(3) len by (simp add: missing_def set_map [symmetric] del: set_map)
  moreover have "buf_rep fresh (?s \<lparr> m_subId := sid, m_monitoredItemsIdorder := is, m_monItems := items_of (zip is ns) (\<lambda>_. None) \<rparr>) []"
    by (simp add: buf_rep_def new_subscription_def setOnDataCallback_def nth_replicate)
  ultimately show ?thesis
    using assms(1) add_items_ok [of C "?s \<lparr> m_subId := sid \<rparr>" ns c1 "is" c2] assms(2,3) len keys
    by (auto simp: subscribe_nodes_def isSubscribed_def setOnDataCallback_def new_subscription_def sub_ok_def)
qed

text \<open>What the client reads from its buffer.\<close>

lemma readValue_last:
  assumes "buf_rep x s xs" "xs \<noteq> []"
  shows "readValueFromSubscription (-1) s = Inr (Some (last xs))"
proof -
  have l: "length xs < 2 ^ 63" "m_dataCounter s = of_nat (length xs)" using assms(1) by (auto simp: buf_rep_def)
  have "m_dataCounter s + -1 = of_nat (length xs - 1)" using l assms(2) by (cases xs) auto
  moreover have "max (length xs - 1) (length xs - capacity s) = length xs - 1"
    using ring.cap_pos [OF assms(1)] by simp
  ultimately show ?thesis using assms buf_getData_reads [OF assms(1), of "length xs - 1"]
    by (simp add: readValueFromSubscription_def Let_def last_conv_nth)
qed

lemma readValue_next:
  assumes "buf_rep x s xs"
  shows "readValueFromSubscription 0 s = Inr None"
  using assms buf_getData_waits [OF assms, of "length xs"]
  by (simp add: readValueFromSubscription_def buf_rep_def)

subsection \<open>Properties of the buffer and its reader\<close>

text \<open>The specification of the buffer: a list of all objects of which the last \<open>n\<close> can be read.\<close>

definition stream_get :: "nat \<Rightarrow> 'a list \<Rightarrow> nat \<Rightarrow> ('a \<times> bool \<times> nat) option" where
  "stream_get n xs k = (let j = max k (length xs - n) in
     if k < length xs then Some (xs ! j, n < length xs - k, j) else None)"

lemma ring_filled:
  assumes "buf_rep x b xs" "length (xs @ ys) < 2 ^ 63"
  shows "\<exists>b'. foldM (\<lambda>b y. buf_addData y b) b ys = Inr b' \<and> buf_rep x b' (xs @ ys) \<and> capacity b' = capacity b"
  using assms
proof (induction ys arbitrary: b xs)
  case (Cons y ys)
  then obtain b1 where b1: "buf_addData y b = Inr b1" "buf_rep x b1 (xs @ [y])" "capacity b1 = capacity b"
    using buf_addData_rep [OF Cons.prems(1), of y] by auto
  with Cons.IH [OF b1(2)] Cons.prems(2) show ?case by simp
qed simp

text \<open>C9: The ring buffer implements a list of all received objects of which the last ones, as many as the buffer has
  slots, can be read: asked for a position it returns the object received there, or the oldest kept one with the
  overflow flag when that position was overwritten, with the position it read; for a position not yet received
  it waits.\<close>

theorem ring_buffer_refines_stream:
  assumes "n \<noteq> 0" "length xs < 2 ^ 63" "k < 2 ^ 63"
  shows "rbind (foldM (\<lambda>b y. buf_addData y b) (new_buffer x n) xs) (buf_getData (of_nat k)) =
    Inr (map_option (\<lambda>(y, overflow, j). (y, overflow, of_nat j)) (stream_get (unat n) xs k))"
proof -
  obtain b where b: "foldM (\<lambda>b y. buf_addData y b) (new_buffer x n) xs = Inr b" "buf_rep x b xs" "capacity b = unat n"
    using ring_filled [OF new_buffer_rep [OF assms(1)], of xs x] assms(2) by (auto simp: capacity_def new_buffer_def)
  then show ?thesis
    using buf_getData_reads [OF b(2)] buf_getData_waits [OF b(2) assms(3)]
    by (cases "k < length xs") (auto simp: stream_get_def Let_def)
qed

theorem ring_buffer_refines_stream_witness:
  "rbind (foldM (\<lambda>b y. buf_addData y b) (new_buffer (0 :: nat) 2) [5, 6, 7]) (buf_getData (of_nat 0)) = Inr (Some (6, True, 1))"
  using ring_buffer_refines_stream [of 2 "[5, 6, 7 :: nat]" 0 0] by (simp add: stream_get_def)

text \<open>C32: Whatever the order in which objects are received and the reader reads, the reader gets a subsequence of the
  received objects in their order, and unless its overflow flag is set it got the first ones of them without a
  gap.\<close>

theorem reader_loses_nothing_silently:
  assumes "n \<noteq> 0" "length (added ops) < 2 ^ 63"
  shows "\<exists>ys b r. stream_run ring_api ops (new_buffer x n, new_reader) = Inr (ys, b, r) \<and>
    subseq ys (added ops) \<and> (m_overflow r \<or> ys = take (length ys) (added ops))"
  using ring.run_subsequence [OF new_buffer_rep [OF assms(1), of x], of new_reader 0 ops "[]"] assms(2)
  by (auto simp: new_reader_def)

theorem reader_loses_nothing_silently_witness:
  "\<exists>ys b r. stream_run ring_api [Read, Add 1, Add 2, Read, Add 3, Add 4, Add 5, Read, Read, Read] (new_buffer (0 :: nat) 2, new_reader) =
      Inr (ys, b, r) \<and>
    subseq ys [1, 2, 3, 4, 5] \<and> (m_overflow r \<or> ys = take (length ys) [1, 2, 3, 4, 5])"
  using reader_loses_nothing_silently [of 2 "[Read, Add 1, Add 2, Read, Add 3, Add 4, Add 5, Read, Read, Read]" "0 :: nat"] by simp

text \<open>\<open>getLastAvailableData\<close> does not return the last received object: it moves the reader behind that object
  (the end position is the counter, not the counter plus one), so with objects received it waits for the next
  one and returns that.\<close>

theorem last_available_is_the_next:
  assumes "buf_rep x b xs" "xs \<noteq> []" "length xs + 1 < 2 ^ 63"
  shows "getLastAvailableData ring_api b r = Inr None \<and>
    rbind (buf_addData y b) (\<lambda>b'. reader_getData ring_api b' (seek ring_api b (-1) REF_END r)) =
      Inr (Some (y, r \<lparr> m_dataFetchCounter := of_nat (length xs + 1) \<rparr>))"
proof -
  obtain b' where b': "buf_addData y b = Inr b'" "buf_rep x b' (xs @ [y])"
    using buf_addData_rep [OF assms(1,3)] by blast
  have "seek ring_api b (-1) REF_END r = r \<lparr> m_dataFetchCounter := of_nat (length xs) \<rparr>"
    using ring.counter [OF assms(1)] assms(3) sint_of_nat_small [of "length xs"] sint_of_nat_small [of "length xs + 1"]
    by (simp add: seek_def Let_def add.commute)
  moreover have "reader_getData ring_api b' (r \<lparr> m_dataFetchCounter := of_nat (length xs) \<rparr>) =
      Inr (Some (y, r \<lparr> m_dataFetchCounter := of_nat (length xs + 1) \<rparr>))"
    using ring.reader_step(1) [OF b'(2), of "r \<lparr> m_dataFetchCounter := of_nat (length xs) \<rparr>" "length xs"]
      ring.cap_pos [OF b'(2)] max_absorb1 [of "Suc (length xs) - capacity b'" "length xs"] by (simp add: Let_def)
  ultimately show ?thesis using ring.last_available_waits [OF assms, of r] b'(1) by simp
qed

theorem last_available_is_the_next_witness:
  "\<exists>b. buf_addData (4 :: nat) (new_buffer 0 8) = Inr b \<and> getLastAvailableData ring_api b new_reader = Inr None"
proof -
  obtain b where "buf_addData (4 :: nat) (new_buffer 0 8) = Inr b" "buf_rep 0 b ([] @ [4])"
    using buf_addData_rep [OF new_buffer_rep [of 8], where x = "0 :: nat" and y = 4] by auto
  with last_available_is_the_next [of 0 b "[] @ [4]" new_reader 0] show ?thesis by auto
qed

text \<open>\<open>seek\<close> accepts positions before the first object (its branch for them cannot be reached), and the reader then
  gets a default object nobody sent, without an overflow, as long as the buffer has an unwritten slot there.\<close>

theorem seek_before_start:
  assumes "buf_rep x b xs" "1 \<le> m" "m_bufferSize b = 8" "length xs + m \<le> 8"
  shows "reader_getData ring_api b (seek ring_api b (- of_nat m) REF_FIRST r) =
    Inr (Some (x, r \<lparr> m_dataFetchCounter := - of_nat m + 1 \<rparr>))"
proof -
  have m: "m \<in> {1..8}" "length xs \<in> {0..<8}" using assms(2,4) by auto
  then have cases_m: "m = 1 \<or> m = 2 \<or> m = 3 \<or> m = 4 \<or> m = 5 \<or> m = 6 \<or> m = 7 \<or> m = 8" by auto
  have cnt: "m_dataCounter b = of_nat (length xs)" "sint (of_nat (length xs) :: 64 word) = int (length xs)"
    "sint (of_nat (length xs + 1) :: 64 word) = int (length xs + 1)"
    using assms(1) m sint_of_nat_small [of "length xs"] sint_of_nat_small [of "length xs + 1"] by (auto simp: buf_rep_def)
  have neg: "sint (- of_nat m :: 64 word) = - int m" using cases_m by auto
  have "seek ring_api b (- of_nat m) REF_FIRST r = r \<lparr> m_dataFetchCounter := - of_nat m \<rparr>"
    using cnt neg by (simp add: seek_def ring_api_def Let_def add.commute)
  moreover have "buf_hasData (- of_nat m) b" using cnt neg assms(2) by (simp add: buf_hasData_def)
  moreover have "\<not> m_bufferSize b < m_dataCounter b - - of_nat m"
  proof -
    have "m_dataCounter b - - of_nat m = of_nat (length xs + m)" using cnt(1) by simp
    then show ?thesis using assms(3,4) by (simp add: word_less_nat_alt unat_of_nat_small del: of_nat_add)
  qed
  moreover have "buf_index (- of_nat m) b = Inr (8 - m)"
    using cases_m assms(3) by (auto simp: buf_index_def)
  moreover have "m_dataBuffer b ! (8 - m) = x"
    using assms by (auto simp: buf_rep_def)
  ultimately show ?thesis by (simp add: reader_getData_def ring_api_def buf_getData_def Let_def)
qed

theorem seek_before_start_witness:
  "reader_getData ring_api (new_buffer (0 :: nat) 8) (seek ring_api (new_buffer (0 :: nat) 8) (- of_nat 3) REF_FIRST new_reader) =
    Inr (Some (0, new_reader \<lparr> m_dataFetchCounter := - of_nat 3 + 1 \<rparr>))"
  by (rule seek_before_start [OF new_buffer_rep]) (simp_all add: new_buffer_def)

subsection \<open>Properties of subscriptions\<close>

lemma notify_all_append: "notify_all a fresh (xs @ ys) = (\<lambda>s. then_do (notify_all a fresh xs s) (notify_all a fresh ys))"
proof (induction xs)
  case (Cons x xs)
  show ?case
  proof
    fix s show "notify_all a fresh ((x # xs) @ ys) s = then_do (notify_all a fresh (x # xs) s) (notify_all a fresh ys)"
      by (cases x) (simp add: Cons.IH)
  qed
qed (simp add: fun_eq_iff)

text \<open>A complete set of values, one per item, that decodes to an object.\<close>

definition full_round :: "ua_api \<Rightarrow> desc \<Rightarrow> 32 word list \<Rightarrow> (32 word \<times> data_value) list \<times> desc \<Rightarrow> bool" where
  "full_round a fresh is r \<longleftrightarrow> (case r of (ns, d) \<Rightarrow>
     distinct (map fst ns) \<and> set (map fst ns) = set is \<and> list_all (\<lambda>(i, dv). good_value dv) ns \<and>
     UaVariantArrayToCommObject a (map (\<lambda>k. dv_variant (the (map_of ns k))) is) (named '''' fresh) = Inr d)"

lemma missing_none: "missing ids (\<lambda>_. None) = fst ` set ids"
  by (auto simp: missing_def)

lemma one_round:
  assumes "sub_ok fresh ids (\<lambda>_. None) xs s" "api_ok a" "length xs + 1 < 2 ^ 63" "ids \<noteq> []"
    and "full_round a fresh (map fst ids) (ns, d)"
  shows "\<exists>s'. notify_all a fresh ns s = (Inr (), s') \<and> sub_ok fresh ids (\<lambda>_. None) (xs @ [d]) s' \<and>
    m_onDataCallback s' = m_onDataCallback s \<and> m_subId s' = m_subId s \<and>
    notified s' = notified s @ (if m_onDataCallback s then [d] else [])"
proof (rule notify_round [OF assms(1-3)])
  note round = assms(5) [unfolded full_round_def split_conv]
  have keys: "fst ` set ns = set (map fst ids)" using round by (simp add: set_map [symmetric] del: set_map)
  with assms(4) show "ns \<noteq> []" by auto
  show "fst ` set ns = missing ids (\<lambda>_. None)" using keys by (simp add: missing_none)
  have "(case map_of ns k of None \<Rightarrow> None | Some dv \<Rightarrow> Some dv) = map_of ns k" for k by (cases "map_of ns k") auto
  then show "UaVariantArrayToCommObject a
      (map (\<lambda>k. dv_variant (the (case map_of ns k of None \<Rightarrow> None | Some dv \<Rightarrow> Some dv))) (map fst ids)) (named '''' fresh) = Inr d"
    using round by simp
qed (use assms(5) in \<open>auto simp: full_round_def list_all_iff\<close>)

lemma rounds:
  assumes "sub_ok fresh ids (\<lambda>_. None) xs s" "api_ok a" "length xs + length rs < 2 ^ 63" "ids \<noteq> []" "m_onDataCallback s"
    and "list_all (full_round a fresh (map fst ids)) rs"
  shows "\<exists>s'. notify_all a fresh (concat (map fst rs)) s = (Inr (), s') \<and>
    sub_ok fresh ids (\<lambda>_. None) (xs @ map snd rs) s' \<and> m_onDataCallback s' \<and> notified s' = notified s @ map snd rs"
  using assms(1,3,5,6)
proof (induction rs arbitrary: xs s)
  case (Cons r rs)
  obtain ns d where r: "r = (ns, d)" by (cases r)
  obtain s1 where s1: "notify_all a fresh ns s = (Inr (), s1)" "sub_ok fresh ids (\<lambda>_. None) (xs @ [d]) s1"
    "m_onDataCallback s1" "notified s1 = notified s @ [d]"
    using one_round [OF Cons.prems(1) assms(2) _ assms(4), of ns d] Cons.prems(2-4) r by auto
  with Cons.IH [OF s1(2)] Cons.prems(2,4) r show ?case by (auto simp: notify_all_append)
qed simp

text \<open>C31: After subscribing to a list of nodes, whenever each item has been notified once, in any order, exactly one
  object is added to the buffer and given to the callback: the one decoded from the values in the order of the
  nodes; and the subscription is ready for the next set of values.\<close>

theorem subscription_delivers:
  assumes "api_ok a" "create_subscription C c = ((0, sid), c1)" "create_items C sid ns c1 = Some (is, c2)" "distinct is"
    and "is \<noteq> []" "list_all (full_round a fresh is) rs" "length rs < 2 ^ 63"
  shows "\<exists>s s'. subscribe_nodes C ns (setOnDataCallback True (new_subscription fresh), c) = Inr (0, s, c2) \<and>
    notify_all a fresh (concat (map fst rs)) s = (Inr (), s') \<and>
    buf_rep fresh s' (map snd rs) \<and> notified s' = map snd rs \<and> m_valuesSet s' = 0"
proof -
  have keys: "map fst (zip is ns) = is" using create_items_length [OF assms(3)] by simp
  then have ids: "zip is ns \<noteq> []" using assms(5) by (metis map_is_Nil_conv)
  obtain s where s: "subscribe_nodes C ns (setOnDataCallback True (new_subscription fresh), c) = Inr (0, s, c2)"
    "sub_ok fresh (zip is ns) (\<lambda>_. None) [] s" "m_onDataCallback s" "notified s = []"
    using subscribe_nodes_ok [OF assms(2-4), where b = True and fresh = fresh] by blast
  obtain s' where s': "notify_all a fresh (concat (map fst rs)) s = (Inr (), s')"
    "sub_ok fresh (zip is ns) (\<lambda>_. None) (map snd rs) s'" "notified s' = map snd rs"
    using rounds [OF s(2) assms(1) _ ids s(3), of rs] assms(6,7) s(4) keys by auto
  moreover have "card (missing (zip is ns) (\<lambda>_. None)) = length (zip is ns)"
    using distinct_card [of "map fst (zip is ns)"] assms(4) keys create_items_length [OF assms(3)] by (simp add: missing_none set_map [symmetric] del: set_map)
  ultimately show ?thesis using s(1) by (auto simp: sub_ok_def)
qed

text \<open>A connection whose item identifiers count up, for evaluating the model.\<close>

definition std_client :: "(node_id \<Rightarrow> browse_ref list list) \<Rightarrow> 32 word client_api" where
  "std_client br = \<lparr> browse = (\<lambda>i c. br i), create_subscription = (\<lambda>c. ((0, c + 1), c + 1)),
     create_monitored = (\<lambda>sub n c. ((0, c + 1), c + 1)), delete_subscription = (\<lambda>sub c. (0, c)) \<rparr>"

definition dv_of :: "variant \<Rightarrow> data_value" where
  "dv_of v = \<lparr> dv_status = None, dv_value = Some v \<rparr>"

lemma dv_of_simps [simp]: "good_value (dv_of v)" "dv_variant (dv_of v) = v"
  by (simp_all add: dv_of_def good_value_def dv_variant_def)

definition int_variant :: "32 word \<Rightarrow> variant" where
  "int_variant w = Variant (Some UA_INT32) 0 [] (Bytes (prim_bytes (PInt32 w)))"

definition str_variant :: "string \<Rightarrow> variant" where
  "str_variant s = Variant (Some UA_STRING) 0 [] (Strs [s])"

lemma decode_pose:
  "UaVariantArrayToCommObject std_api [int_variant x, str_variant s] (named '''' (sample_pose 0 '''')) =
    Inr (named '''' (sample_pose x s))"
  using decode_ok [OF std_api_ok, of "named '''' (sample_pose 0 '''')" "named '''' (sample_pose x s)"]
  by (simp add: sample_pose_def int_variant_def str_variant_def prim_cells_def)

theorem subscription_delivers_witness:
  "\<exists>s s'. subscribe_nodes (std_client (\<lambda>_. [])) [StrId 1 ''x'', StrId 1 ''f''] (setOnDataCallback True (new_subscription (sample_pose 0 '''')), 0) =
      Inr (0, s, 3) \<and>
    notify_all std_api (sample_pose 0 '''') [(3, dv_of (str_variant ''a'')), (2, dv_of (int_variant 7)),
      (2, dv_of (int_variant 8)), (3, dv_of (str_variant ''b''))] s = (Inr (), s') \<and>
    notified s' = [named '''' (sample_pose 7 ''a''), named '''' (sample_pose 8 ''b'')]"
  using subscription_delivers [OF std_api_ok, of "std_client (\<lambda>_. [])" 0 1 1 "[StrId 1 ''x'', StrId 1 ''f'']" "[2, 3]" 3 "sample_pose 0 ''''"
    "[([(3, dv_of (str_variant ''a'')), (2, dv_of (int_variant 7))], named '''' (sample_pose 7 ''a'')),
      ([(2, dv_of (int_variant 8)), (3, dv_of (str_variant ''b''))], named '''' (sample_pose 8 ''b''))]"]
  by (auto simp: full_round_def decode_pose std_client_def)

text \<open>A subscription cannot be renewed: subscribing while subscribed locks the mutex of the connection twice, and
  after \<open>unsubscribe\<close>, which keeps the order of the old items, subscribing again fails the assertion that this
  order is empty.\<close>

theorem resubscribe_fails:
  assumes "create_subscription C c = ((0, sid), c1)" "create_items C sid ns c1 = Some (is, c2)" "distinct is"
    and "is \<noteq> []" "sid \<noteq> 0" "fst (fst (create_subscription C (snd (delete_subscription C sid c2)))) = 0"
  shows "\<exists>s. subscribe_nodes C ns (setOnDataCallback True (new_subscription fresh), c) = Inr (0, s, c2) \<and>
    subscribe_nodes C ms (s, c2) = Inl UndefinedBehaviour \<and>
    subscribe_nodes C ms (unsubscribe C (s, c2)) = Inl AssertFailed"
proof -
  obtain s where s: "subscribe_nodes C ns (setOnDataCallback True (new_subscription fresh), c) = Inr (0, s, c2)"
    "sub_ok fresh (zip is ns) (\<lambda>_. None) [] s" "m_subId s = sid"
    using subscribe_nodes_ok [OF assms(1-3), where b = True and fresh = fresh] by blast
  have "m_monitoredItemsIdorder s = is"
    using s(2) create_items_length [OF assms(2)] by (simp add: sub_ok_def)
  then show ?thesis using s assms(4-6)
    by (auto simp: subscribe_nodes_def isSubscribed_def unsubscribe_def split: prod.splits)
qed

theorem resubscribe_fails_witness:
  "\<exists>s. subscribe_nodes (std_client (\<lambda>_. [])) [StrId 1 ''x''] (setOnDataCallback True (new_subscription (sample_pose 0 '''')), 0) =
      Inr (0, s, 2) \<and>
    subscribe_nodes (std_client (\<lambda>_. [])) [StrId 1 ''x''] (unsubscribe (std_client (\<lambda>_. [])) (s, 2)) = Inl AssertFailed"
  using resubscribe_fails [of "std_client (\<lambda>_. [])" 0 1 1 "[StrId 1 ''x'']" "[2]" 2 "sample_pose 0 ''''" "[StrId 1 ''x'']"]
  by (auto simp: std_client_def)

text \<open>Values of different puts mix: when the first member of an object is notified again before the last member was
  notified, the client receives an object with the first member of the later and the second member of the
  earlier put, which nobody sent.\<close>

theorem values_of_two_puts_mix:
  assumes "sub_ok (sample_pose 0 '''') [(1, i), (2, j)] (\<lambda>_. None) xs s" "length xs + 1 < 2 ^ 63" "m_onDataCallback s"
  shows "\<exists>s'. notify_all std_api (sample_pose 0 '''')
      [(1, dv_of (int_variant x)), (1, dv_of (int_variant x')), (2, dv_of (str_variant f)), (2, dv_of (str_variant f'))] s = (Inr (), s') \<and>
    notified s' = notified s @ [named '''' (sample_pose x' f)]"
proof -
  let ?t = "sample_pose 0 ''''" and ?ids = "[(1 :: 32 word, i), (2, j)]"
  have left: "missing ?ids g - {k} \<noteq> {}" if "g l = None" "l \<noteq> k" "l = 1 \<or> l = 2" for g k l
  proof -
    have "l \<in> missing ?ids g - {k}" using that by (auto simp: missing_def)
    then show ?thesis by blast
  qed
  have last: "missing ?ids ((\<lambda>_. None)(1 := Some u, 1 := Some v)) = {2}" for u v by (auto simp: missing_def)
  obtain s1 where s1: "valueChanged std_api ?t 1 (dv_of (int_variant x)) s = (Inr (), s1)"
    "sub_ok ?t ?ids ((\<lambda>_. None)(1 := Some (dv_of (int_variant x)))) xs s1" "m_onDataCallback s1" "notified s1 = notified s"
    using valueChanged_stores [OF assms(1), of "dv_of (int_variant x)" 1 std_api] assms(3) left [of _ 2 1] by auto
  obtain s2 where s2: "valueChanged std_api ?t 1 (dv_of (int_variant x')) s1 = (Inr (), s2)"
    "sub_ok ?t ?ids ((\<lambda>_. None)(1 := Some (dv_of (int_variant x)), 1 := Some (dv_of (int_variant x')))) xs s2"
    "m_onDataCallback s2" "notified s2 = notified s"
    using valueChanged_stores [OF s1(2), of "dv_of (int_variant x')" 1 std_api] s1(3,4) left [of _ 2 1] by (auto simp del: fun_upd_upd)
  obtain s3 where s3: "valueChanged std_api ?t 2 (dv_of (str_variant f)) s2 = (Inr (), s3)"
    "sub_ok ?t ?ids (\<lambda>_. None) (xs @ [named '''' (sample_pose x' f)]) s3"
    "m_onDataCallback s3" "notified s3 = notified s @ [named '''' (sample_pose x' f)]"
    using valueChanged_completes [OF s2(2), of "dv_of (str_variant f)" 2 std_api "named '''' (sample_pose x' f)"] s2(3,4) assms(2) decode_pose last
    by (auto simp del: fun_upd_upd)
  obtain s4 where "valueChanged std_api ?t 2 (dv_of (str_variant f')) s3 = (Inr (), s4)" "notified s4 = notified s3"
    using valueChanged_stores [OF s3(2), of "dv_of (str_variant f')" 2 std_api] left [of _ 1 2] by auto
  with s1(1) s2(1) s3(1,4) show ?thesis by simp
qed

theorem values_of_two_puts_mix_witness:
  "\<exists>s s'. subscribe_nodes (std_client (\<lambda>_. [])) [StrId 1 ''x'', StrId 1 ''f''] (setOnDataCallback True (new_subscription (sample_pose 0 '''')), -1) =
      Inr (0, s, 2) \<and>
    notify_all std_api (sample_pose 0 '''') [(1, dv_of (int_variant 7)), (1, dv_of (int_variant 8)), (2, dv_of (str_variant ''a'')),
      (2, dv_of (str_variant ''b''))] s = (Inr (), s') \<and>
    notified s' = [named '''' (sample_pose 8 ''a'')]"
proof -
  obtain s where "subscribe_nodes (std_client (\<lambda>_. [])) [StrId 1 ''x'', StrId 1 ''f''] (setOnDataCallback True (new_subscription (sample_pose 0 '''')), -1) =
      Inr (0, s, 2)" "sub_ok (sample_pose 0 '''') [(1, StrId 1 ''x''), (2, StrId 1 ''f'')] (\<lambda>_. None) [] s" "m_onDataCallback s" "notified s = []"
    using subscribe_nodes_ok [of "std_client (\<lambda>_. [])" "-1" 0 0 "[StrId 1 ''x'', StrId 1 ''f'']" "[1, 2]" 2 True "sample_pose 0 ''''"]
    by (auto simp: std_client_def)
  with values_of_two_puts_mix [of "StrId 1 ''x''" "StrId 1 ''f''" "[]" s 7 8 "''a''" "''b''"] show ?thesis by auto
qed

text \<open>The sorting of the browsed nodes has no effect, whatever the flat order of the description is, because the
  comparison looks up its left argument twice: the nodes are subscribed to, and the values put into an object,
  in the order in which the server lists the references.\<close>

theorem sorting_has_no_effect:
  "subscribe_object C order fresh i (s, c) = subscribe_nodes C
     (map br_node (filter (\<lambda>b. br_class b = CLASS_VARIABLE) (browse_nodes (\<lambda>j. browse C j c) (named '''' fresh) i))) (s, c)"
  by (simp add: subscribe_object_def)

text \<open>What \<open>PushClient\<close> returns in terms of the received objects.\<close>

lemma getUpdate_latest:
  assumes "m_pReader p = Some r" "m_pSubscription p = Some s" "buf_rep x s xs"
  shows "getUpdate p d = Inr (Some (if xs = [] then (SMART_NODATA, d) else (SMART_OK, last xs)))"
    and "getUpdateWait p d = Inr None"
  using assms ring.empty [OF assms(3)] readValue_last [OF assms(3)] readValue_next [OF assms(3)]
  by (auto simp: getUpdate_def getUpdateWait_def ring_api_def)

lemma getUpdate_unsubscribed: "m_pSubscription p = None \<Longrightarrow> getUpdate p d = Inr (Some (SMART_UNSUBSCRIBED, d))"
  "m_pSubscription p = None \<Longrightarrow> getUpdateWait p d = Inr (Some (SMART_UNSUBSCRIBED, d))"
  by (auto simp: getUpdate_def getUpdateWait_def split: option.split)

lemma pc_unsubscribe_ends: "fst (snd (pc_unsubscribe C (p, c))) = p \<lparr> m_pReader := None, m_pSubscription := None \<rparr>"
  by (simp add: pc_unsubscribe_def)

end
