(* ===== verification/NamingService.thy ===== *)
theory NamingService
  imports PushServer
begin

section \<open>The OPC UA server's bookkeeping and the naming service\<close>

text \<open>
  What \<open>OPCUA/Server/OpcuaServer.cpp\<close> keeps beside the server of the stack (its port, the discovery
  servers announced on the network), and \<open>OPCUA/Client/NamingServiceOpcUa.cpp\<close>, which turns the name of
  a server and of a service into a connection and a node identifier: the search over the discovery
  servers, the caches of addresses and connections, the attempts to connect, the index of the SDK's
  namespace. The calls that go over the network are the fields of \<open>naming_api\<close>; they change a world
  of any type, in which the program's other threads make progress as well.
\<close>

subsection \<open>The OPC UA server\<close>

record opcua_server =
  m_serverName :: string
  m_initialized :: bool
  m_isRunning :: bool
  m_iterator :: "32 word"
  m_foundServer :: "string list"
  m_notified :: bool
  m_port :: "16 word"
  m_nsIndex1 :: "16 word"

text \<open>The port and the namespace index are not initialised by the constructor.\<close>

definition new_opcua_server :: "16 word \<Rightarrow> 16 word \<Rightarrow> opcua_server" where
  "new_opcua_server p i = \<lparr> m_serverName = '''', m_initialized = False, m_isRunning = False, m_iterator = 0,
     m_foundServer = [], m_notified = False, m_port = p, m_nsIndex1 = i \<rparr>"

text \<open>\<open>initServer\<close>: \<open>rnd\<close> is the number drawn, \<open>i\<close> the index the stack gives the SDK's namespace.\<close>

definition initServer :: "nat \<Rightarrow> 16 word \<Rightarrow> string \<Rightarrow> opcua_server \<Rightarrow> opcua_server" where
  "initServer rnd i serverName s =
    (if m_initialized s then s
     else let port = word_of_nat (49151 + rnd mod (65535 - 49151)) :: 16 word in
       s \<lparr> m_serverName := serverName, m_port := port, m_nsIndex1 := i,
         m_foundServer := m_foundServer s @ [''opc.tcp://localhost:'' @ show_nat (unat port)],
         m_initialized := True \<rparr>)"

text \<open>One pass of \<open>run\<close> up to its loop, and \<open>stopRunning\<close>, which ends the loop.\<close>

definition run_server :: "opcua_server \<Rightarrow> opcua_server" where
  "run_server s = s \<lparr> m_isRunning := True \<rparr>"

definition stopRunning :: "opcua_server \<Rightarrow> opcua_server" where
  "stopRunning s = s \<lparr> m_isRunning := False \<rparr>"

definition getKnownServer :: "opcua_server \<Rightarrow> string list" where
  "getKnownServer s = m_foundServer s"

definition addDiscoveryServerEndpoint :: "string \<Rightarrow> opcua_server \<Rightarrow> opcua_server result" where
  "addDiscoveryServerEndpoint url s =
    (if url = '''' then Inl AssertFailed
     else Inr (s \<lparr> m_foundServer := m_foundServer s @ [url], m_notified := True \<rparr>))"

definition serverOnNetworkCallback :: "ua_api \<Rightarrow> string \<Rightarrow> bool \<Rightarrow> bool \<Rightarrow> opcua_server \<Rightarrow> opcua_server result" where
  "serverOnNetworkCallback a discoveryUrl isServerAnnounce isTxtReceived s =
    (if \<not> isServerAnnounce then Inr s
     else if \<not> isTxtReceived then Inr s
     else addDiscoveryServerEndpoint (std_of_String a discoveryUrl) s)"

text \<open>
  \<open>getNextDiscoveryServerEndpoint\<close>: the unsigned iterator runs down, and its wrap below zero makes the
  next call start over at the newest endpoint. \<open>None\<close>: the call waits for a first announcement.
\<close>

definition iterator_start :: "opcua_server \<Rightarrow> 32 word result option" where
  "iterator_start s =
    (if unat (m_iterator s) \<ge> length (m_foundServer s) then
       if m_notified s then
         let it = word_of_nat (length (m_foundServer s)) :: 32 word in
         Some (if it > 0 then Inr (it - 1) else Inl AssertFailed)
       else None
     else Some (Inr (m_iterator s)))"

definition getNextDiscoveryServerEndpoint :: "opcua_server \<Rightarrow> (string \<times> opcua_server) result option" where
  "getNextDiscoveryServerEndpoint s = map_option (\<lambda>r. rbind r (\<lambda>it.
     if unat it < length (m_foundServer s) then
       let url = m_foundServer s ! unat it in
       if url \<noteq> '''' then Inr (url, s \<lparr> m_iterator := it - 1 \<rparr>) else Inl AssertFailed
     else Inl UndefinedBehaviour)) (iterator_start s)"

subsection \<open>Addresses\<close>

text \<open>\<open>std::string::find\<close> and \<open>find_last_of\<close> with one character; \<open>npos\<close> is \<open>None\<close>.\<close>

fun str_find :: "string \<Rightarrow> string \<Rightarrow> nat option" where
  "str_find p s = (if take (length p) s = p then Some 0
     else case s of [] \<Rightarrow> None | _ # t \<Rightarrow> map_option Suc (str_find p t))"

declare str_find.simps [simp del]

fun find_last :: "char \<Rightarrow> string \<Rightarrow> nat option" where
  "find_last c [] = None"
| "find_last c (x # xs) =
    (case find_last c xs of Some i \<Rightarrow> Some (Suc i) | None \<Rightarrow> if x = c then Some 0 else None)"

text \<open>
  The position of the port (the colon of \<open>opc.tcp:\<close>, at 7, is no port), and the replacement by
  \<open>replace(found, found_port - found, "localhost")\<close>, whose unsigned length wraps when the last colon
  is before the address and is then cut to the end of the string.
\<close>

definition port_position :: "string \<Rightarrow> nat" where
  "port_position u = (case find_last (CHR '':'') u of None \<Rightarrow> length u | Some p \<Rightarrow> if p = 7 then length u else p)"

definition changeLocalHostname :: "string \<Rightarrow> string" where
  "changeLocalHostname u =
    (case str_find ''169.254.'' u of
      None \<Rightarrow> u
    | Some found \<Rightarrow>
        let count = unat (word_of_nat (port_position u) - word_of_nat found :: 64 word) in
        take found u @ ''localhost'' @ drop (found + count) u)"

text \<open>The name announced over multicast DNS, up to its last dash.\<close>

definition getServerNameFromServerOnNetworkElement :: "ua_api \<Rightarrow> string \<Rightarrow> string" where
  "getServerNameFromServerOnNetworkElement a serverName =
    (let tmp = std_of_String a serverName in
     case find_last (CHR ''-'') tmp of None \<Rightarrow> tmp | Some p \<Rightarrow> take p tmp)"

subsection \<open>Searching the discovery servers\<close>

text \<open>
  Connecting a client, reading the value of a node over a connection, the three discovery services,
  the server object that other threads change, sleeping for some milliseconds, and the test for an
  array variant. The status code comes first, then what the call fills in.
\<close>

record 'w naming_api =
  Client_connect :: "string \<Rightarrow> 'w \<Rightarrow> 32 word \<times> 'w"
  readValueAttribute :: "nat \<Rightarrow> node_id \<Rightarrow> 'w \<Rightarrow> (32 word \<times> variant) \<times> 'w"
  findServersOnNetwork :: "string \<Rightarrow> 'w \<Rightarrow> (32 word \<times> (string \<times> string) list) \<times> 'w"
  findServers :: "string \<Rightarrow> 'w \<Rightarrow> (32 word \<times> (string \<times> string list) list) \<times> 'w"
  getEndpoints :: "string \<Rightarrow> 'w \<Rightarrow> (32 word \<times> string list) \<times> 'w"
  look_server :: "'w \<Rightarrow> opcua_server \<times> 'w"
  sleep_for :: "nat \<Rightarrow> 'w \<Rightarrow> 'w"
  hasArrayType :: "variant \<Rightarrow> ua_type \<Rightarrow> bool"

definition getSessionEndpointUrl :: "ua_api \<Rightarrow> 'w naming_api \<Rightarrow> string \<Rightarrow> 'w \<Rightarrow> string result \<times> 'w" where
  "getSessionEndpointUrl a A discoveryUrl w =
    (case getEndpoints A (c_str discoveryUrl) w of ((retval, endpointArray), w') \<Rightarrow>
      (if retval \<noteq> 0 then Inl (OpcUaError retval)
       else Inr (case endpointArray of [] \<Rightarrow> '''' | e # _ \<Rightarrow> std_of_String a e), w'))"

text \<open>\<open>UA_STATUSCODE_BADCONNECTIONCLOSED\<close> and \<open>UA_STATUSCODE_GOODNONCRITICALTIMEOUT\<close>.\<close>

definition skipped_status :: "32 word \<Rightarrow> bool" where
  "skipped_status c \<longleftrightarrow> c = 0x80AE0000 \<or> c = 0x00AA0000"

text \<open>
  \<open>findServerUrlFromServerOnNetwork\<close>, over the addresses of the equal range: the first non-empty session
  endpoint. The exceptions of the SDK are all derived from the one that is caught.
\<close>

fun try_addresses :: "ua_api \<Rightarrow> 'w naming_api \<Rightarrow> string list \<Rightarrow> 'w \<Rightarrow> string result \<times> 'w" where
  "try_addresses a A [] w = (Inr '''', w)"
| "try_addresses a A (url # urls) w =
    (case getSessionEndpointUrl a A (changeLocalHostname url) w of
      (Inr serverUrl, w') \<Rightarrow> if serverUrl \<noteq> '''' then (Inr serverUrl, w') else try_addresses a A urls w'
    | (Inl (OpcUaError c), w') \<Rightarrow>
        if skipped_status c then try_addresses a A urls w' else (Inl (OpcUaError c), w')
    | (Inl e, w') \<Rightarrow> try_addresses a A urls w')"

text \<open>
  The multimap from names to addresses is the list of its insertions: entries with equal keys keep the
  order in which they were inserted.
\<close>

definition equal_range :: "string \<Rightarrow> (string \<times> string) list \<Rightarrow> string list" where
  "equal_range k m = map snd (filter (\<lambda>e. fst e = k) m)"

definition findServerUrlFromServerOnNetwork ::
  "ua_api \<Rightarrow> 'w naming_api \<Rightarrow> string \<Rightarrow> (string \<times> string) list \<Rightarrow> 'w \<Rightarrow> string result \<times> 'w" where
  "findServerUrlFromServerOnNetwork a A serverName m w = try_addresses a A (equal_range serverName m) w"

text \<open>
  \<open>getServerUrlFromMdnsLDS\<close>: the exceptions for the two discovery calls are constructed and not
  thrown, so a failed call counts as what it filled in.
\<close>

definition getServerUrlFromMdnsLDS :: "ua_api \<Rightarrow> 'w naming_api \<Rightarrow> string \<Rightarrow> string \<Rightarrow> 'w \<Rightarrow> string result \<times> 'w" where
  "getServerUrlFromMdnsLDS a A serverName discoveryServerEndpoint w =
    (case findServersOnNetwork A (c_str discoveryServerEndpoint) w of ((_, onNetwork), w1) \<Rightarrow>
     case findServers A (c_str discoveryServerEndpoint) w1 of ((_, registered), w2) \<Rightarrow>
       findServerUrlFromServerOnNetwork a A serverName
         (map (\<lambda>(n, u). (getServerNameFromServerOnNetworkElement a n, std_of_String a u)) onNetwork @
          concat (map (\<lambda>(n, us). map (\<lambda>u. (std_of_String a n, std_of_String a u)) us) registered)) w2)"

text \<open>One pass over the known discovery servers.\<close>

fun ask_servers :: "ua_api \<Rightarrow> 'w naming_api \<Rightarrow> string \<Rightarrow> string list \<Rightarrow> 'w \<Rightarrow> string result \<times> 'w" where
  "ask_servers a A serverName [] w = (Inr '''', w)"
| "ask_servers a A serverName (server # servers) w =
    (case getServerUrlFromMdnsLDS a A serverName (changeLocalHostname server) w of
      (Inl e, w') \<Rightarrow> (Inl e, w')
    | (Inr serverUrl, w') \<Rightarrow>
        if serverUrl \<noteq> '''' then (Inr serverUrl, w') else ask_servers a A serverName servers w')"

definition search_round :: "ua_api \<Rightarrow> 'w naming_api \<Rightarrow> string \<Rightarrow> 'w \<Rightarrow> string result \<times> 'w" where
  "search_round a A serverName w =
    (case look_server A w of (s, w') \<Rightarrow> ask_servers a A serverName (getKnownServer s) w')"

text \<open>
  The loops of \<open>findServerUrlByServerName\<close>: waiting for the server to run, and the passes over the
  discovery servers until one of them finds an address. Sleeping only after a success is what the
  code does. \<open>None\<close>: the loop does not end.
\<close>

partial_function (option) wait_running :: "'w naming_api \<Rightarrow> 'w \<Rightarrow> 'w option" where
  "wait_running A w = (case look_server A w of (s, w') \<Rightarrow>
     if m_isRunning s then Some w' else wait_running A (sleep_for A 100 w'))"

partial_function (option) poll_servers :: "ua_api \<Rightarrow> 'w naming_api \<Rightarrow> string \<Rightarrow> 'w \<Rightarrow> (string result \<times> 'w) option" where
  "poll_servers a A serverName w =
    (case search_round a A serverName w of
      (Inl e, w') \<Rightarrow> Some (Inl e, w')
    | (Inr serverUrl, w') \<Rightarrow>
        if serverUrl \<noteq> '''' then Some (Inr serverUrl, sleep_for A 1000 w') else poll_servers a A serverName w')"

subsection \<open>Connections\<close>

text \<open>
  The naming service: the cached addresses; the cached connections, by number, which the map holds by
  weak pointers; and, of the heap the connections live in, how many owners each has, the name its
  deleter was bound to, and whether its background loop runs.
\<close>

record connection =
  owners :: nat
  bound_name :: string
  loop_runs :: bool

record naming =
  m_serverUrl :: "string \<Rightarrow> string option"
  m_connectionCache :: "string \<Rightarrow> nat option"
  connections :: "connection list"

definition new_naming :: naming where
  "new_naming = \<lparr> m_serverUrl = (\<lambda>_. None), m_connectionCache = (\<lambda>_. None), connections = [] \<rparr>"

text \<open>
  \<open>findServerUrlByServerName\<close>. The exception after the loop is raised for an empty address, with the
  message the comma operator leaves, the name of the server.
\<close>

definition findServerUrlByServerName ::
  "ua_api \<Rightarrow> 'w naming_api \<Rightarrow> string \<Rightarrow> naming \<times> 'w \<Rightarrow> (string result \<times> naming \<times> 'w) option" where
  "findServerUrlByServerName a A serverName nw = (case nw of (n, w) \<Rightarrow>
    (case m_serverUrl n serverName of
      Some url \<Rightarrow> Some (Inr url, n, w)
    | None \<Rightarrow>
        Option.bind (wait_running A w) (\<lambda>w1.
        Option.bind (poll_servers a A serverName w1) (\<lambda>(r, w2).
          case r of
            Inl e \<Rightarrow> Some (Inl e, n, w2)
          | Inr url \<Rightarrow> Some (if url = '''' then (Inl (SdkError serverName), n, w2)
              else (Inr url, n \<lparr> m_serverUrl := (m_serverUrl n)(serverName \<mapsto> url) \<rparr>, w2))))))"

text \<open>\<open>opcUaBackgroundTask\<close> until it reports the client: the loop over \<open>i\<close> from 9 down to 0.\<close>

fun connect_loop :: "'w naming_api \<Rightarrow> string \<Rightarrow> nat \<Rightarrow> 'w \<Rightarrow> 32 word \<times> 'w" where
  "connect_loop A serverURL i w =
    (case Client_connect A (c_str serverURL) w of (retVal, w') \<Rightarrow>
      if retVal = 0 then (retVal, w')
      else case i of 0 \<Rightarrow> (retVal, w') | Suc j \<Rightarrow> connect_loop A serverURL j w')"

declare connect_loop.simps [simp del]

definition opcUaBackgroundTask :: "'w naming_api \<Rightarrow> string \<Rightarrow> 'w \<Rightarrow> bool \<times> 'w" where
  "opcUaBackgroundTask A serverURL w = (case connect_loop A serverURL 9 w of (retVal, w') \<Rightarrow> (retVal = 0, w'))"

text \<open>
  \<open>getConnectionByName\<close>. Without a client it returns while its thread object is still joinable, and the
  destructor of such a thread ends the process.
\<close>

definition cached_connection :: "naming \<Rightarrow> string \<Rightarrow> nat option" where
  "cached_connection n serverName = (case m_connectionCache n serverName of
     None \<Rightarrow> None | Some c \<Rightarrow> if owners (connections n ! c) > 0 then Some c else None)"

definition add_owner :: "nat \<Rightarrow> naming \<Rightarrow> naming" where
  "add_owner c n = n \<lparr> connections := (connections n)[c := (connections n ! c)
     \<lparr> owners := Suc (owners (connections n ! c)) \<rparr>] \<rparr>"

definition new_connection :: "string \<Rightarrow> naming \<Rightarrow> naming" where
  "new_connection serverName n = (let c = length (connections n) in
     n \<lparr> connections := connections n @ [\<lparr> owners = 1, bound_name = serverName, loop_runs = True \<rparr>],
       m_connectionCache := (case m_connectionCache n serverName of
         Some _ \<Rightarrow> m_connectionCache n | None \<Rightarrow> (m_connectionCache n)(serverName \<mapsto> c)) \<rparr>)"

definition getConnectionByName ::
  "ua_api \<Rightarrow> 'w naming_api \<Rightarrow> string \<Rightarrow> naming \<times> 'w \<Rightarrow> (nat result \<times> naming \<times> 'w) option" where
  "getConnectionByName a A serverName nw = (case nw of (n, w) \<Rightarrow>
    (case cached_connection n serverName of
      Some c \<Rightarrow> Some (Inr c, add_owner c n, w)
    | None \<Rightarrow>
        Option.bind (findServerUrlByServerName a A serverName
          (n \<lparr> m_connectionCache := (m_connectionCache n)(serverName := None) \<rparr>, w)) (\<lambda>(r, n1, w1).
        case r of
          Inl e \<Rightarrow> Some (Inl e, n1, w1)
        | Inr serverUrl \<Rightarrow>
            (case opcUaBackgroundTask A serverUrl w1 of (connected, w2) \<Rightarrow>
              if connected then Some (Inr (length (connections n1)), new_connection serverName n1, w2)
              else Some (Inl Terminated, n1, w2)))))"

text \<open>
  The end of a connection: its last owner goes, then the deleter runs, which was bound to the name of
  the server and not to the connection. It stops the background loop of the entry it finds and erases
  it; erasing without an entry is undefined.
\<close>

definition drop_owner :: "nat \<Rightarrow> naming \<Rightarrow> naming" where
  "drop_owner c n = n \<lparr> connections := (connections n)[c := (connections n ! c)
     \<lparr> owners := owners (connections n ! c) - 1 \<rparr>] \<rparr>"

definition clientWithMutexDeletedCallback :: "string \<Rightarrow> naming \<Rightarrow> naming result" where
  "clientWithMutexDeletedCallback serverName n =
    (case m_connectionCache n serverName of
      None \<Rightarrow> Inl UndefinedBehaviour
    | Some c \<Rightarrow> Inr (n \<lparr> connections := (connections n)[c := (connections n ! c) \<lparr> loop_runs := False \<rparr>],
        m_connectionCache := (m_connectionCache n)(serverName := None) \<rparr>))"

definition release_connection :: "nat \<Rightarrow> naming \<Rightarrow> naming result" where
  "release_connection c n = (let n' = drop_owner c n in
     if owners (connections n' ! c) = 0 then clientWithMutexDeletedCallback (bound_name (connections n' ! c)) n'
     else Inr n')"

subsection \<open>From names to nodes\<close>

text \<open>The loop of \<open>getNsIndexFromServer\<close> over the namespace array, with the index cast to 16 bits.\<close>

definition seronet_namespace :: string where
  "seronet_namespace = ''http://seronet-projekt.de/''"

function search_namespace :: "ua_api \<Rightarrow> cells \<Rightarrow> nat \<Rightarrow> nat \<Rightarrow> 16 word result" where
  "search_namespace a data arrayLength i =
    (if i < arrayLength then
       rbind (read_str i data) (\<lambda>currentNamespace.
         if currentNamespace = String_of_std a seronet_namespace then Inr (word_of_nat i)
         else search_namespace a data arrayLength (Suc i))
     else Inl (InvalidConversion ''No Namespaceindex found''))"
  by pat_completeness auto

termination
  by (relation "measure (\<lambda>(a, data, arrayLength, i). arrayLength - i)") auto

declare search_namespace.simps [simp del]

definition getNsIndexFromServer :: "ua_api \<Rightarrow> 'w naming_api \<Rightarrow> nat \<Rightarrow> 'w \<Rightarrow> 16 word result \<times> 'w" where
  "getNsIndexFromServer a A aConnection w =
    (case readValueAttribute A aConnection (NumId 0 2255) w of ((retval, v), w') \<Rightarrow>
      (if retval \<noteq> 0 then Inl (OpcUaError retval)
       else let returnValue = cpp_copy a v in
         if \<not> hasArrayType A returnValue UA_STRING then Inl (InvalidConversion ''NamespaceArray is not a Array'')
         else search_namespace a (vdata returnValue) (vlen returnValue) 0, w'))"

definition createNodeId :: "ua_api \<Rightarrow> string \<Rightarrow> 16 word \<Rightarrow> node_id" where
  "createNodeId a service nsIndex = StrId nsIndex (String_of_std a (''85.'' @ service))"

text \<open>An exception from the namespace array releases the connection.\<close>

definition getConnectionAndNodeIdByName ::
  "ua_api \<Rightarrow> 'w naming_api \<Rightarrow> string \<Rightarrow> string \<Rightarrow> naming \<times> 'w \<Rightarrow> ((nat \<times> node_id) result \<times> naming \<times> 'w) option" where
  "getConnectionAndNodeIdByName a A serverName service nw =
    Option.bind (getConnectionByName a A serverName nw) (\<lambda>(r, n1, w1).
      case r of
        Inl e \<Rightarrow> Some (Inl e, n1, w1)
      | Inr c \<Rightarrow> (case getNsIndexFromServer a A c w1 of
            (Inr nsIndex, w2) \<Rightarrow> Some (Inr (c, createNodeId a service nsIndex), n1, w2)
          | (Inl e, w2) \<Rightarrow> Some (case release_connection c n1 of
              Inr n2 \<Rightarrow> (Inl e, n2, w2) | Inl u \<Rightarrow> (Inl u, n1, w2))))"

end
