(* ===== verification/NamingProperties.thy ===== *)
theory NamingProperties
  imports NamingService
begin

section \<open>Properties of the naming service\<close>

text \<open>
  The search over the discovery servers ends exactly when one of its passes finds an address, and then
  with that address; the attempts to connect are at most ten; the cache, the connections and their
  background loops stay consistent under look-ups and releases in sequence, and do not when the deleter
  of a connection runs after a new connection to the same server was made; link-local addresses are
  replaced up to the port.
\<close>

subsection \<open>The search\<close>

text \<open>The world after a number of passes.\<close>

fun after_rounds :: "ua_api \<Rightarrow> 'w naming_api \<Rightarrow> string \<Rightarrow> nat \<Rightarrow> 'w \<Rightarrow> 'w" where
  "after_rounds a A serverName 0 w = w"
| "after_rounds a A serverName (Suc k) w = after_rounds a A serverName k (snd (search_round a A serverName w))"

definition found_at :: "ua_api \<Rightarrow> 'w naming_api \<Rightarrow> string \<Rightarrow> 'w \<Rightarrow> nat \<Rightarrow> string result" where
  "found_at a A serverName w k = fst (search_round a A serverName (after_rounds a A serverName k w))"

lemma found_at_simps [simp]:
  "found_at a A serverName w 0 = fst (search_round a A serverName w)"
  "found_at a A serverName w (Suc k) = found_at a A serverName (snd (search_round a A serverName w)) k"
  by (simp_all add: found_at_def)

lemma poll_servers_unfold:
  "poll_servers a A serverName w =
    (case found_at a A serverName w 0 of
      Inl e \<Rightarrow> Some (Inl e, snd (search_round a A serverName w))
    | Inr serverUrl \<Rightarrow>
        if serverUrl \<noteq> '''' then Some (Inr serverUrl, sleep_for A 1000 (snd (search_round a A serverName w)))
        else poll_servers a A serverName (snd (search_round a A serverName w)))"
  by (subst poll_servers.simps) (simp split: prod.splits sum.splits)

lemma poll_servers_at:
  assumes "\<And>j. j < k \<Longrightarrow> found_at a A serverName w j = Inr ''''" "found_at a A serverName w k = r" "r \<noteq> Inr ''''"
  shows "poll_servers a A serverName w = Some (r,
    (case r of Inl _ \<Rightarrow> (\<lambda>w. w) | Inr _ \<Rightarrow> sleep_for A 1000) (after_rounds a A serverName (Suc k) w))"
  using assms
proof (induction k arbitrary: w)
  case 0
  then show ?case by (simp add: poll_servers_unfold [of a A serverName w] split: sum.splits)
next
  case (Suc k)
  have "found_at a A serverName (snd (search_round a A serverName w)) j = Inr ''''" if "j < k" for j
    using Suc.prems(1) [of "Suc j"] that by simp
  then have "poll_servers a A serverName (snd (search_round a A serverName w)) = Some (r,
      (case r of Inl _ \<Rightarrow> (\<lambda>w. w) | Inr _ \<Rightarrow> sleep_for A 1000)
        (after_rounds a A serverName (Suc k) (snd (search_round a A serverName w))))"
    using Suc.IH Suc.prems(2,3) by simp
  then show ?case
    using Suc.prems(1) [of 0] by (simp add: poll_servers_unfold [of a A serverName w])
qed

lemma poll_servers_found:
  assumes "poll_servers a A serverName w = Some r"
  shows "\<exists>k. found_at a A serverName w k \<noteq> Inr ''''"
proof (rule poll_servers.raw_induct [where P = "\<lambda>a A serverName w r. \<exists>k. found_at a A serverName w k \<noteq> Inr ''''", OF _ assms])
  fix f :: "ua_api \<Rightarrow> 'a naming_api \<Rightarrow> char list \<Rightarrow> 'a \<Rightarrow> ((exn + char list) \<times> 'a) option" and a A serverName w r
  assume IH: "\<And>a A serverName w r. f a A serverName w = Some r \<Longrightarrow> \<exists>k. found_at a A serverName w k \<noteq> Inr ''''"
    and step: "(case search_round a A serverName w of (Inl e, w') \<Rightarrow> Some (Inl e, w')
      | (Inr serverUrl, w') \<Rightarrow> if serverUrl \<noteq> '''' then Some (Inr serverUrl, sleep_for A 1000 w') else f a A serverName w') = Some r"
  show "\<exists>k. found_at a A serverName w k \<noteq> Inr ''''"
  proof (cases "found_at a A serverName w 0 = Inr ''''")
    case True
    then have "f a A serverName (snd (search_round a A serverName w)) = Some r"
      using step by (auto split: prod.splits)
    then obtain k where "found_at a A serverName (snd (search_round a A serverName w)) k \<noteq> Inr ''''" using IH by blast
    then show ?thesis by (intro exI [of _ "Suc k"]) simp
  qed blast
qed

lemma poll_servers_ends_iff:
  "poll_servers a A serverName w = None \<longleftrightarrow> (\<forall>k. found_at a A serverName w k = Inr '''')"
proof
  assume "poll_servers a A serverName w = None"
  show "\<forall>k. found_at a A serverName w k = Inr ''''"
  proof (rule ccontr)
    assume "\<not> (\<forall>k. found_at a A serverName w k = Inr '''')"
    then have k: "found_at a A serverName w (LEAST k. found_at a A serverName w k \<noteq> Inr '''') \<noteq> Inr ''''"
      by (metis (mono_tags, lifting) LeastI)
    have "found_at a A serverName w j = Inr ''''" if "j < (LEAST k. found_at a A serverName w k \<noteq> Inr '''')" for j
      using not_less_Least [OF that] by simp
    from poll_servers_at [OF this refl k] \<open>poll_servers a A serverName w = None\<close> show False by simp
  qed
qed (metis not_None_eq poll_servers_found)

lemma try_addresses_error:
  "fst (try_addresses a A urls w) = Inl e \<Longrightarrow> \<exists>c. e = OpcUaError c \<and> \<not> skipped_status c"
  by (induction urls arbitrary: w) (auto split: prod.splits sum.splits exn.splits if_splits)

lemma mdns_error:
  "fst (getServerUrlFromMdnsLDS a A serverName d w) = Inl e \<Longrightarrow> \<exists>c. e = OpcUaError c \<and> \<not> skipped_status c"
  by (auto simp: getServerUrlFromMdnsLDS_def findServerUrlFromServerOnNetwork_def split: prod.splits dest!: try_addresses_error)

lemma ask_servers_error:
  "fst (ask_servers a A serverName ds w) = Inl e \<Longrightarrow> \<exists>c. e = OpcUaError c \<and> \<not> skipped_status c"
proof (induction ds arbitrary: w)
  case (Cons d ds)
  then show ?case
    using mdns_error [of a A serverName "changeLocalHostname d" w e] by (fastforce split: prod.splits sum.splits if_splits)
qed simp

lemma found_at_error: "found_at a A serverName w k = Inl e \<Longrightarrow> \<exists>c. e = OpcUaError c \<and> \<not> skipped_status c"
  using ask_servers_error by (fastforce simp: found_at_def search_round_def split: prod.splits)

text \<open>C10: The search for the address of a server, once the own server runs, ends if and only if some pass over
  the known discovery servers finds an address or is stopped by an error: while no pass does, it goes on
  forever. It ends with the result of the first such pass, which is then remembered if it is an address;
  the only exceptions are status codes other than the two that are skipped, so the exception for a
  server that is not found is never raised.\<close>

theorem search_ends_iff_found:
  assumes "m_serverUrl n serverName = None" "wait_running A w = Some w1"
  shows "(findServerUrlByServerName a A serverName (n, w) = None \<longleftrightarrow> (\<forall>k. found_at a A serverName w1 k = Inr [])) \<and>
    (\<forall>k r. (\<forall>j<k. found_at a A serverName w1 j = Inr []) \<and> found_at a A serverName w1 k = r \<and> r \<noteq> Inr [] \<longrightarrow>
      (\<exists>w'. findServerUrlByServerName a A serverName (n, w) = Some (case r of
        Inl e \<Rightarrow> (Inl e, n, w') | Inr url \<Rightarrow> (Inr url, n \<lparr> m_serverUrl := (m_serverUrl n)(serverName \<mapsto> url) \<rparr>, w')))) \<and>
    (\<forall>e n' w'. findServerUrlByServerName a A serverName (n, w) = Some (Inl e, n', w') \<longrightarrow>
      (\<exists>c. e = OpcUaError c \<and> \<not> skipped_status c))"
proof -
  let ?f = "findServerUrlByServerName a A serverName (n, w)"
  have none: "?f = None \<longleftrightarrow> poll_servers a A serverName w1 = None"
    using assms by (cases "poll_servers a A serverName w1") (auto simp: findServerUrlByServerName_def split: sum.splits)
  have at: "\<exists>w'. ?f = Some (case r of Inl e \<Rightarrow> (Inl e, n, w')
      | Inr url \<Rightarrow> (Inr url, n \<lparr> m_serverUrl := (m_serverUrl n)(serverName \<mapsto> url) \<rparr>, w'))"
    if "\<forall>j<k. found_at a A serverName w1 j = Inr []" "found_at a A serverName w1 k = r" "r \<noteq> Inr []" for k r
    using assms that(3) poll_servers_at [of k a A serverName w1, OF that(1) [rule_format] that(2,3)]
    by (auto simp: findServerUrlByServerName_def split: sum.splits)
  have "\<exists>c. e = OpcUaError c \<and> \<not> skipped_status c" if err: "?f = Some (Inl e, n', w')" for e n' w'
  proof -
    have "\<not> (\<forall>k. found_at a A serverName w1 k = Inr [])" using err none poll_servers_ends_iff [of a A serverName w1] by (metis option.distinct(1))
    then obtain k where "found_at a A serverName w1 k \<noteq> Inr []" "\<forall>j<k. found_at a A serverName w1 j = Inr []"
      using exists_least_iff [of "\<lambda>k. found_at a A serverName w1 k \<noteq> Inr []"] by auto
    from at [OF this(2) refl this(1)] err have "found_at a A serverName w1 k = Inl e"
      by (cases "found_at a A serverName w1 k") auto
    then show ?thesis by (rule found_at_error)
  qed
  moreover have "?f = None \<longleftrightarrow> (\<forall>k. found_at a A serverName w1 k = Inr [])"
    unfolding none by (rule poll_servers_ends_iff)
  ultimately show ?thesis by (intro conjI allI impI; (elim conjE)?) (assumption | rule at | simp)+
qed

text \<open>
  A network for evaluating the model; its world is a clock that every call advances. The own server runs
  from 2 on, a robot is announced from 8 on, and the robot accepts connections from 20 on.
\<close>

definition demo_server :: "nat \<Rightarrow> opcua_server" where
  "demo_server t = (new_opcua_server 0 1) \<lparr> m_isRunning := 2 \<le> t, m_foundServer := [''opc.tcp://localhost:50000''] \<rparr>"

definition demo_network :: "nat naming_api" where
  "demo_network = \<lparr> Client_connect = \<lambda>u t. (if 20 \<le> t then 0 else 0x80AE0000, Suc t),
     readValueAttribute = \<lambda>c i t. ((0, Variant (Some UA_STRING) 2 [] (Strs [''http://opcfoundation.org/UA/'', seronet_namespace])), Suc t),
     findServersOnNetwork = \<lambda>u t. ((0, if 8 \<le> t then [(''robot-pc'', ''opc.tcp://169.254.7.7:4840'')] else []), Suc t),
     findServers = \<lambda>u t. ((0, []), Suc t),
     getEndpoints = \<lambda>u t. ((0, [u]), Suc t),
     look_server = \<lambda>t. (demo_server t, Suc t),
     sleep_for = \<lambda>ms t. Suc t,
     hasArrayType = \<lambda>v t. vtype v = Some t \<and> vlen v > 0 \<rparr>"

lemma demo_running: "wait_running demo_network 0 = Some 3"
  by (simp add: wait_running.simps demo_network_def demo_server_def new_opcua_server_def)

lemma demo_ghost: "search_round std_api demo_network ''ghost'' t = (Inr [], t + 3)"
proof -
  have "getServerNameFromServerOnNetworkElement std_api ''robot-pc'' = ''robot''"
    by (simp add: getServerNameFromServerOnNetworkElement_def std_api_def)
  then show ?thesis
    by (simp add: search_round_def demo_network_def demo_server_def new_opcua_server_def getKnownServer_def
      getServerUrlFromMdnsLDS_def findServerUrlFromServerOnNetwork_def equal_range_def)
qed

lemma demo_ghost_rounds: "found_at std_api demo_network ''ghost'' t k = Inr []"
  by (induction k arbitrary: t) (simp_all add: demo_ghost)

lemma demo_local: "changeLocalHostname ''opc.tcp://169.254.7.7:4840'' = ''opc.tcp://localhost:4840''"
  by (simp add: changeLocalHostname_def str_find.simps port_position_def)

lemma demo_robot:
  "search_round std_api demo_network ''robot'' t =
    (if t \<ge> 7 then (Inr ''opc.tcp://localhost:4840'', t + 4) else (Inr [], t + 3))"
proof -
  have "getServerNameFromServerOnNetworkElement std_api ''robot-pc'' = ''robot''"
    by (simp add: getServerNameFromServerOnNetworkElement_def std_api_def)
  moreover have "c_str ''opc.tcp://localhost:4840'' = ''opc.tcp://localhost:4840''" by (simp add: no_nul_def)
  ultimately show ?thesis
    by (simp add: search_round_def demo_network_def demo_server_def new_opcua_server_def getKnownServer_def
      getServerUrlFromMdnsLDS_def findServerUrlFromServerOnNetwork_def equal_range_def getSessionEndpointUrl_def
      demo_local std_api_def)
qed

theorem search_ends_iff_found_witness:
  "findServerUrlByServerName std_api demo_network ''ghost'' (new_naming, 0) = None \<and>
   (\<exists>w'. findServerUrlByServerName std_api demo_network ''robot'' (new_naming, 0) =
     Some (Inr ''opc.tcp://localhost:4840'',
       new_naming \<lparr> m_serverUrl := (m_serverUrl new_naming)(''robot'' \<mapsto> ''opc.tcp://localhost:4840'') \<rparr>, w'))"
proof -
  have new: "m_serverUrl new_naming s = None" for s by (simp add: new_naming_def)
  have "found_at std_api demo_network ''robot'' 3 2 = Inr ''opc.tcp://localhost:4840''"
    "found_at std_api demo_network ''robot'' 3 0 = Inr []" "found_at std_api demo_network ''robot'' 3 1 = Inr []"
    by (simp_all add: numeral_2_eq_2 demo_robot)
  moreover have "j = 0 \<or> j = 1" if "j < 2" for j :: nat using that by auto
  ultimately show ?thesis
    using search_ends_iff_found [OF new demo_running, of std_api "''ghost''"] demo_ghost_rounds
      search_ends_iff_found [OF new demo_running, of std_api "''robot''",
        THEN conjunct2, THEN conjunct1, rule_format, of 2 "Inr ''opc.tcp://localhost:4840''"]
    by fastforce
qed

subsection \<open>Connecting\<close>

text \<open>The world after a number of attempts to connect, and the result of the next one.\<close>

fun after_attempts :: "'w naming_api \<Rightarrow> string \<Rightarrow> nat \<Rightarrow> 'w \<Rightarrow> 'w" where
  "after_attempts A url 0 w = w"
| "after_attempts A url (Suc k) w = after_attempts A url k (snd (Client_connect A (c_str url) w))"

definition attempt :: "'w naming_api \<Rightarrow> string \<Rightarrow> 'w \<Rightarrow> nat \<Rightarrow> 32 word" where
  "attempt A url w k = fst (Client_connect A (c_str url) (after_attempts A url k w))"

lemma attempt_simps [simp]:
  "attempt A url w 0 = fst (Client_connect A (c_str url) w)"
  "attempt A url w (Suc k) = attempt A url (snd (Client_connect A (c_str url) w)) k"
  by (simp_all add: attempt_def)

lemma connect_loop_unfold:
  "connect_loop A url i w =
    (if attempt A url w 0 = 0 then (0, after_attempts A url 1 w)
     else case i of 0 \<Rightarrow> (attempt A url w 0, after_attempts A url 1 w)
       | Suc j \<Rightarrow> connect_loop A url j (after_attempts A url 1 w))"
  by (subst connect_loop.simps) (auto split: prod.splits nat.splits)

lemma connect_loop_good:
  assumes "k \<le> i" "\<And>j. j < k \<Longrightarrow> attempt A url w j \<noteq> 0" "attempt A url w k = 0"
  shows "connect_loop A url i w = (0, after_attempts A url (Suc k) w)"
  using assms
proof (induction k arbitrary: i w)
  case 0
  then show ?case by (simp add: connect_loop_unfold)
next
  case (Suc k)
  obtain i' where i: "i = Suc i'" "k \<le> i'" using Suc.prems(1) by (cases i) auto
  have "attempt A url w 0 \<noteq> 0" using Suc.prems(2) [of 0] by simp
  moreover have "attempt A url (snd (Client_connect A (c_str url) w)) j \<noteq> 0" if "j < k" for j
    using Suc.prems(2) [of "Suc j"] that by simp
  ultimately show ?case
    using Suc.IH [OF i(2), of "snd (Client_connect A (c_str url) w)"] Suc.prems(3) i(1)
    by (simp add: connect_loop_unfold [of A url "Suc i'" w])
qed

lemma connect_loop_bad:
  assumes "\<And>j. j \<le> i \<Longrightarrow> attempt A url w j \<noteq> 0"
  shows "connect_loop A url i w = (attempt A url w i, after_attempts A url (Suc i) w)"
  using assms
proof (induction i arbitrary: w)
  case 0
  then show ?case by (simp add: connect_loop_unfold)
next
  case (Suc i)
  have "attempt A url w 0 \<noteq> 0" using Suc.prems [of 0] by simp
  moreover have "attempt A url (snd (Client_connect A (c_str url) w)) j \<noteq> 0" if "j \<le> i" for j
    using Suc.prems [of "Suc j"] that by simp
  ultimately show ?case
    using Suc.IH [of "snd (Client_connect A (c_str url) w)"]
    by (simp add: connect_loop_unfold [of A url "Suc i" w])
qed



subsection \<open>The connections and their cache\<close>

text \<open>
  A connection in the cache has an owner, a running loop and a deleter bound to the name it is cached
  for; a connection with an owner is in the cache; a running loop has an owner.
\<close>

definition naming_ok :: "naming \<Rightarrow> bool" where
  "naming_ok n \<longleftrightarrow>
    (\<forall>name c. m_connectionCache n name = Some c \<longrightarrow> c < length (connections n) \<and>
      owners (connections n ! c) > 0 \<and> loop_runs (connections n ! c) \<and> bound_name (connections n ! c) = name) \<and>
    (\<forall>c<length (connections n). owners (connections n ! c) > 0 \<longrightarrow>
      m_connectionCache n (bound_name (connections n ! c)) = Some c) \<and>
    (\<forall>c<length (connections n). loop_runs (connections n ! c) \<longrightarrow> owners (connections n ! c) > 0)"

lemma naming_okD:
  assumes "naming_ok n"
  shows "m_connectionCache n name = Some c \<Longrightarrow> c < length (connections n) \<and> owners (connections n ! c) > 0 \<and>
      loop_runs (connections n ! c) \<and> bound_name (connections n ! c) = name"
    and "c < length (connections n) \<Longrightarrow> owners (connections n ! c) > 0 \<Longrightarrow>
      m_connectionCache n (bound_name (connections n ! c)) = Some c"
    and "c < length (connections n) \<Longrightarrow> loop_runs (connections n ! c) \<Longrightarrow> owners (connections n ! c) > 0"
  using assms by (simp_all add: naming_ok_def)

lemma naming_okI:
  assumes "\<And>name c. m_connectionCache n name = Some c \<Longrightarrow> c < length (connections n) \<and> owners (connections n ! c) > 0 \<and>
      loop_runs (connections n ! c) \<and> bound_name (connections n ! c) = name"
    and "\<And>c. c < length (connections n) \<Longrightarrow> owners (connections n ! c) > 0 \<Longrightarrow>
      m_connectionCache n (bound_name (connections n ! c)) = Some c"
    and "\<And>c. c < length (connections n) \<Longrightarrow> loop_runs (connections n ! c) \<Longrightarrow> owners (connections n ! c) > 0"
  shows "naming_ok n"
  using assms by (simp add: naming_ok_def)

lemma naming_ok_new: "naming_ok new_naming"
  by (simp add: naming_ok_def new_naming_def)

lemma naming_ok_cong:
  assumes "m_connectionCache n' = m_connectionCache n" "connections n' = connections n"
  shows "naming_ok n' = naming_ok n"
  using assms by (simp add: naming_ok_def)

lemma cached_connection_ok: "naming_ok n \<Longrightarrow> cached_connection n name = m_connectionCache n name"
  by (auto simp: cached_connection_def naming_ok_def split: option.splits)

lemma add_owner_ok [wf_intros]:
  "naming_ok n \<Longrightarrow> m_connectionCache n name = Some c \<Longrightarrow> naming_ok (add_owner c n)"
  unfolding naming_ok_def add_owner_def by (auto simp: nth_list_update)

lemma new_connection_ok [wf_intros]:
  assumes "naming_ok n" "m_connectionCache n name = None"
  shows "naming_ok (new_connection name n)"
proof -
  have "owners (connections n ! c) > 0 \<Longrightarrow> bound_name (connections n ! c) \<noteq> name" if "c < length (connections n)" for c
    using assms that by (auto simp: naming_ok_def)
  moreover have "m_connectionCache n nm \<noteq> Some (length (connections n))" for nm
    using assms by (auto simp: naming_ok_def)
  ultimately show ?thesis
    using assms unfolding naming_ok_def new_connection_def Let_def by (auto simp: nth_append less_Suc_eq)
qed

lemma find_url_keeps:
  assumes "findServerUrlByServerName a A name (n, w) = Some (r, n', w')"
  shows "m_connectionCache n' = m_connectionCache n" "connections n' = connections n"
proof -
  have "m_connectionCache n' = m_connectionCache n \<and> connections n' = connections n"
  proof (cases "m_serverUrl n name")
    case None
    with assms obtain w1 r2 w2 where "wait_running A w = Some w1" "poll_servers a A name w1 = Some (r2, w2)"
      by (auto simp: findServerUrlByServerName_def bind_eq_Some_conv)
    then show ?thesis
      using assms None by (cases r2) (auto simp: findServerUrlByServerName_def split: if_split_asm)
  qed (use assms in \<open>simp add: findServerUrlByServerName_def\<close>)
  then show "m_connectionCache n' = m_connectionCache n" "connections n' = connections n" by auto
qed

lemma getConnectionByName_ok:
  assumes "naming_ok n" "getConnectionByName a A name (n, w) = Some (r, n', w')"
  shows "naming_ok n'" and "r = Inr c \<Longrightarrow> m_connectionCache n' name = Some c"
proof -
  have "naming_ok n' \<and> (\<forall>c. r = Inr c \<longrightarrow> m_connectionCache n' name = Some c)"
  proof (cases "m_connectionCache n name")
    case None
    then have n: "n \<lparr> m_connectionCache := (m_connectionCache n)(name := None) \<rparr> = n" by (simp add: fun_upd_idem)
    from assms None obtain r1 n1 w1 where find: "findServerUrlByServerName a A name (n, w) = Some (r1, n1, w1)"
      by (auto simp: getConnectionByName_def cached_connection_ok n bind_eq_Some_conv)
    then have n': "n' = n1 \<and> r \<in> range Inl \<or> n' = new_connection name n1 \<and> r = Inr (length (connections n1))"
      using assms None
      by (cases r1) (auto simp: getConnectionByName_def cached_connection_ok n split: prod.split_asm if_split_asm)
    note n1 = find_url_keeps [OF find]
    then have ok: "naming_ok n1" "m_connectionCache n1 name = None"
      using assms(1) None naming_ok_cong [OF n1] n1(1) by simp_all
    from n' show ?thesis
      using new_connection_ok [OF ok] ok by (auto simp: new_connection_def)
  next
    case (Some c)
    then show ?thesis
      using assms add_owner_ok [of n name c] by (auto simp: getConnectionByName_def cached_connection_ok add_owner_def)
  qed
  then show "naming_ok n'" "r = Inr c \<Longrightarrow> m_connectionCache n' name = Some c" by auto
qed

lemma release_connection_ok:
  assumes "naming_ok n" "c < length (connections n)" "owners (connections n ! c) > 0"
  shows "\<exists>n'. release_connection c n = Inr n' \<and> naming_ok n'"
proof (cases "owners (connections n ! c) = 1")
  case True
  let ?name = "bound_name (connections n ! c)"
  let ?n = "n \<lparr> connections := (connections n)[c := (connections n ! c) \<lparr> owners := 0, loop_runs := False \<rparr>],
    m_connectionCache := (m_connectionCache n)(?name := None) \<rparr>"
  have "m_connectionCache n ?name = Some c" using assms by (simp add: naming_ok_def)
  then have "release_connection c n = Inr ?n"
    using assms(2) True by (simp add: release_connection_def drop_owner_def clientWithMutexDeletedCallback_def Let_def)
  moreover have "naming_ok ?n"
  proof (rule naming_okI)
    fix nm d
    assume "m_connectionCache ?n nm = Some d"
    then have "nm \<noteq> ?name" "m_connectionCache n nm = Some d" by (simp_all split: if_split_asm)
    moreover from this have "d \<noteq> c" using naming_okD(1) [OF assms(1), of nm d] by auto
    ultimately show "d < length (connections ?n) \<and> owners (connections ?n ! d) > 0 \<and> loop_runs (connections ?n ! d) \<and>
        bound_name (connections ?n ! d) = nm"
      using naming_okD(1) [OF assms(1), of nm d] by simp
  next
    fix d
    assume "d < length (connections ?n)" "owners (connections ?n ! d) > 0"
    moreover from this have "d \<noteq> c" by auto
    ultimately have d: "d \<noteq> c" "d < length (connections n)" "owners (connections n ! d) > 0" by simp_all
    then show "m_connectionCache ?n (bound_name (connections ?n ! d)) = Some d"
      using naming_okD(2) [OF assms(1) d(2,3)] naming_okD(2) [OF assms] by auto
  next
    fix d
    assume "d < length (connections ?n)" "loop_runs (connections ?n ! d)"
    moreover from this have "d \<noteq> c" by auto
    ultimately show "owners (connections ?n ! d) > 0" using naming_okD(3) [OF assms(1), of d] by simp
  qed
  ultimately show ?thesis by blast
next
  case False
  then have "naming_ok (drop_owner c n)"
    using assms unfolding naming_ok_def drop_owner_def by (auto simp: nth_list_update)
  then show ?thesis using assms False by (auto simp: release_connection_def drop_owner_def Let_def)
qed

inductive naming_step :: "ua_api \<Rightarrow> 'w naming_api \<Rightarrow> naming \<Rightarrow> naming \<Rightarrow> bool" for a A where
  connected: "getConnectionByName a A name (n, w) = Some (Inr c, n', w') \<Longrightarrow> naming_step a A n n'"
| failed: "getConnectionByName a A name (n, w) = Some (Inl e, n', w') \<Longrightarrow> e \<noteq> Terminated \<Longrightarrow> naming_step a A n n'"
| released: "c < length (connections n) \<Longrightarrow> owners (connections n ! c) > 0 \<Longrightarrow> release_connection c n = Inr n' \<Longrightarrow>
    naming_step a A n n'"

lemma naming_step_ok: "naming_step a A n n' \<Longrightarrow> naming_ok n \<Longrightarrow> naming_ok n'"
  by (induction rule: naming_step.induct) (use getConnectionByName_ok release_connection_ok in fastforce)+

text \<open>C8: However a naming service is used from its start, by looking servers up and releasing the connections
  handed out, one operation after the other: every connection that still has an owner is the one cached
  for its server and its background loop runs, a connection without an owner has no running loop, two
  connections with owners belong to different servers, and releasing a connection that has an owner never
  runs into the erase of a missing entry.\<close>

theorem connections_consistent:
  assumes "(naming_step a A)\<^sup>*\<^sup>* new_naming n" "c < length (connections n)"
  shows "(owners (connections n ! c) > 0 \<longleftrightarrow> loop_runs (connections n ! c)) \<and>
    (owners (connections n ! c) > 0 \<longrightarrow> m_connectionCache n (bound_name (connections n ! c)) = Some c \<and>
      (\<exists>n'. release_connection c n = Inr n') \<and>
      (\<forall>c'<length (connections n). owners (connections n ! c') > 0 \<and>
        bound_name (connections n ! c') = bound_name (connections n ! c) \<longrightarrow> c' = c))"
proof -
  have "naming_ok n"
    using assms(1)
  proof (induction rule: rtranclp_induct)
    case (step n1 n2)
    from step.hyps(2) step.IH show ?case by (rule naming_step_ok)
  qed (rule naming_ok_new)
  note ok = naming_okD [OF this]
  have "c' = c" if "c' < length (connections n)" "owners (connections n ! c') > 0" "owners (connections n ! c) > 0"
    "bound_name (connections n ! c') = bound_name (connections n ! c)" for c'
    using ok(2) [OF that(1,2), unfolded that(4)] ok(2) [OF assms(2) that(3)] by (metis option.inject)
  moreover have "m_connectionCache n (bound_name (connections n ! c)) = Some c \<and> loop_runs (connections n ! c) \<and>
      (\<exists>n'. release_connection c n = Inr n')" if "owners (connections n ! c) > 0"
    using ok(2) [OF assms(2) that] ok(1) [OF ok(2) [OF assms(2) that]]
      release_connection_ok [OF \<open>naming_ok n\<close> assms(2) that] by blast
  ultimately show ?thesis using ok(3) [OF assms(2)] by meson
qed

lemma demo_connects:
  "getConnectionByName std_api demo_network ''robot'' (new_naming, 18) = Some (Inr 0, new_naming
    \<lparr> m_serverUrl := [''robot'' \<mapsto> ''opc.tcp://localhost:4840''], m_connectionCache := [''robot'' \<mapsto> 0],
      connections := [\<lparr> owners = 1, bound_name = ''robot'', loop_runs = True \<rparr>] \<rparr>, 25)"
proof -
  have "wait_running demo_network 18 = Some 19"
    by (simp add: wait_running.simps demo_network_def demo_server_def new_opcua_server_def)
  moreover have "poll_servers std_api demo_network ''robot'' 19 = Some (Inr ''opc.tcp://localhost:4840'', 24)"
    by (subst poll_servers_unfold) (simp add: demo_robot, simp add: demo_network_def)
  moreover have "opcUaBackgroundTask demo_network ''opc.tcp://localhost:4840'' 24 = (True, 25)"
    by (simp add: opcUaBackgroundTask_def connect_loop.simps demo_network_def)
  ultimately show ?thesis
    by (simp add: getConnectionByName_def findServerUrlByServerName_def cached_connection_def new_connection_def new_naming_def)
qed

theorem connections_consistent_witness:
  "\<exists>n. (naming_step std_api demo_network)\<^sup>*\<^sup>* new_naming n \<and> length (connections n) = 1 \<and>
    loop_runs (connections n ! 0) \<and> m_connectionCache n ''robot'' = Some 0 \<and> (\<exists>n'. release_connection 0 n = Inr n')"
proof -
  let ?n = "new_naming \<lparr> m_serverUrl := [''robot'' \<mapsto> ''opc.tcp://localhost:4840''], m_connectionCache := [''robot'' \<mapsto> 0],
    connections := [\<lparr> owners = 1, bound_name = ''robot'', loop_runs = True \<rparr>] \<rparr>"
  have run: "(naming_step std_api demo_network)\<^sup>*\<^sup>* new_naming ?n"
    using naming_step.connected [OF demo_connects] by blast
  from connections_consistent [OF run, of 0] have "loop_runs (connections ?n ! 0) \<and> (\<exists>n'. release_connection 0 ?n = Inr n')"
    by simp
  then show ?thesis using run by (intro exI [of _ ?n]) simp
qed

text \<open>The deleter of a connection identifies its entry by the name of the server. If, after the last owner of
  a connection is gone and before its deleter runs, another thread looks the same server up, that thread
  is handed a new connection, and the deleter then stops the background loop of the new connection and
  removes it from the cache, while it still has its owner.\<close>

theorem deleter_stops_new_connection:
  assumes "naming_ok n" "m_connectionCache n name = Some c" "owners (connections n ! c) = 1"
    and "m_serverUrl n name = Some url" "attempt A url w 0 = 0"
  shows "\<exists>n' w' n''. getConnectionByName a A name (drop_owner c n, w) = Some (Inr (length (connections n)), n', w') \<and>
    clientWithMutexDeletedCallback name n' = Inr n'' \<and>
    owners (connections n'' ! length (connections n)) = 1 \<and> \<not> loop_runs (connections n'' ! length (connections n)) \<and>
    m_connectionCache n'' name = None"
proof -
  have c: "c < length (connections n)" using assms(1,2) by (auto simp: naming_ok_def)
  then have "cached_connection (drop_owner c n) name = None"
    using assms(2,3) by (simp add: cached_connection_def drop_owner_def)
  moreover have "opcUaBackgroundTask A url w = (True, after_attempts A url 1 w)"
    using connect_loop_good [of 0 9 A url w] assms(5) by (simp add: opcUaBackgroundTask_def)
  ultimately show ?thesis
    using assms(4) by (simp add: getConnectionByName_def findServerUrlByServerName_def drop_owner_def new_connection_def
      clientWithMutexDeletedCallback_def Let_def nth_append)
qed

theorem deleter_stops_new_connection_witness:
  "\<exists>n' w' n''. getConnectionByName std_api demo_network ''robot'' (drop_owner 0 (snd (new_naming, new_naming
      \<lparr> m_serverUrl := [''robot'' \<mapsto> ''u''], m_connectionCache := [''robot'' \<mapsto> 0],
        connections := [\<lparr> owners = 1, bound_name = ''robot'', loop_runs = True \<rparr>] \<rparr>)), 25) = Some (Inr 1, n', w') \<and>
    clientWithMutexDeletedCallback ''robot'' n' = Inr n'' \<and>
    owners (connections n'' ! 1) = 1 \<and> \<not> loop_runs (connections n'' ! 1) \<and> m_connectionCache n'' ''robot'' = None"
proof -
  let ?n = "new_naming \<lparr> m_serverUrl := [''robot'' \<mapsto> ''u''], m_connectionCache := [''robot'' \<mapsto> 0],
    connections := [\<lparr> owners = 1, bound_name = ''robot'', loop_runs = True \<rparr>] \<rparr>"
  have "naming_ok ?n" by (simp add: naming_ok_def)
  from deleter_stops_new_connection [OF this, of "''robot''" 0 "''u''" demo_network 25 std_api]
  show ?thesis by (simp add: demo_network_def)
qed

subsection \<open>Addresses and nodes\<close>

lemma find_last_append:
  "find_last c (xs @ ys) = (case find_last c ys of Some i \<Rightarrow> Some (length xs + i) | None \<Rightarrow> find_last c xs)"
  by (induction xs) (auto split: option.splits)

lemma find_last_None: "c \<notin> set xs \<Longrightarrow> find_last c xs = None"
  by (induction xs) auto

text \<open>The replacement keeps the port and drops what follows an address without one.\<close>

lemma link_local_replaced:
  assumes "CHR '':'' \<notin> set host" "CHR '':'' \<notin> set port" "length host + length port < 2 ^ 63"
  shows "changeLocalHostname (''opc.tcp://169.254.'' @ host @ CHR '':'' # port) = ''opc.tcp://localhost:'' @ port"
    and "changeLocalHostname (''opc.tcp://169.254.'' @ host) = ''opc.tcp://localhost''"
proof -
  have found: "str_find ''169.254.'' (''opc.tcp://169.254.'' @ s) = Some 10" for s
    by (simp add: str_find.simps)
  have count: "unat (word_of_nat (18 + m) - word_of_nat 10 :: 64 word) = 8 + m" if "m < 2 ^ 63" for m
  proof -
    have "word_of_nat (18 + m) - word_of_nat 10 = (word_of_nat (8 + m) :: 64 word)" by simp
    moreover have "unat (word_of_nat (8 + m) :: 64 word) = 8 + m"
      using that by (simp only: unat_of_nat) (simp add: take_bit_nat_eq_self)
    ultimately show ?thesis by metis
  qed
  have local: "changeLocalHostname (''opc.tcp://169.254.'' @ host @ s) = ''opc.tcp://localhost'' @ s"
    if "port_position (''opc.tcp://169.254.'' @ host @ s) = 18 + length host" for s
  proof -
    have "drop (10 + (8 + length host)) (''opc.tcp://169.254.'' @ host @ s) = s"
      unfolding drop_append by simp
    then show ?thesis
      unfolding changeLocalHostname_def found option.case Let_def that using count [of "length host"] assms(3) by simp
  qed
  have "port_position (''opc.tcp://169.254.'' @ host @ CHR '':'' # port) = 18 + length host"
    using assms(2) by (simp add: port_position_def find_last_append find_last_None)
  then show "changeLocalHostname (''opc.tcp://169.254.'' @ host @ CHR '':'' # port) = ''opc.tcp://localhost:'' @ port"
    using local [of "CHR '':'' # port"] by simp
  have "port_position (''opc.tcp://169.254.'' @ host) = 18 + length host"
    using assms(1) by (simp add: port_position_def find_last_append find_last_None)
  then show "changeLocalHostname (''opc.tcp://169.254.'' @ host) = ''opc.tcp://localhost''"
    using local [of "''''"] by simp
qed

lemma search_namespace_first:
  assumes "api_ok a" "i \<le> k" "k < n" "n \<le> length ss" "ss ! k = seronet_namespace"
    and "\<And>j. i \<le> j \<Longrightarrow> j < k \<Longrightarrow> ss ! j \<noteq> seronet_namespace"
  shows "search_namespace a (Strs ss) n i = Inr (word_of_nat k)"
  using assms(2,6)
proof (induction "k - i" arbitrary: i)
  case 0
  then show ?case using assms by (simp add: search_namespace.simps [of a _ n i] api_okD)
next
  case (Suc m)
  then have "search_namespace a (Strs ss) n (Suc i) = Inr (word_of_nat k)" by simp
  then show ?case
    using Suc.prems Suc.hyps assms by (simp add: search_namespace.simps [of a _ n i] api_okD)
qed

lemma lookup_node:
  assumes "api_ok a" "getConnectionByName a A serverName (n, w) = Some (Inr c, n1, w1)"
    and "readValueAttribute A c (NumId 0 2255) w1 = ((0, v), w2)" "hasArrayType A v UA_STRING"
    and "vdata v = Strs ss" "vlen v = length ss" "k < length ss" "ss ! k = seronet_namespace"
    and "\<And>j. j < k \<Longrightarrow> ss ! j \<noteq> seronet_namespace"
  shows "getConnectionAndNodeIdByName a A serverName service (n, w) =
    Some (Inr (c, StrId (word_of_nat k) (''85.'' @ service)), n1, w2)"
  using assms search_namespace_first [of a 0 k "length ss" ss]
  by (simp add: getConnectionAndNodeIdByName_def getNsIndexFromServer_def createNodeId_def api_okD)

subsection \<open>The endpoints announced\<close>

text \<open>The port drawn does not wrap: it is one of 49151 to 65534.\<close>

lemma initServer_port:
  "\<not> m_initialized s \<Longrightarrow> unat (m_port (initServer rnd i name s)) = 49151 + rnd mod 16384"
proof -
  have "49151 + rnd mod 16384 < 2 ^ LENGTH(16)" using mod_less_divisor [of 16384 rnd] by simp
  then show "\<not> m_initialized s \<Longrightarrow> unat (m_port (initServer rnd i name s)) = 49151 + rnd mod 16384"
    by (simp add: initServer_def Let_def unat_of_nat take_bit_nat_eq_self del: of_nat_add)
qed

text \<open>Some calls of \<open>getNextDiscoveryServerEndpoint\<close> in a row, while no server is announced.\<close>

fun next_endpoints :: "nat \<Rightarrow> opcua_server \<Rightarrow> string list result option" where
  "next_endpoints 0 s = Some (Inr [])"
| "next_endpoints (Suc k) s = (case getNextDiscoveryServerEndpoint s of
     None \<Rightarrow> None
   | Some (Inl e) \<Rightarrow> Some (Inl e)
   | Some (Inr (url, s')) \<Rightarrow> map_option (\<lambda>r. rbind r (\<lambda>urls. Inr (url # urls))) (next_endpoints k s'))"

lemma next_endpoints_down:
  assumes "m < length (m_foundServer s)" "length (m_foundServer s) < 2 ^ 32" "'''' \<notin> set (m_foundServer s)" "k \<le> Suc m"
  shows "next_endpoints k (s \<lparr> m_iterator := word_of_nat m \<rparr>) = Some (Inr (take k (rev (take (Suc m) (m_foundServer s)))))"
  using assms(1,4)
proof (induction k arbitrary: m)
  case (Suc k)
  have m: "unat (word_of_nat m :: 32 word) = m"
    using Suc.prems assms(2) by (simp add: unat_of_nat take_bit_nat_eq_self)
  have "m_foundServer s ! m \<noteq> ''''" using Suc.prems(1) assms(3) by (metis nth_mem)
  then have step: "getNextDiscoveryServerEndpoint (s \<lparr> m_iterator := word_of_nat m \<rparr>) =
      Some (Inr (m_foundServer s ! m, s \<lparr> m_iterator := word_of_nat m - 1 \<rparr>))"
    using Suc.prems m by (simp add: getNextDiscoveryServerEndpoint_def iterator_start_def)
  show ?case
  proof (cases m)
    case 0
    then have "k = 0" using Suc.prems(2) by simp
    then show ?thesis using step 0 Suc.prems(1) by (simp add: take_Suc_conv_app_nth)
  next
    case (Suc m')
    have "s \<lparr> m_iterator := word_of_nat m - 1 \<rparr> = s \<lparr> m_iterator := word_of_nat m' \<rparr>" using Suc by simp
    with step show ?thesis
      using Suc.IH [of m'] Suc.prems \<open>m = Suc m'\<close> by (simp add: take_Suc_conv_app_nth [of "Suc m'"])
  qed
qed simp

text \<open>
  Once the iterator has run down (its wrap below zero counts as that), the next calls list the known
  discovery servers from the newest to the oldest.
\<close>

lemma next_endpoints_newest_first:
  assumes "length (m_foundServer s) \<le> unat (m_iterator s)" "m_notified s" "0 < k" "k \<le> length (m_foundServer s)"
    and "length (m_foundServer s) < 2 ^ 32" "'''' \<notin> set (m_foundServer s)"
  shows "next_endpoints k s = Some (Inr (take k (rev (m_foundServer s))))"
proof -
  obtain m where m: "length (m_foundServer s) = Suc m" using assms(3,4) by (cases "length (m_foundServer s)") auto
  have um: "unat (word_of_nat m :: 32 word) = m"
    using assms(5) m by (simp add: unat_of_nat take_bit_nat_eq_self)
  have "unat (word_of_nat (Suc m) :: 32 word) = Suc m"
    using assms(5) m by (simp only: unat_of_nat) (simp add: take_bit_nat_eq_self)
  then have "0 < (word_of_nat (Suc m) :: 32 word)" by (metis nat.distinct(1) unat_0 word_gt_0)
  moreover have "word_of_nat (Suc m) - 1 = (word_of_nat m :: 32 word)" by simp
  ultimately have "iterator_start s = Some (Inr (word_of_nat m))"
    using assms(1,2) m unfolding iterator_start_def Let_def by simp
  moreover have "iterator_start (s \<lparr> m_iterator := word_of_nat m \<rparr>) = Some (Inr (word_of_nat m))"
    by (simp add: iterator_start_def um m)
  ultimately have "getNextDiscoveryServerEndpoint s = getNextDiscoveryServerEndpoint (s \<lparr> m_iterator := word_of_nat m \<rparr>)"
    by (simp add: getNextDiscoveryServerEndpoint_def Let_def)
  moreover obtain j where "k = Suc j" using assms(3) by (cases k) auto
  ultimately have "next_endpoints k s = next_endpoints k (s \<lparr> m_iterator := word_of_nat m \<rparr>)" by simp
  with next_endpoints_down [of m s k] show ?thesis using assms(3-6) m by simp
qed

subsection \<open>Lookups at the same time\<close>

text \<open>
  The locks of the cache are constructed without the mutex and lock nothing, and the cache is not held
  from the lookup to the insertion: two threads may both miss a name and each make a connection for it.
  The second insertion leaves the cache as it is, so the end of the second connection stops the
  background loop of the first, whose users go on with it, and its own end is undefined.
\<close>

theorem concurrent_lookups_share_name:
  assumes "m_connectionCache n serverName = None"
    and "n2 = new_connection serverName (new_connection serverName n)" "c = length (connections n)"
  shows "\<exists>n3. release_connection (Suc c) n2 = Inr n3 \<and> owners (connections n3 ! c) = 1 \<and>
    \<not> loop_runs (connections n3 ! c) \<and> loop_runs (connections n3 ! Suc c) \<and>
    release_connection c n3 = Inl UndefinedBehaviour"
  using assms
  by (simp add: new_connection_def release_connection_def drop_owner_def clientWithMutexDeletedCallback_def Let_def
      nth_append list_update_append)

theorem concurrent_lookups_share_name_witness:
  "\<exists>n3. release_connection 1 (new_connection ''robot'' (new_connection ''robot'' new_naming)) = Inr n3 \<and>
    owners (connections n3 ! 0) = 1 \<and> \<not> loop_runs (connections n3 ! 0) \<and> release_connection 0 n3 = Inl UndefinedBehaviour"
  using concurrent_lookups_share_name [of new_naming "''robot''" "new_connection ''robot'' (new_connection ''robot'' new_naming)" 0]
  by (auto simp: new_naming_def)

end
