(* ===== verification/Query.thy ===== *)
theory Query
  imports NamingService
begin

section \<open>Queries\<close>

text \<open>
  The query pattern: the method node a \<open>QueryServer\<close> offers and the callback that serves a call
  (\<open>OPCUA/Server/QueryServer.hpp\<close>); and at the client the asynchronous answer, the factory that makes
  the calls and keeps its instances, the queries with their identifiers, and connecting through the
  naming service (\<open>OPCUA/Client/AsyncAnswer.hpp\<close>, \<open>AsyncAnswerMethod.hpp\<close>,
  \<open>AsyncAnswerMethodCommObjectRequest.hpp\<close>, \<open>AsyncAnswerFactory.hpp\<close>, \<open>IBlocking.cpp\<close>,
  \<open>InstanceStorage.hpp\<close>, \<open>QClientOPCUA.hpp\<close>, \<open>QueryClient.hpp\<close>). Communication objects are the described
  objects of \<open>Descriptions\<close>; an object handed to \<open>SelfDescription(&o, "")\<close> has an empty name.
\<close>

subsection \<open>The server\<close>

text \<open>
  A correlation identifier that is a \<open>NumericCorrelationId\<close>, or one that is not (the dynamic cast gives
  a null pointer). The map of the answers that were not picked up yet is the state of the server.
\<close>

datatype query_id = NumericId int | OtherId

type_synonym answers = "int \<Rightarrow> desc option"

fun answer :: "query_id \<Rightarrow> desc \<Rightarrow> answers \<Rightarrow> status \<times> answers" where
  "answer OtherId d m = (SMART_WRONGID, m)"
| "answer (NumericId i) d m = (SMART_OK, case m i of Some _ \<Rightarrow> m | None \<Rightarrow> m(i \<mapsto> d))"

definition answer_all :: "(query_id \<times> desc) list \<Rightarrow> answers \<Rightarrow> answers" where
  "answer_all ds m = fold (\<lambda>(i, d) m. snd (answer i d m)) ds m"

text \<open>
  The spinning of the callback: other threads call \<open>answer\<close> in some order; \<open>None\<close> if none of their
  calls is for this identifier. The answers that were not needed are handed back.
\<close>

fun spin :: "int \<Rightarrow> answers \<Rightarrow> (query_id \<times> desc) list \<Rightarrow> (answers \<times> (query_id \<times> desc) list) option" where
  "spin i m later = (case m i of
     Some _ \<Rightarrow> Some (m, later)
   | None \<Rightarrow> (case later of [] \<Rightarrow> None | (j, d) # later' \<Rightarrow> spin i (snd (answer j d m)) later'))"

declare spin.simps [simp del]

text \<open>Copying the encoded answer into the output array, which the stack allocated.\<close>

fun copy_outputs :: "ua_api \<Rightarrow> variant list \<Rightarrow> nat \<Rightarrow> variant list \<Rightarrow> variant list result" where
  "copy_outputs a [] i outArray = Inr outArray"
| "copy_outputs a (v # vs) i outArray =
    (if i < length outArray then copy_outputs a vs (Suc i) (outArray[i := Variant_copy a v]) else Inl UndefinedBehaviour)"

text \<open>
  \<open>methodCallback\<close>: the handler may answer while it runs, the rest of the answers come from other threads;
  \<open>rnd\<close> is the number drawn for the correlation identifier. The request is decoded into a default
  object of the request's type. Each call of \<open>answer\<close> and each look at \<open>m_answers\<close> is one step here. The
  comment of \<open>answer\<close> promises that it is safe to call from several threads; the code reads, inserts into and
  erases from a \<open>std::map\<close> without a lock, so that what is proved of a call that is answered from another
  thread holds of the code only where these accesses do not overlap. A handler that answers itself is
  not concerned.
\<close>

type_synonym 's query_handler = "query_id \<Rightarrow> desc \<Rightarrow> 's \<Rightarrow> (query_id \<times> desc) list \<times> 's"

definition methodCallback :: "ua_api \<Rightarrow> desc \<Rightarrow> 's query_handler \<Rightarrow> int \<Rightarrow> variant list \<Rightarrow> variant list
    \<Rightarrow> (query_id \<times> desc) list \<Rightarrow> answers \<times> 's \<Rightarrow> ((32 word \<times> variant list) result \<times> answers \<times> 's) option" where
  "methodCallback a request handleQuery rnd input outArray later ms = (case ms of (m, s) \<Rightarrow>
    (case UaVariantArrayToCommObject a input (named '''' request) of
      Inl e \<Rightarrow> Some (Inl e, m, s)
    | Inr req \<Rightarrow>
        (case handleQuery (NumericId rnd) req s of (given, s') \<Rightarrow>
          map_option (\<lambda>(m', _).
            (case rbind (CommObjectToUaVariantArray a (named '''' (the (m' rnd)))) (\<lambda>tmp. copy_outputs a tmp 0 outArray) of
              Inl e \<Rightarrow> (Inl e, m', s')
            | Inr out \<Rightarrow> (Inr (0, out), m'(rnd := None), s')))
            (spin rnd (answer_all given m) later))))"

text \<open>The node of the method: identifier, parent, reference, browse and display name, arguments.\<close>

record method_node =
  mn_id :: node_id
  mn_parent :: node_id
  mn_reference :: node_id
  mn_browse :: "16 word \<times> string"
  mn_display :: string
  mn_inputs :: "ua_argument list"
  mn_outputs :: "ua_argument list"

definition query_method :: "ua_api \<Rightarrow> namespaces \<Rightarrow> string \<Rightarrow> desc \<Rightarrow> desc \<Rightarrow> method_node" where
  "query_method a N service request answer_type =
    \<lparr> mn_id = StrId (ns1 N) (String_of_std a (c_str (''85.'' @ c_str service))),
      mn_parent = NumId 0 85, mn_reference = NumId 0 49,
      mn_browse = (1, String_alloc a (c_str service)), mn_display = String_alloc a (c_str service),
      mn_inputs = to_arguments a (named ''input'' request),
      mn_outputs = to_arguments a (named ''output'' answer_type) \<rparr>"

subsection \<open>Answers at the client\<close>

text \<open>
  An asynchronous answer with the members of its base classes, and the validity that the one query
  identifier made for it keeps.
\<close>

record async_answer =
  m_hasAnswer :: bool
  m_error_msg :: string
  m_answer :: desc
  m_blockingEnabled :: bool
  isValid :: bool

definition setHasAnswer :: "async_answer \<Rightarrow> async_answer" where
  "setHasAnswer x = x \<lparr> m_hasAnswer := True \<rparr>"

definition setError :: "string \<Rightarrow> async_answer \<Rightarrow> async_answer" where
  "setError error_msg x = setHasAnswer (x \<lparr> m_error_msg := error_msg \<rparr>)"

text \<open>
  \<open>waitForAnswer\<close>: what it returns when it looks at the condition in the state given; \<open>None\<close> if the condition
  does not hold then, so that it waits. Whether a thread that waits already looks again is \<open>wait_step\<close> below.
\<close>

definition waitForAnswer :: "async_answer \<Rightarrow> desc result option" where
  "waitForAnswer x =
    (if m_hasAnswer x \<or> \<not> m_blockingEnabled x then
       Some (if \<not> m_hasAnswer x then Inl BlockingDisabled
         else if m_error_msg x \<noteq> '''' then Inl (ResultError (m_error_msg x))
         else Inr (m_answer x))
     else None)"

text \<open>
  The response to a call: the result of the service and, for each method called, its status and its
  output arguments. \<open>name\<close> is \<open>UA_StatusCode_name\<close>.
\<close>

record call_response =
  serviceResult :: "32 word"
  results :: "(32 word \<times> variant list) list"

definition processAnswer :: "ua_api \<Rightarrow> (32 word \<Rightarrow> string) \<Rightarrow> 32 word \<Rightarrow> variant list \<Rightarrow> async_answer \<Rightarrow> async_answer result" where
  "processAnswer a name result_code outputs x =
    (if result_code \<noteq> 0 then Inr (setError (''Receive nongood result: '' @ name result_code) x)
     else rbind (UaVariantArrayToCommObject a outputs (named '''' (m_answer x)))
       (\<lambda>d. Inr (setHasAnswer (x \<lparr> m_answer := d \<rparr>))))"

definition methodCalled_callback :: "ua_api \<Rightarrow> (32 word \<Rightarrow> string) \<Rightarrow> call_response option \<Rightarrow> async_answer \<Rightarrow> async_answer result" where
  "methodCalled_callback a name response x = (case response of
     None \<Rightarrow> Inl AssertFailed
   | Some r \<Rightarrow> (case results r of
       (code, outputs) # _ \<Rightarrow> processAnswer a name code outputs x
     | [] \<Rightarrow> Inr x))"

subsection \<open>The query client\<close>

text \<open>
  The client: its factory (none before \<open>connect\<close>), with the blocking flag for new instances, the node
  of the method and the connection; and all the answers it made, in order. A query identifier is the
  position of its answer.
\<close>

record answer_factory =
  f_blockingEnabled :: bool
  f_methodNodeId :: node_id
  f_connection :: nat

record query_client =
  m_Factory :: "answer_factory option"
  m_instances :: "async_answer list"

definition new_query_client :: query_client where
  "new_query_client = \<lparr> m_Factory = None, m_instances = [] \<rparr>"

text \<open>
  \<open>queryRequest\<close>: the request is encoded and the method called (status code and changed world); a status
  that is not good is raised, from a constructor, so that no instance is left behind. The answer object
  is a default object of the answer's type.
\<close>

type_synonym 'w call_async = "nat \<Rightarrow> node_id \<Rightarrow> variant list \<Rightarrow> 'w \<Rightarrow> 32 word \<times> 'w"

text \<open>
  \<open>InstanceStorage\<close> keeps the instances in the order they were added; \<open>foreach\<close> gives their number.
  Enabling and disabling gives the old value of the flag.
\<close>

definition storage_add :: "'a \<Rightarrow> 'a list \<Rightarrow> nat \<times> 'a list" where
  "storage_add inst xs = (length xs, xs @ [inst])"

definition storage_remove :: "nat \<Rightarrow> 'a list \<Rightarrow> 'a list" where
  "storage_remove it xs = take it xs @ drop (Suc it) xs"

definition storage_foreach :: "('a \<Rightarrow> 'a) \<Rightarrow> 'a list \<Rightarrow> nat \<times> 'a list" where
  "storage_foreach callb xs = (length xs, map callb xs)"

definition enable_instance :: "async_answer \<Rightarrow> bool \<times> async_answer" where
  "enable_instance x = (m_blockingEnabled x, x \<lparr> m_blockingEnabled := True \<rparr>)"

definition disable_instance :: "async_answer \<Rightarrow> bool \<times> async_answer" where
  "disable_instance x = (m_blockingEnabled x, x \<lparr> m_blockingEnabled := False \<rparr>)"

text \<open>
  The constructors of an answer: \<open>IBlocking\<close> enters the instance in the storage, \<open>AsyncAnswerMethod\<close>
  makes the call; if that fails the base class is destroyed again and leaves the storage.
\<close>

definition new_answer :: "desc \<Rightarrow> bool \<Rightarrow> async_answer" where
  "new_answer answer_type blockingEnabled = \<lparr> m_hasAnswer = False, m_error_msg = '''', m_answer = answer_type,
     m_blockingEnabled = blockingEnabled, isValid = True \<rparr>"

definition call_instance :: "'w call_async \<Rightarrow> nat \<Rightarrow> node_id \<Rightarrow> variant list \<Rightarrow> async_answer \<Rightarrow> async_answer list \<times> 'w
    \<Rightarrow> nat result \<times> async_answer list \<times> 'w" where
  "call_instance call_method c methodId inputs x xw = (case xw of (xs, w) \<Rightarrow>
    (case storage_add x xs of (it, xs1) \<Rightarrow>
      (case call_method c methodId inputs w of (retVal, w') \<Rightarrow>
        if retVal \<noteq> 0 then (Inl (OpcUaError retVal), storage_remove it xs1, w') else (Inr it, xs1, w'))))"

definition factory_call :: "ua_api \<Rightarrow> 'w call_async \<Rightarrow> desc \<Rightarrow> answer_factory \<Rightarrow> desc \<Rightarrow> async_answer list \<times> 'w
    \<Rightarrow> nat result \<times> async_answer list \<times> 'w" where
  "factory_call a call_method answer_type f arg xw =
    (case CommObjectToUaVariantArray a (named '''' arg) of
      Inl e \<Rightarrow> (Inl e, xw)
    | Inr inputs \<Rightarrow>
        call_instance call_method (f_connection f) (f_methodNodeId f) inputs (new_answer answer_type (f_blockingEnabled f)) xw)"

definition queryRequest :: "ua_api \<Rightarrow> 'w call_async \<Rightarrow> desc \<Rightarrow> desc \<Rightarrow> query_client \<times> 'w \<Rightarrow> (status \<times> nat) result \<times> query_client \<times> 'w" where
  "queryRequest a call_method answer_type request qw = (case qw of (q, w) \<Rightarrow>
    (case m_Factory q of
      None \<Rightarrow> (Inl UndefinedBehaviour, q, w)
    | Some f \<Rightarrow> (case factory_call a call_method answer_type f request (m_instances q, w) of (r, xs, w') \<Rightarrow>
        (map_sum id (Pair SMART_OK) r, q \<lparr> m_instances := xs \<rparr>, w'))))"

text \<open>The response to a call reaches the answer it was made for.\<close>

definition receive_response :: "ua_api \<Rightarrow> (32 word \<Rightarrow> string) \<Rightarrow> nat \<Rightarrow> call_response option \<Rightarrow> query_client \<Rightarrow> query_client result" where
  "receive_response a name i response q =
    rbind (methodCalled_callback a name response (m_instances q ! i))
      (\<lambda>x. Inr (q \<lparr> m_instances := (m_instances q)[i := x] \<rparr>))"

text \<open>\<open>blocking\<close>: the flag of the factory, then that of each instance in the storage.\<close>

definition enableBlocking :: "answer_factory \<times> async_answer list \<Rightarrow> answer_factory \<times> async_answer list" where
  "enableBlocking fx = (case fx of (f, xs) \<Rightarrow>
     (f \<lparr> f_blockingEnabled := True \<rparr>, snd (storage_foreach (snd \<circ> enable_instance) xs)))"

definition disableBlocking :: "answer_factory \<times> async_answer list \<Rightarrow> answer_factory \<times> async_answer list" where
  "disableBlocking fx = (case fx of (f, xs) \<Rightarrow>
     (f \<lparr> f_blockingEnabled := False \<rparr>, snd (storage_foreach (snd \<circ> disable_instance) xs)))"

definition blocking :: "bool \<Rightarrow> query_client \<Rightarrow> (status \<times> query_client) result" where
  "blocking b q = (case m_Factory q of
     None \<Rightarrow> Inl UndefinedBehaviour
   | Some f \<Rightarrow>
       (case (if b then enableBlocking (f, m_instances q) else disableBlocking (f, m_instances q)) of (f', xs) \<Rightarrow>
         Inr (if f_blockingEnabled f' = b then SMART_OK else SMART_ERROR, q \<lparr> m_Factory := Some f', m_instances := xs \<rparr>)))"

text \<open>Both together: every instance, and every later one, has the flag that was set.\<close>

lemma blocking_sets:
  "m_Factory q = Some f \<Longrightarrow> blocking b q = Inr (SMART_OK,
    q \<lparr> m_Factory := Some (f \<lparr> f_blockingEnabled := b \<rparr>), m_instances := map (\<lambda>x. x \<lparr> m_blockingEnabled := b \<rparr>) (m_instances q) \<rparr>)"
  by (cases b) (simp_all add: blocking_def enableBlocking_def disableBlocking_def storage_foreach_def enable_instance_def
      disable_instance_def)

text \<open>A request makes one call; it leaves one more instance, or none if it could not be encoded or called.\<close>

lemma queryRequest_called:
  assumes "m_Factory q = Some f" "CommObjectToUaVariantArray a (named '''' request) = Inr inputs"
    and "call_method (f_connection f) (f_methodNodeId f) inputs w = (retVal, w')"
  shows "queryRequest a call_method answer_type request (q, w) =
    (if retVal = 0 then (Inr (SMART_OK, length (m_instances q)),
       q \<lparr> m_instances := m_instances q @ [new_answer answer_type (f_blockingEnabled f)] \<rparr>, w')
     else (Inl (OpcUaError retVal), q, w'))"
  using assms by (simp add: queryRequest_def factory_call_def call_instance_def storage_add_def storage_remove_def)

text \<open>An identifier of another kind is \<open>None\<close>; the object to fill in comes back unchanged on an error.\<close>

definition query_valid :: "nat option \<Rightarrow> query_client \<Rightarrow> bool" where
  "query_valid qid q \<longleftrightarrow> (case qid of None \<Rightarrow> False | Some i \<Rightarrow> i < length (m_instances q) \<and> isValid (m_instances q ! i))"

definition queryDiscard :: "nat option \<Rightarrow> query_client \<Rightarrow> status \<times> query_client" where
  "queryDiscard qid q =
    (if \<not> query_valid qid q then (SMART_WRONGID, q)
     else (SMART_OK, q \<lparr> m_instances := (m_instances q)[the qid := (m_instances q ! the qid) \<lparr> isValid := False \<rparr>] \<rparr>))"

definition queryReceive :: "nat option \<Rightarrow> desc \<Rightarrow> query_client \<Rightarrow> ((status \<times> desc) result \<times> query_client) option" where
  "queryReceive qid out q =
    (if \<not> query_valid qid q then Some (Inr (SMART_WRONGID, out), q)
     else if \<not> m_hasAnswer (m_instances q ! the qid) then Some (Inr (SMART_NODATA, out), q)
     else map_option (\<lambda>r. case r of
         Inl e \<Rightarrow> (Inl e, q)
       | Inr d \<Rightarrow> (Inr (SMART_OK, d), snd (queryDiscard qid q))) (waitForAnswer (m_instances q ! the qid)))"

definition queryReceiveWait :: "nat option \<Rightarrow> desc \<Rightarrow> query_client \<Rightarrow> ((status \<times> desc) result \<times> query_client) option" where
  "queryReceiveWait qid out q =
    (if \<not> query_valid qid q then Some (Inr (SMART_WRONGID, out), q)
     else map_option (\<lambda>r. case r of
         Inl BlockingDisabled \<Rightarrow> (Inr (SMART_CANCELLED, out), q)
       | Inl (ResultError msg) \<Rightarrow> (Inr (SMART_ERROR, out), q)
       | Inl e \<Rightarrow> (Inl e, q)
       | Inr d \<Rightarrow> (Inr (SMART_OK, d), snd (queryDiscard qid q))) (waitForAnswer (m_instances q ! the qid)))"

text \<open>\<open>connect\<close>: a new factory on the connection and node the naming service finds; blocking is enabled.\<close>

definition query_connect :: "ua_api \<Rightarrow> 'w naming_api \<Rightarrow> string \<Rightarrow> string \<Rightarrow> query_client \<Rightarrow> naming \<times> 'w
    \<Rightarrow> (status result \<times> query_client \<times> naming \<times> 'w) option" where
  "query_connect a A server service q nw =
    map_option (\<lambda>(r, n', w'). case r of
        Inl e \<Rightarrow> (Inl e, q, n', w')
      | Inr (c, i) \<Rightarrow> (Inr SMART_OK,
          q \<lparr> m_Factory := Some \<lparr> f_blockingEnabled = True, f_methodNodeId = i, f_connection = c \<rparr> \<rparr>, n', w'))
      (getConnectionAndNodeIdByName a A server service nw)"

text \<open>The client keeps its factory and with it the connection.\<close>

definition query_disconnect :: "query_client \<Rightarrow> status \<times> query_client" where
  "query_disconnect q = (SMART_OK, q)"

subsection \<open>Waiting beside other threads\<close>

text \<open>
  The same wait in steps. What other threads do to the answer that is waited for, each followed by a
  notification of the condition variable: the response arrives, with an answer or an error, which happens
  once; blocking is enabled or disabled.
\<close>

inductive answer_changed :: "async_answer \<Rightarrow> async_answer \<Rightarrow> bool" where
  answered: "\<not> m_hasAnswer x \<Longrightarrow> answer_changed x (setHasAnswer (x \<lparr> m_answer := d \<rparr>))"
| failed: "\<not> m_hasAnswer x \<Longrightarrow> answer_changed x (setError msg x)"
| enabled: "answer_changed x (snd (enable_instance x))"
| disabled: "answer_changed x (snd (disable_instance x))"

text \<open>
  \<open>condition_variable::wait\<close> checks the condition, and if it does not hold goes to sleep in a second step. The
  mutex it holds is a local variable of the waiting thread, which the others do not lock, so a change may be
  made, and its notification sent, in between. A notification wakes a thread that sleeps, and only such a
  thread; a thread may also wake without one, and checks the condition again.
\<close>

datatype wait_phase = Checking | Unnotified | Sleeping | Returned

inductive wait_step :: "async_answer \<times> wait_phase \<Rightarrow> async_answer \<times> wait_phase \<Rightarrow> bool" where
  holds: "m_hasAnswer x \<or> \<not> m_blockingEnabled x \<Longrightarrow> wait_step (x, Checking) (x, Returned)"
| fails: "\<not> (m_hasAnswer x \<or> \<not> m_blockingEnabled x) \<Longrightarrow> wait_step (x, Checking) (x, Unnotified)"
| sleeps: "wait_step (x, Unnotified) (x, Sleeping)"
| wakes: "answer_changed x y \<Longrightarrow> wait_step (x, Sleeping) (y, Checking)"
| spurious: "wait_step (x, Sleeping) (x, Checking)"
| missed: "answer_changed x y \<Longrightarrow> p \<noteq> Sleeping \<Longrightarrow> wait_step (x, p) (y, p)"

inductive_cases wait_step_from_sleep: "wait_step (x, Sleeping) y"
inductive_cases answer_changed_from: "answer_changed x y"

text \<open>A sleeping thread goes on when something changes or it wakes by chance; nothing else is possible.\<close>

lemma wait_step_sleeping:
  "wait_step (x, Sleeping) z \<longleftrightarrow> (\<exists>y. z = (y, Checking) \<and> (y = x \<or> answer_changed x y))"
  by (auto intro: wait_step.intros elim: wait_step_from_sleep)

subsection \<open>Query identifiers\<close>

text \<open>
  \<open>OPCUAQueryID\<close> holds the address of its answer, 0 for a default one, and is compared by it. An
  identifier of another class, \<open>None\<close> as an argument, is cast to a null pointer, which is read.
\<close>

datatype opcua_query_id = OPCUAQueryID (pAsyncAnswer: nat)

instantiation opcua_query_id :: linorder
begin

definition less_eq_opcua_query_id :: "opcua_query_id \<Rightarrow> opcua_query_id \<Rightarrow> bool" where
  "less_eq_opcua_query_id x y \<longleftrightarrow> pAsyncAnswer x \<le> pAsyncAnswer y"

definition less_opcua_query_id :: "opcua_query_id \<Rightarrow> opcua_query_id \<Rightarrow> bool" where
  "less_opcua_query_id x y \<longleftrightarrow> pAsyncAnswer x < pAsyncAnswer y"

instance
  by standard (auto simp: less_eq_opcua_query_id_def less_opcua_query_id_def opcua_query_id.expand)

end

definition id_less_than :: "opcua_query_id \<Rightarrow> opcua_query_id option \<Rightarrow> bool result" where
  "id_less_than x other = (case other of None \<Rightarrow> Inl UndefinedBehaviour | Some y \<Rightarrow> Inr (pAsyncAnswer x < pAsyncAnswer y))"

definition id_equals_to :: "opcua_query_id \<Rightarrow> opcua_query_id option \<Rightarrow> bool result" where
  "id_equals_to x other = (case other of None \<Rightarrow> Inl UndefinedBehaviour | Some y \<Rightarrow> Inr (pAsyncAnswer x = pAsyncAnswer y))"

lemma query_ids_ordered:
  "id_less_than x (Some y) = Inr (x < y)" "id_equals_to x (Some y) = Inr (x = y)"
  by (cases x; cases y; simp add: id_less_than_def id_equals_to_def less_opcua_query_id_def)+

end
