(* ===== verification/QueryProperties.thy ===== *)
theory QueryProperties
  imports Query PushProperties NamingProperties
begin

section \<open>Properties of queries\<close>

text \<open>
  A query served: the answer a handler gives for the identifier of a call reaches the client that made
  the call, once, in an output array of the size the method declares; answers for other calls stay
  where they are; waiting is cancelled by disabling blocking and the query can still be received later;
  error results and empty responses.
\<close>

subsection \<open>Answers at the server\<close>

fun first_answer :: "int \<Rightarrow> (query_id \<times> desc) list \<Rightarrow> desc option" where
  "first_answer i [] = None"
| "first_answer i ((j, d) # ds) = (if j = NumericId i then Some d else first_answer i ds)"

lemma answer_at: "snd (answer j d m) i = (case m i of Some x \<Rightarrow> Some x | None \<Rightarrow> first_answer i [(j, d)])"
  by (cases j) (auto split: option.splits)

lemma answer_all_simps [simp]:
  "answer_all [] m = m" "answer_all ((j, d) # ds) m = answer_all ds (snd (answer j d m))"
  by (simp_all add: answer_all_def)

lemma answer_all_append: "answer_all (xs @ ys) m = answer_all ys (answer_all xs m)"
  by (simp add: answer_all_def)

lemma answer_all_at: "answer_all ds m i = (case m i of Some x \<Rightarrow> Some x | None \<Rightarrow> first_answer i ds)"
proof (induction ds arbitrary: m)
  case (Cons x ds)
  obtain j d where "x = (j, d)" by (cases x)
  with Cons show ?case by (auto simp: answer_at split: option.splits)
qed (simp split: option.splits)

lemma first_answer_append:
  "first_answer i (xs @ ys) = (case first_answer i xs of Some d \<Rightarrow> Some d | None \<Rightarrow> first_answer i ys)"
  by (induction xs rule: first_answer.induct) auto

lemma spin_ends:
  "spin i m later = None \<longleftrightarrow> m i = None \<and> first_answer i later = None"
  "spin i m later = Some (m', rest) \<Longrightarrow> \<exists>pre. later = pre @ rest \<and> m' = answer_all pre m \<and>
    m' i = (case m i of Some x \<Rightarrow> Some x | None \<Rightarrow> first_answer i later) \<and> m' i \<noteq> None"
proof (induction later arbitrary: m)
  case Nil
  { case 1 show ?case by (simp add: spin.simps split: option.splits) }
  { case 2 then show ?case by (auto simp: spin.simps split: option.splits) }
next
  case (Cons x later)
  obtain j d where x: "x = (j, d)" by (cases x)
  { case 1
    show ?case using Cons.IH(1) [of "snd (answer j d m)"] x answer_at [of j d m i]
      by (cases "m i") (auto simp: spin.simps [of i m] split: if_splits) }
  { case 2
    show ?case
    proof (cases "m i")
      case None
      then have "spin i (snd (answer j d m)) later = Some (m', rest)" using 2 x by (simp add: spin.simps [of i m])
      from Cons.IH(2) [OF this] obtain pre where "later = pre @ rest" "m' = answer_all pre (snd (answer j d m))"
        "m' i = (case snd (answer j d m) i of Some x \<Rightarrow> Some x | None \<Rightarrow> first_answer i later)" "m' i \<noteq> None" by blast
      then show ?thesis using None x by (intro exI [of _ "x # pre"]) (auto simp: answer_at split: option.splits)
    next
      case (Some y)
      then show ?thesis using 2 by (intro exI [of _ "[]"]) (auto simp: spin.simps [of i m])
    qed }
qed

lemma copy_outputs_all:
  "i + length vs \<le> length out \<Longrightarrow>
    copy_outputs a vs i out = Inr (take i out @ map (Variant_copy a) vs @ drop (i + length vs) out)"
proof (induction vs arbitrary: i out)
  case (Cons v vs)
  then have "copy_outputs a (v # vs) i out = Inr (take (Suc i) (out[i := Variant_copy a v]) @ map (Variant_copy a) vs @
      drop (Suc i + length vs) (out[i := Variant_copy a v]))" by simp
  also have "take (Suc i) (out[i := Variant_copy a v]) = take i out @ [Variant_copy a v]"
    using Cons.prems by (simp add: take_Suc_conv_app_nth)
  finally show ?case by simp
qed simp

text \<open>The declared arguments of a type are as many as the variants of its objects.\<close>

lemma arguments_count:
  "same_type t d \<Longrightarrow> length (to_arguments a t) = length (variants_of d)"
  "same_types ts ds \<Longrightarrow> length (concat (map (to_arguments a) ts)) = length (concat (map variants_of ds))"
  by (induction t d and ts ds rule: same_type_same_types.induct) auto

text \<open>C33: A call of a query's method that returns did so with the encoding of the answer given first for its
  identifier, by the handler or by another thread while the call waited, unless an answer for it was left
  over from before; and what was given for the other identifiers in the meantime is kept for their calls,
  with the first answer kept where several were given. A call whose identifier is never answered does not
  return.\<close>

theorem answers_kept_apart:
  assumes "UaVariantArrayToCommObject a input (named '''' request) = Inr req"
    and "h (NumericId i) req s = (given, s')"
  shows "(methodCallback a request h i input outArray later (m, s) = None \<longleftrightarrow>
      m i = None \<and> first_answer i (given @ later) = None) \<and>
    (\<forall>code out m' s''. methodCallback a request h i input outArray later (m, s) = Some (Inr (code, out), m', s'') \<longrightarrow>
      (\<exists>pre rest vs d. later = pre @ rest \<and> code = 0 \<and> s'' = s' \<and> m' i = None \<and>
        (case m i of Some x \<Rightarrow> Some x | None \<Rightarrow> first_answer i (given @ later)) = Some d \<and>
        CommObjectToUaVariantArray a (named '''' d) = Inr vs \<and> copy_outputs a vs 0 outArray = Inr out \<and>
        (\<forall>j. j \<noteq> i \<longrightarrow> m' j = (case m j of Some x \<Rightarrow> Some x | None \<Rightarrow> first_answer j (given @ pre)))))"
proof -
  have call: "methodCallback a request h i input outArray later (m, s) = map_option (\<lambda>(m', _).
      (case rbind (CommObjectToUaVariantArray a (named '''' (the (m' i)))) (\<lambda>tmp. copy_outputs a tmp 0 outArray) of
        Inl e \<Rightarrow> (Inl e, m', s') | Inr out \<Rightarrow> (Inr (0, out), m'(i := None), s'))) (spin i (answer_all given m) later)"
    using assms by (simp add: methodCallback_def)
  have first: "(case answer_all given m i of Some x \<Rightarrow> Some x | None \<Rightarrow> first_answer i later) =
      (case m i of Some x \<Rightarrow> Some x | None \<Rightarrow> first_answer i (given @ later))"
    by (auto simp: answer_all_at first_answer_append split: option.splits)
  have "\<exists>pre rest vs d. later = pre @ rest \<and> code = 0 \<and> s'' = s' \<and> m' i = None \<and>
        (case m i of Some x \<Rightarrow> Some x | None \<Rightarrow> first_answer i (given @ later)) = Some d \<and>
        CommObjectToUaVariantArray a (named '''' d) = Inr vs \<and> copy_outputs a vs 0 outArray = Inr out \<and>
        (\<forall>j. j \<noteq> i \<longrightarrow> m' j = (case m j of Some x \<Rightarrow> Some x | None \<Rightarrow> first_answer j (given @ pre)))"
    if ret: "methodCallback a request h i input outArray later (m, s) = Some (Inr (code, out), m', s'')" for code out m' s''
  proof -
    obtain m1 rest where spin: "spin i (answer_all given m) later = Some (m1, rest)"
      and res: "(case rbind (CommObjectToUaVariantArray a (named '''' (the (m1 i)))) (\<lambda>tmp. copy_outputs a tmp 0 outArray) of
        Inl e \<Rightarrow> (Inl e, m1, s') | Inr out \<Rightarrow> (Inr (0, out), m1(i := None), s')) = (Inr (code, out), m', s'')"
      using ret unfolding call by auto
    from spin_ends(2) [OF spin, unfolded first] obtain pre where pre: "later = pre @ rest"
      "m1 = answer_all pre (answer_all given m)"
      "m1 i = (case m i of Some x \<Rightarrow> Some x | None \<Rightarrow> first_answer i (given @ later))" "m1 i \<noteq> None" by blast
    from pre(4) obtain d where d: "m1 i = Some d" by blast
    from res d obtain vs where "CommObjectToUaVariantArray a (named '''' d) = Inr vs" "copy_outputs a vs 0 outArray = Inr out"
      "code = 0" "s'' = s'" "m' = m1(i := None)"
      by (auto simp: result_simps split: sum.splits)
    then show ?thesis
      using pre d by (intro exI [of _ pre] exI [of _ rest] exI [of _ vs] exI [of _ d])
        (auto simp: answer_all_append [symmetric] answer_all_at)
  qed
  moreover have "methodCallback a request h i input outArray later (m, s) = None \<longleftrightarrow>
      m i = None \<and> first_answer i (given @ later) = None"
    unfolding call using spin_ends(1) first
    by (auto simp: answer_all_at first_answer_append split: option.splits)
  ultimately show ?thesis by blast
qed

text \<open>A call whose answer is sendable and of the type the method declares.\<close>

lemma call_served:
  assumes "api_ok a" "UaVariantArrayToCommObject a input (named '''' request) = Inr req"
    and "h (NumericId i) req s = (given, s')" "m i = None" "first_answer i (given @ later) = Some r"
    and "same_type u r" "well_typed r" "sendable r" "length outArray = length (to_arguments a u)"
  shows "\<exists>m'. methodCallback a request h i input outArray later (m, s) = Some (Inr (0, variants_of r), m', s') \<and> m' i = None"
proof -
  have "answer_all given m i = None \<or> answer_all given m i = Some r"
    using assms(4,5) by (auto simp: answer_all_at first_answer_append split: option.splits)
  have first: "(case answer_all given m i of Some x \<Rightarrow> Some x | None \<Rightarrow> first_answer i later) = Some r"
    using assms(4,5) by (auto simp: answer_all_at first_answer_append split: option.splits)
  then have "spin i (answer_all given m) later \<noteq> None" using spin_ends(1) by (auto split: option.splits)
  then obtain m1 rest where spin: "spin i (answer_all given m) later = Some (m1, rest)" by auto
  have "m1 i = Some r" using spin_ends(2) [OF spin, unfolded first] by blast
  moreover have "copy_outputs a (variants_of r) 0 outArray = Inr (variants_of r)"
    using copy_outputs_all [of 0 "variants_of r" outArray a] arguments_count(1) [OF assms(6), of a] assms(1,9)
    by (simp add: api_okD map_idI)
  ultimately show ?thesis
    using assms(2,3) spin encode_ok [OF assms(1), of "named '''' r"] assms(7,8) by (simp add: methodCallback_def)
qed

lemma arguments_named: "length (to_arguments a (named n d)) = length (to_arguments a d)"
  by (cases d) simp_all

definition echo_handler :: "unit query_handler" where
  "echo_handler i req s = ([(i, req)], s)"

theorem answers_kept_apart_witness:
  "\<exists>m'. methodCallback std_api (sample_pose 0 '''') echo_handler 7 (variants_of (sample_pose 3 ''a'')) [null_variant, null_variant]
      [] ([8 \<mapsto> sample_pose 1 ''b''], ()) = Some (Inr (0, variants_of (sample_pose 3 ''a'')), m', ()) \<and>
    m' 7 = None \<and> m' 8 = Some (sample_pose 1 ''b'')"
proof -
  let ?d = "named '''' (sample_pose 3 ''a'')"
  have dec: "UaVariantArrayToCommObject std_api (variants_of (sample_pose 3 ''a'')) (named '''' (sample_pose 0 '''')) = Inr ?d"
    using decode_ok [of std_api "named '''' (sample_pose 0 '''')" ?d] by (simp add: sample_pose_def)
  have h: "echo_handler (NumericId 7) ?d () = ([(NumericId 7, ?d)], ())" by (simp add: echo_handler_def)
  have "same_type ?d ?d" "well_typed ?d" "sendable ?d" "length [null_variant, null_variant] = length (to_arguments std_api ?d)"
    by (simp_all add: sample_pose_def)
  from call_served [where m = "[8 \<mapsto> sample_pose 1 ''b'']" and later = "[]" and h = echo_handler and i = 7
      and s = "()" and given = "[(NumericId 7, ?d)]" and r = ?d, OF std_api_ok dec h _ _ this]
  obtain m' where call: "methodCallback std_api (sample_pose 0 '''') echo_handler 7 (variants_of (sample_pose 3 ''a''))
      [null_variant, null_variant] [] ([8 \<mapsto> sample_pose 1 ''b''], ()) = Some (Inr (0, variants_of (sample_pose 3 ''a'')), m', ())"
    by auto
  from answers_kept_apart [where h = echo_handler and i = 7 and s = "()" and outArray = "[null_variant, null_variant]"
      and later = "[]" and m = "[8 \<mapsto> sample_pose 1 ''b'']", OF dec h] call have "m' 7 = None \<and> m' 8 = Some (sample_pose 1 ''b'')" by fastforce
  with call show ?thesis by blast
qed

subsection \<open>Answers at the client\<close>

lemma query_round:
  assumes "api_ok a" "m_Factory q = Some f" "\<And>vs. call_method (f_connection f) (f_methodNodeId f) vs w = (0, w')"
    and "blank t" "same_type t d" "well_typed d" "sendable d" "readable d"
    and "h (NumericId i) (named '''' d) s = (given, s')" "m i = None" "first_answer i (given @ later) = Some r"
    and "blank u" "same_type u r" "well_typed r" "sendable r" "readable r"
    and "length outArray = length (mn_outputs (query_method a N service t u))"
  shows "\<exists>q1 vs out m' q2 q3. queryRequest a call_method u d (q, w) = (Inr (SMART_OK, length (m_instances q)), q1, w') \<and>
    CommObjectToUaVariantArray a (named '''' d) = Inr vs \<and>
    methodCallback a t h i vs outArray later (m, s) = Some (Inr (0, out), m', s') \<and> m' i = None \<and>
    receive_response a name (length (m_instances q)) (Some \<lparr> serviceResult = 0, results = [(0, out)] \<rparr>) q1 = Inr q2 \<and>
    queryReceiveWait (Some (length (m_instances q))) x q2 = Some (Inr (SMART_OK, named '''' r), q3) \<and>
    queryReceiveWait (Some (length (m_instances q))) x q3 = Some (Inr (SMART_WRONGID, x), q3)"
proof -
  let ?k = "length (m_instances q)"
  let ?ans = "\<lparr> m_hasAnswer = False, m_error_msg = '''', m_answer = u, m_blockingEnabled = f_blockingEnabled f, isValid = True \<rparr>"
  let ?q1 = "q \<lparr> m_instances := m_instances q @ [?ans] \<rparr>"
  have enc: "CommObjectToUaVariantArray a (named '''' d) = Inr (variants_of d)"
    using encode_ok [OF assms(1), of "named '''' d"] assms(6,7) by simp
  then have req: "queryRequest a call_method u d (q, w) = (Inr (SMART_OK, ?k), ?q1, w')"
    using queryRequest_called [where q = q and f = f and a = a and request = d and inputs = "variants_of d" and w = w
        and call_method = call_method and retVal = 0 and w' = w' and answer_type = u] assms(2,3) by (simp add: new_answer_def)
  have "UaVariantArrayToCommObject a (variants_of d) (named '''' t) = Inr (named '''' d)"
    using decode_ok [OF assms(1), of "named '''' t" "named '''' d"] assms(4-6,8) by simp
  then obtain m' where call: "methodCallback a t h i (variants_of d) outArray later (m, s) = Some (Inr (0, variants_of r), m', s')"
    "m' i = None"
    using call_served [where h = h and i = i and m = m and later = later and given = given and r = r and s = s and s' = s'
        and req = "named '''' d" and u = u and outArray = outArray, OF assms(1) _ assms(9-11,13-15)] assms(17)
    by (auto simp: query_method_def arguments_named)
  have dec: "UaVariantArrayToCommObject a (variants_of r) (named '''' u) = Inr (named '''' r)"
    using decode_ok [OF assms(1), of "named '''' u" "named '''' r"] assms(12-14,16) by simp
  let ?q2 = "q \<lparr> m_instances := m_instances q @ [?ans \<lparr> m_hasAnswer := True, m_answer := named '''' r \<rparr>] \<rparr>"
  let ?q3 = "q \<lparr> m_instances := m_instances q @ [?ans \<lparr> m_hasAnswer := True, m_answer := named '''' r, isValid := False \<rparr>] \<rparr>"
  have recv: "receive_response a name ?k (Some \<lparr> serviceResult = 0, results = [(0, variants_of r)] \<rparr>) ?q1 = Inr ?q2"
    using dec by (simp add: receive_response_def methodCalled_callback_def processAnswer_def setHasAnswer_def)
  have "queryReceiveWait (Some ?k) x ?q2 = Some (Inr (SMART_OK, named '''' r), ?q3)"
    by (simp add: queryReceiveWait_def query_valid_def waitForAnswer_def queryDiscard_def)
  moreover have "queryReceiveWait (Some ?k) x ?q3 = Some (Inr (SMART_WRONGID, x), ?q3)"
    by (simp add: queryReceiveWait_def query_valid_def)
  ultimately show ?thesis using req enc call recv by blast
qed

text \<open>C5: A query reaches its handler and comes back: the request sent is decoded at the server to the object that
  was sent; if some answer of the method's type is given for the call, the call returns its encoding in the
  output array of the declared size; and when the response reaches the client, waiting for the query
  returns \<open>SMART_OK\<close> with the answer the handler gave, once, and \<open>SMART_WRONGID\<close> after that. Request and answer are
  objects of the declared types that the repository's encoding keeps: no NUL in the strings of an array, no
  unsigned 64-bit value above 32 bits outside an array, no array of signed 64-bit integers; they come without a name.
  The call itself succeeds, the identifier drawn for it has no answer left over from before, and calls of \<open>answer\<close>
  from other threads are taken as atomic.\<close>

theorem query_served:
  assumes "api_ok a" "m_Factory q = Some f" "\<And>vs. call_method (f_connection f) (f_methodNodeId f) vs w = (0, w')"
    and "blank t" "same_type t d" "well_typed d" "sendable d" "readable d"
    and "h (NumericId i) (named '''' d) s = (given, s')" "m i = None" "first_answer i (given @ later) = Some r"
    and "blank u" "same_type u r" "well_typed r" "sendable r" "readable r"
    and "length outArray = length (mn_outputs (query_method a N service t u))"
  shows "\<exists>q1 vs out m' q2 q3. queryRequest a call_method u d (q, w) = (Inr (SMART_OK, length (m_instances q)), q1, w') \<and>
    CommObjectToUaVariantArray a (named '''' d) = Inr vs \<and>
    methodCallback a t h i vs outArray later (m, s) = Some (Inr (0, out), m', s') \<and> m' i = None \<and>
    receive_response a name (length (m_instances q)) (Some \<lparr> serviceResult = 0, results = [(0, out)] \<rparr>) q1 = Inr q2 \<and>
    queryReceiveWait (Some (length (m_instances q))) x q2 = Some (Inr (SMART_OK, named '''' r), q3) \<and>
    queryReceiveWait (Some (length (m_instances q))) x q3 = Some (Inr (SMART_WRONGID, x), q3)"
  using assms by (rule query_round)

definition demo_client :: query_client where
  "demo_client = new_query_client \<lparr> m_Factory := Some \<lparr> f_blockingEnabled = True, f_methodNodeId = StrId 1 ''85.pose'', f_connection = 0 \<rparr> \<rparr>"

theorem query_served_witness:
  "\<exists>q1 vs out m' q2 q3. queryRequest std_api (\<lambda>c i vs w. (0, w)) (named '''' (sample_pose 0 '''')) (sample_pose 3 ''a'') (demo_client, ()) =
      (Inr (SMART_OK, length (m_instances demo_client)), q1, ()) \<and>
    CommObjectToUaVariantArray std_api (named '''' (sample_pose 3 ''a'')) = Inr vs \<and>
    methodCallback std_api (sample_pose 0 '''') echo_handler 7 vs [null_variant, null_variant] [] (Map.empty, ()) = Some (Inr (0, out), m', ()) \<and>
    m' 7 = None \<and>
    receive_response std_api (\<lambda>_. '''') (length (m_instances demo_client)) (Some \<lparr> serviceResult = 0, results = [(0, out)] \<rparr>) q1 = Inr q2 \<and>
    queryReceiveWait (Some (length (m_instances demo_client))) (sample_pose 0 '''') q2 =
      Some (Inr (SMART_OK, named '''' (named '''' (sample_pose 3 ''a''))), q3) \<and>
    queryReceiveWait (Some (length (m_instances demo_client))) (sample_pose 0 '''') q3 = Some (Inr (SMART_WRONGID, sample_pose 0 ''''), q3)"
  by (rule query_served [where t = "sample_pose 0 ''''" and u = "named '''' (sample_pose 0 '''')" and N = sample_ns
        and h = echo_handler and i = 7 and m = Map.empty and given = "[(NumericId 7, named '''' (sample_pose 3 ''a''))]"
        and r = "named '''' (sample_pose 3 ''a'')" and later = "[]" and s = "()" and s' = "()" and q = demo_client
        and a = std_api and call_method = "\<lambda>c i vs w. (0, w)" and w' = "()" and w = "()" and d = "sample_pose 3 ''a''"
        and x = "sample_pose 0 ''''" and name = "\<lambda>_. ''''" and outArray = "[null_variant, null_variant]"
        and service = "''pose''" and f = "\<lparr> f_blockingEnabled = True, f_methodNodeId = StrId 1 ''85.pose'', f_connection = 0 \<rparr>"])
    (simp_all add: demo_client_def echo_handler_def sample_pose_def query_method_def)

text \<open>C35: Disabling blocking cancels a wait for an answer and keeps the query. A waiting call, which waits
  because the answer is not there and blocking is enabled, returns \<open>SMART_CANCELLED\<close> once it looks at the condition
  after the change; a thread that sleeps is woken by the change and does so. The identifier stays valid, and
  when the response arrives later the answer is received, although blocking is still disabled. But a thread
  that has checked the condition and does not sleep yet misses the change: it goes to sleep with blocking disabled,
  and only a later change (the response, another change of the flag) or a wake-up by chance lets it look again.\<close>

theorem cancelled_query_still_received:
  assumes "m_Factory q = Some f" "query_valid (Some i) q" "\<not> m_hasAnswer (m_instances q ! i)"
    and "m_blockingEnabled (m_instances q ! i)" "m_error_msg (m_instances q ! i) = ''''"
    and "UaVariantArrayToCommObject a outs (named '''' (m_answer (m_instances q ! i))) = Inr d"
  shows "queryReceiveWait (Some i) out q = None \<and> (\<exists>q1 q2 q3. blocking False q = Inr (SMART_OK, q1) \<and>
    queryReceiveWait (Some i) out q1 = Some (Inr (SMART_CANCELLED, out), q1) \<and> query_valid (Some i) q1 \<and>
    receive_response a name i (Some \<lparr> serviceResult = c, results = [(0, outs)] \<rparr>) q1 = Inr q2 \<and>
    queryReceiveWait (Some i) out q2 = Some (Inr (SMART_OK, d), q3) \<and> \<not> query_valid (Some i) q3 \<and>
    (\<forall>x x1 x2. x = m_instances q ! i \<and> x1 = m_instances q1 ! i \<and> x2 = m_instances q2 ! i \<longrightarrow>
      wait_step (x, Sleeping) (x1, Checking) \<and> wait_step (x1, Checking) (x1, Returned) \<and> \<not> wait_step (x1, Checking) (x1, Unnotified) \<and>
      wait_step (x, Unnotified) (x1, Unnotified) \<and> wait_step (x1, Unnotified) (x1, Sleeping) \<and>
      (\<forall>z. wait_step (x1, Sleeping) z \<longrightarrow> (\<exists>y. z = (y, Checking) \<and> (y = x1 \<or> answer_changed x1 y))) \<and>
      wait_step (x1, Sleeping) (x2, Checking) \<and> wait_step (x2, Checking) (x2, Returned)))"
proof -
  let ?x = "m_instances q ! i"
  let ?x1 = "?x \<lparr> m_blockingEnabled := False \<rparr>"
  let ?x2 = "setHasAnswer (?x1 \<lparr> m_answer := d \<rparr>)"
  let ?q1 = "q \<lparr> m_Factory := Some (f \<lparr> f_blockingEnabled := False \<rparr>),
      m_instances := map (\<lambda>x. x \<lparr> m_blockingEnabled := False \<rparr>) (m_instances q) \<rparr>"
  let ?q2 = "?q1 \<lparr> m_instances := (m_instances ?q1)[i := ?x2] \<rparr>"
  have i: "i < length (m_instances q)" "isValid ?x" using assms(2) by (simp_all add: query_valid_def)
  have b: "blocking False q = Inr (SMART_OK, ?q1)" using blocking_sets [OF assms(1)] by simp
  have at: "m_instances ?q1 ! i = ?x1" "m_instances ?q2 ! i = ?x2" using i by simp_all
  have r: "receive_response a name i (Some \<lparr> serviceResult = c, results = [(0, outs)] \<rparr>) ?q1 = Inr ?q2"
    using assms(6) i by (simp add: receive_response_def methodCalled_callback_def processAnswer_def)
  have d: "answer_changed ?x ?x1" using disabled [of ?x] by (simp add: disable_instance_def)
  have e: "answer_changed ?x1 ?x2" using answered [of ?x1 d] assms(3) by simp
  have steps: "wait_step (?x, Sleeping) (?x1, Checking)" "wait_step (?x, Unnotified) (?x1, Unnotified)"
    "wait_step (?x1, Sleeping) (?x2, Checking)" "wait_step (?x1, Unnotified) (?x1, Sleeping)"
    "wait_step (?x1, Checking) (?x1, Returned)" "wait_step (?x2, Checking) (?x2, Returned)"
    using d e by (auto intro: wait_step.intros simp: setHasAnswer_def)
  have stays: "\<not> wait_step (?x1, Checking) (?x1, Unnotified)" by (auto elim: wait_step.cases)
  have sleeping: "\<forall>z. wait_step (?x1, Sleeping) z \<longrightarrow> (\<exists>y. z = (y, Checking) \<and> (y = ?x1 \<or> answer_changed ?x1 y))"
    by (simp add: wait_step_sleeping)
  have w: "queryReceiveWait (Some i) out q = None" "queryReceiveWait (Some i) out ?q1 = Some (Inr (SMART_CANCELLED, out), ?q1)"
    "query_valid (Some i) ?q1"
    using assms(2-4) by (simp_all add: queryReceiveWait_def query_valid_def waitForAnswer_def)
  obtain q3 where q3: "queryReceiveWait (Some i) out ?q2 = Some (Inr (SMART_OK, d), q3)" "\<not> query_valid (Some i) q3"
    using i assms(5) by (auto simp: queryReceiveWait_def query_valid_def waitForAnswer_def setHasAnswer_def queryDiscard_def)
  have all: "\<forall>x x1 x2. x = ?x \<and> x1 = m_instances ?q1 ! i \<and> x2 = m_instances ?q2 ! i \<longrightarrow>
      wait_step (x, Sleeping) (x1, Checking) \<and> wait_step (x1, Checking) (x1, Returned) \<and> \<not> wait_step (x1, Checking) (x1, Unnotified) \<and>
      wait_step (x, Unnotified) (x1, Unnotified) \<and> wait_step (x1, Unnotified) (x1, Sleeping) \<and>
      (\<forall>z. wait_step (x1, Sleeping) z \<longrightarrow> (\<exists>y. z = (y, Checking) \<and> (y = x1 \<or> answer_changed x1 y))) \<and>
      wait_step (x1, Sleeping) (x2, Checking) \<and> wait_step (x2, Checking) (x2, Returned)"
    unfolding at using steps stays sleeping by (intro allI impI, elim conjE, hypsubst) (intro conjI)
  show ?thesis using w(1) b w(2,3) r q3 all by blast
qed

definition waiting_client :: query_client where
  "waiting_client = demo_client \<lparr> m_instances := [\<lparr> m_hasAnswer = False, m_error_msg = '''',
     m_answer = named '''' (sample_pose 0 ''''), m_blockingEnabled = True, isValid = True \<rparr>] \<rparr>"

theorem cancelled_query_still_received_witness:
  "queryReceiveWait (Some 0) (sample_pose 0 '''') waiting_client = None \<and> (\<exists>q1. blocking False waiting_client = Inr (SMART_OK, q1) \<and>
    queryReceiveWait (Some 0) (sample_pose 0 '''') q1 = Some (Inr (SMART_CANCELLED, sample_pose 0 ''''), q1) \<and> query_valid (Some 0) q1 \<and>
    wait_step (m_instances waiting_client ! 0, Sleeping) (m_instances q1 ! 0, Checking))"
proof -
  have dec: "UaVariantArrayToCommObject std_api (variants_of (sample_pose 3 ''a'')) (named '''' (m_answer (m_instances waiting_client ! 0))) =
      Inr (named '''' (sample_pose 3 ''a''))"
    using decode_ok [of std_api "named '''' (sample_pose 0 '''')" "named '''' (sample_pose 3 ''a'')"]
    by (simp add: waiting_client_def sample_pose_def)
  have "m_Factory waiting_client = Some \<lparr> f_blockingEnabled = True, f_methodNodeId = StrId 1 ''85.pose'', f_connection = 0 \<rparr>"
    "query_valid (Some 0) waiting_client" "\<not> m_hasAnswer (m_instances waiting_client ! 0)"
    "m_blockingEnabled (m_instances waiting_client ! 0)" "m_error_msg (m_instances waiting_client ! 0) = ''''"
    by (simp_all add: waiting_client_def demo_client_def query_valid_def)
  from cancelled_query_still_received [OF this dec, of "sample_pose 0 ''''" "\<lambda>_. ''''" 0]
  show ?thesis by blast
qed

text \<open>A response without results, which is how a call that failed as a whole comes back, leaves its answer
  open whatever its service result says: a client that waits for the query keeps waiting, and one that
  polls is told \<open>SMART_NODATA\<close> each time.\<close>

theorem failed_call_never_answers:
  assumes "query_valid (Some i) q" "\<not> m_hasAnswer (m_instances q ! i)" "m_blockingEnabled (m_instances q ! i)"
    and "list_all (\<lambda>r. results r = []) rs"
  shows "foldM (\<lambda>q r. receive_response a name i (Some r) q) q rs = Inr q \<and>
    queryReceiveWait (Some i) x q = None \<and> queryReceive (Some i) x q = Some (Inr (SMART_NODATA, x), q)"
proof -
  have "receive_response a name i (Some r) q = Inr q" if "results r = []" for r
    using that by (simp add: receive_response_def methodCalled_callback_def)
  then have "foldM (\<lambda>q r. receive_response a name i (Some r) q) q rs = Inr q"
    using assms(4) by (induction rs) auto
  then show ?thesis using assms(1-3) by (simp add: queryReceiveWait_def queryReceive_def waitForAnswer_def)
qed

theorem failed_call_never_answers_witness:
  "foldM (\<lambda>q r. receive_response std_api (\<lambda>_. '''') 0 (Some r) q) waiting_client [\<lparr> serviceResult = 0x80AE0000, results = [] \<rparr>] =
      Inr waiting_client \<and>
    queryReceiveWait (Some 0) (sample_pose 0 '''') waiting_client = None \<and>
    queryReceive (Some 0) (sample_pose 0 '''') waiting_client = Some (Inr (SMART_NODATA, sample_pose 0 ''''), waiting_client)"
  by (rule failed_call_never_answers) (simp_all add: waiting_client_def demo_client_def query_valid_def)

text \<open>
  A status that is not good ends the wait with \<open>SMART_ERROR\<close> and leaves the identifier valid, while the
  call that does not wait lets the exception through.
\<close>

lemma error_result:
  assumes "query_valid (Some i) q" "c \<noteq> 0"
  shows "\<exists>q'. receive_response a name i (Some \<lparr> serviceResult = 0, results = [(c, outs)] \<rparr>) q = Inr q' \<and>
    queryReceiveWait (Some i) x q' = Some (Inr (SMART_ERROR, x), q') \<and> query_valid (Some i) q' \<and>
    queryReceive (Some i) x q' = Some (Inl (ResultError (''Receive nongood result: '' @ name c)), q')"
  using assms by (auto simp: receive_response_def methodCalled_callback_def processAnswer_def setError_def setHasAnswer_def
      query_valid_def queryReceiveWait_def queryReceive_def waitForAnswer_def)

text \<open>The wait for an answer can miss its notification: an answer set after the condition was checked and
  before the thread sleeps leaves the thread asleep with the answer there. It looks again only when the
  blocking flag is set once more or when it wakes by chance.\<close>

theorem notification_missed:
  assumes "\<not> m_hasAnswer x" "m_blockingEnabled x"
  shows "\<exists>y. wait_step\<^sup>*\<^sup>* (x, Checking) (y, Sleeping) \<and> y = setHasAnswer (x \<lparr> m_answer := d \<rparr>) \<and>
    (\<forall>z. wait_step (y, Sleeping) z \<longrightarrow> z \<in> {(y, Checking), (snd (enable_instance y), Checking), (snd (disable_instance y), Checking)})"
proof (intro exI conjI)
  let ?y = "setHasAnswer (x \<lparr> m_answer := d \<rparr>)"
  have "wait_step (x, Checking) (x, Unnotified)" by (rule fails) (use assms in simp)
  moreover have "wait_step (x, Unnotified) (?y, Unnotified)" by (rule missed [OF answered]) (use assms in simp_all)
  moreover have "wait_step (?y, Unnotified) (?y, Sleeping)" by (rule sleeps)
  ultimately show "wait_step\<^sup>*\<^sup>* (x, Checking) (?y, Sleeping)"
    by (meson converse_rtranclp_into_rtranclp rtranclp.rtrancl_refl)
  show "\<forall>z. wait_step (?y, Sleeping) z \<longrightarrow> z \<in> {(?y, Checking), (snd (enable_instance ?y), Checking), (snd (disable_instance ?y), Checking)}"
    by (auto simp: wait_step_sleeping setHasAnswer_def elim!: answer_changed_from)
qed simp

theorem notification_missed_witness:
  "\<exists>y. wait_step\<^sup>*\<^sup>* (m_instances waiting_client ! 0, Checking) (y, Sleeping) \<and> m_hasAnswer y"
  using notification_missed [of "m_instances waiting_client ! 0" "sample_pose 0 ''''"]
  by (auto simp: waiting_client_def demo_client_def setHasAnswer_def)

end
