(* ===== verification/Remote.thy ===== *)
theory Remote
  imports QueryProperties
begin

section \<open>Objects and queries over the network\<close>

text \<open>
  What a communication object with a self-description offers to those who send it, stated once as a
  locale, and a query from the client's object to the server's handler and back. The components whose
  objects travel by query interpret the locales on their own descriptions.
\<close>

text \<open>
  The operations of a query client that its users call: \<open>connect\<close>, \<open>query\<close>, \<open>disconnect\<close> and
  \<open>blocking\<close>. They change the world; \<open>query\<close> gives a status and the answer.
\<close>

record ('q, 'r, 'w) query_api =
  q_connect :: "string \<Rightarrow> string \<Rightarrow> 'w \<Rightarrow> status \<times> 'w"
  q_query :: "'q \<Rightarrow> 'r \<Rightarrow> 'w \<Rightarrow> (status \<times> 'r) \<times> 'w"
  q_disconnect :: "'w \<Rightarrow> 'w"
  q_blocking :: "bool \<Rightarrow> 'w \<Rightarrow> (status \<times> 'w) result"

text \<open>
  A query to a handler over the network, from the encoding of the request to the decoding of the answer
  into a new object: the client's side and the transport around \<open>methodCallback\<close>. While the callback waits
  for an answer the other threads of the server go on: \<open>others\<close> is what they do to the state the handler
  left, with the answers they give. Without an answer the real call does not return, which a total function
  cannot say; it is used for queries that are answered.
\<close>

definition meanwhile :: "ua_api \<Rightarrow> desc \<Rightarrow> 's query_handler \<Rightarrow> ('s \<Rightarrow> (query_id \<times> desc) list \<times> 's) \<Rightarrow> int
    \<Rightarrow> variant list \<Rightarrow> 's \<Rightarrow> (query_id \<times> desc) list" where
  "meanwhile a request h others i vs s =
    (case UaVariantArrayToCommObject a vs (named '''' request) of
      Inl e \<Rightarrow> []
    | Inr req \<Rightarrow> fst (others (snd (h (NumericId i) req s))))"

definition remote_query :: "ua_api \<Rightarrow> ('q \<Rightarrow> desc) \<Rightarrow> 'q \<Rightarrow> ('r \<Rightarrow> desc) \<Rightarrow> (desc \<Rightarrow> 'r) \<Rightarrow> 'r \<Rightarrow> 's query_handler
    \<Rightarrow> ('s \<Rightarrow> (query_id \<times> desc) list \<times> 's) \<Rightarrow> int \<Rightarrow> 'q \<Rightarrow> 'r \<Rightarrow> 's \<Rightarrow> (status \<times> 'r) \<times> 's" where
  "remote_query a dq fq dr rr fr h others i x resp s =
    (case CommObjectToUaVariantArray a (dq x) of
      Inl e \<Rightarrow> ((SMART_ERROR, resp), s)
    | Inr vs \<Rightarrow>
        (case methodCallback a (dq fq) h i vs (replicate (length (to_arguments a (dr fr))) null_variant)
            (meanwhile a (dq fq) h others i vs s) (Map.empty, s) of
          Some (Inr (_, out), m, s') \<Rightarrow>
            (case UaVariantArrayToCommObject a out (dr fr) of
              Inl e \<Rightarrow> ((SMART_ERROR, resp), snd (others s'))
            | Inr d \<Rightarrow> ((SMART_OK, rr d), snd (others s')))
        | _ \<Rightarrow> ((SMART_ERROR, resp), s)))"

text \<open>Nothing else happens while the callback waits.\<close>

definition undisturbed :: "'s \<Rightarrow> (query_id \<times> desc) list \<times> 's" where
  "undisturbed s = ([], s)"

definition remote_connection :: "ua_api \<Rightarrow> ('q \<Rightarrow> desc) \<Rightarrow> 'q \<Rightarrow> ('r \<Rightarrow> desc) \<Rightarrow> (desc \<Rightarrow> 'r) \<Rightarrow> 'r \<Rightarrow> 's query_handler
    \<Rightarrow> ('s \<Rightarrow> (query_id \<times> desc) list \<times> 's) \<Rightarrow> int \<Rightarrow> ('q, 'r, 's) query_api" where
  "remote_connection a dq fq dr rr fr h others i = \<lparr> q_connect = (\<lambda>server service s. (SMART_OK, s)),
     q_query = remote_query a dq fq dr rr fr h others i, q_disconnect = (\<lambda>s. s), q_blocking = (\<lambda>b s. Inr (SMART_OK, s)) \<rparr>"

subsection \<open>Handlers with a thread of their own\<close>

text \<open>
  \<open>ThreadQueueQueryHandler\<close> (\<open>Utils/HsUlm/smartProcessingPattern.hpp\<close>), which the wiring and the parameter slave
  put around their handlers: it queues a request and returns, and its single thread handles the requests one after
  another. The queue is that of its base class in the SmartSoft library; what its documentation promises is the law
  below: a request enters at the end of the queue, and the thread, when it has worked off what was pending, has
  emptied it.
\<close>

record 'b active_queue =
  aq_enqueue :: "query_id \<Rightarrow> desc \<Rightarrow> 'b \<Rightarrow> 'b"
  aq_pending :: "'b \<Rightarrow> (query_id \<times> desc) list"
  aq_emptied :: "'b \<Rightarrow> 'b"

definition active_queue_ok :: "'b active_queue \<Rightarrow> bool" where
  "active_queue_ok Q \<longleftrightarrow> (\<forall>i d b. aq_pending Q (aq_enqueue Q i d b) = aq_pending Q b @ [(i, d)]) \<and>
     (\<forall>b. aq_pending Q (aq_emptied Q b) = [])"

definition deferred :: "'b active_queue \<Rightarrow> ('b \<times> 's) query_handler" where
  "deferred Q i req bs = ([], (aq_enqueue Q i req (fst bs), snd bs))"

fun work_off :: "'s query_handler \<Rightarrow> (query_id \<times> desc) list \<Rightarrow> 's \<Rightarrow> (query_id \<times> desc) list \<times> 's" where
  "work_off h [] s = ([], s)"
| "work_off h ((i, d) # rs) s = (case h i d s of (given, s1) \<Rightarrow>
     (case work_off h rs s1 of (later, s2) \<Rightarrow> (given @ later, s2)))"

definition handler_thread :: "'b active_queue \<Rightarrow> 's query_handler \<Rightarrow> 'b \<times> 's \<Rightarrow> (query_id \<times> desc) list \<times> 'b \<times> 's" where
  "handler_thread Q h bs = (case work_off h (aq_pending Q (fst bs)) (snd bs) of (given, s) \<Rightarrow> (given, (aq_emptied Q (fst bs), s)))"

lemma work_off_append:
  "work_off h (rs @ rs') s = (case work_off h rs s of (given, s1) \<Rightarrow> (case work_off h rs' s1 of (later, s2) \<Rightarrow> (given @ later, s2)))"
proof (induction rs arbitrary: s)
  case (Cons r rs)
  obtain i d where "r = (i, d)" by (cases r)
  with Cons show ?case by (simp split: prod.splits)
qed simp

text \<open>The simplest such queue, for evaluating the model.\<close>

definition list_queue :: "(query_id \<times> desc) list active_queue" where
  "list_queue = \<lparr> aq_enqueue = (\<lambda>i d rs. rs @ [(i, d)]), aq_pending = (\<lambda>rs. rs), aq_emptied = (\<lambda>rs. []) \<rparr>"

lemma list_queue_ok [simp]: "active_queue_ok list_queue"
  by (simp add: active_queue_ok_def list_queue_def)

subsection \<open>Described objects\<close>

text \<open>The parts of a description, from which the object it was read into is read off.\<close>

fun members :: "desc \<Rightarrow> desc list" where
  "members (Complex _ ds) = ds"
| "members _ = []"

fun str_value :: "desc \<Rightarrow> string" where
  "str_value (ElemPrim _ (PString s)) = s"
| "str_value _ = ''''"

fun int32_value :: "desc \<Rightarrow> 32 word" where
  "int32_value (ElemPrim _ (PInt32 w)) = w"
| "int32_value _ = 0"

fun elements :: "desc \<Rightarrow> desc list" where
  "elements (ElemArray _ _ es) = es"
| "elements _ = []"

locale described =
  fixes describe :: "'o \<Rightarrow> desc"
    and read_back :: "desc \<Rightarrow> 'o"
    and fresh :: 'o
    and fits :: "'o \<Rightarrow> bool"
  assumes fresh_blank: "blank (describe fresh)"
    and one_type: "same_type (describe x) (describe y)"
    and typed: "well_typed (describe x)"
    and sends: "fits x \<Longrightarrow> sendable (describe x)"
    and reads: "fits x \<Longrightarrow> readable (describe x)"
    and read_describe: "read_back (describe x) = x"
    and unnamed: "named '''' (describe x) = describe x"
begin

lemma encodes: "api_ok a \<Longrightarrow> fits x \<Longrightarrow> CommObjectToUaVariantArray a (describe x) = Inr (variants_of (describe x))"
  using encode_ok [of a "describe x"] typed sends by simp

lemma decodes:
  "api_ok a \<Longrightarrow> fits x \<Longrightarrow> UaVariantArrayToCommObject a (variants_of (describe x)) (describe fresh) = Inr (describe x)"
  using decode_ok [of a "describe fresh" "describe x"] fresh_blank one_type typed reads by simp

lemma describe_inj: "describe x = describe y \<longleftrightarrow> x = y"
  by (metis read_describe)

end

subsection \<open>Queries\<close>

locale remote =
  request: described describe_q read_q fresh_q fits_q +
  response: described describe_r read_r fresh_r fits_r
  for describe_q :: "'q \<Rightarrow> desc" and read_q fresh_q fits_q
    and describe_r :: "'r \<Rightarrow> desc" and read_r fresh_r fits_r
begin

abbreviation ask where
  "ask a h others i \<equiv> remote_query a describe_q fresh_q describe_r read_r fresh_r h others i"

lemma answered_meanwhile:
  assumes "api_ok a" "fits_q x" "fits_r y" "h (NumericId i) (describe_q x) s = (given, s1)" "others s1 = (later, s2)"
    and "first_answer i (given @ later) = Some (describe_r y)"
  shows "ask a h others i x resp s = ((SMART_OK, y), s2)"
proof -
  let ?out = "replicate (length (to_arguments a (describe_r fresh_r))) null_variant"
  have dec: "UaVariantArrayToCommObject a (variants_of (describe_q x)) (named '''' (describe_q fresh_q)) = Inr (describe_q x)"
    using request.decodes [OF assms(1,2)] by (simp add: request.unnamed)
  then have during: "meanwhile a (describe_q fresh_q) h others i (variants_of (describe_q x)) s = later"
    using assms(4,5) by (simp add: meanwhile_def)
  obtain m' where call: "methodCallback a (describe_q fresh_q) h i (variants_of (describe_q x)) ?out later (Map.empty, s) =
      Some (Inr (0, variants_of (describe_r y)), m', s1)"
    using call_served [where h = h and i = i and m = Map.empty and later = later and s = s and s' = s1 and r = "describe_r y"
        and u = "describe_r fresh_r" and outArray = ?out, OF assms(1) dec assms(4) _ assms(6)]
      response.one_type response.typed response.sends [OF assms(3)] by auto
  show ?thesis
    using request.encodes [OF assms(1,2)] during call response.decodes [OF assms(1,3)] assms(5)
    by (simp add: remote_query_def response.read_describe)
qed

lemma answered:
  assumes "api_ok a" "fits_q x" "fits_r y" "h (NumericId i) (describe_q x) s = ((NumericId i, describe_r y) # ans, s')"
  shows "ask a h undisturbed i x resp s = ((SMART_OK, y), s')"
  by (rule answered_meanwhile [where h = h and others = undisturbed and later = "[]", OF assms]) (simp_all add: undisturbed_def)

text \<open>A handler with a thread of its own: what was queued before is handled first.\<close>

lemma answered_deferred:
  assumes "api_ok a" "fits_q x" "fits_r y" "active_queue_ok Q" "work_off h (aq_pending Q b) s = (before, s1)" "first_answer i before = None"
    and "h (NumericId i) (describe_q x) s1 = ((NumericId i, describe_r y) # ans, s2)"
  shows "ask a (deferred Q) (handler_thread Q h) i x resp (b, s) =
    ((SMART_OK, y), (aq_emptied Q (aq_enqueue Q (NumericId i) (describe_q x) b), s2))"
proof (rule answered_meanwhile [OF assms(1-3)])
  show "deferred Q (NumericId i) (describe_q x) (b, s) = ([], (aq_enqueue Q (NumericId i) (describe_q x) b, s))"
    by (simp add: deferred_def)
  show "handler_thread Q h (aq_enqueue Q (NumericId i) (describe_q x) b, s) =
      (before @ (NumericId i, describe_r y) # ans, (aq_emptied Q (aq_enqueue Q (NumericId i) (describe_q x) b), s2))"
    using assms(4,5,7) by (simp add: handler_thread_def active_queue_ok_def work_off_append)
  show "first_answer i ([] @ before @ (NumericId i, describe_r y) # ans) = Some (describe_r y)"
    using assms(6) by (simp add: first_answer_append)
qed

lemma unanswered:
  assumes "api_ok a" "fits_q x" "h (NumericId i) (describe_q x) s = ([], s')" "m i = None" "first_answer i later = None"
  shows "methodCallback a (describe_q fresh_q) h i (variants_of (describe_q x)) outArray later (m, s) = None"
  using request.decodes [OF assms(1,2)] assms(3-5) spin_ends(1)
  by (simp add: methodCallback_def request.unnamed)

end

end
