(* ===== verification/Wiring.thy ===== *)
theory Wiring
  imports Remote
begin

section \<open>Wiring\<close>

text \<open>
  The wiring pattern: the object a wiring request and its answer travel in
  (\<open>DefaultCommObjects/WiringCommObject.hpp\<close> and its description), the slave, which keeps the ports of a
  component and connects or disconnects them on request (\<open>OPCUA/Server/WiringSlave.cpp\<close>), and the
  handler with which a client enters and leaves the ports (\<open>OPCUA/Client/WiringHandler.hpp\<close>).
\<close>

subsection \<open>The communication object\<close>

record wiring_object =
  commandType :: string
  slaveport :: string
  servercomponent :: string
  serverservice :: string
  wo_status :: "32 word"

definition new_wiring_object :: wiring_object where
  "new_wiring_object = \<lparr> commandType = '''', slaveport = '''', servercomponent = '''', serverservice = '''', wo_status = 0 \<rparr>"

definition setCommand :: "string \<Rightarrow> string \<Rightarrow> string \<Rightarrow> string \<Rightarrow> wiring_object \<Rightarrow> wiring_object" where
  "setCommand c p s v w = w \<lparr> commandType := c, slaveport := p, servercomponent := s, serverservice := v \<rparr>"

text \<open>The self-description, and the object a description was read into.\<close>

definition describe_wiring :: "string \<Rightarrow> wiring_object \<Rightarrow> desc" where
  "describe_wiring name w = Complex name
    [ElemPrim ''command'' (PString (commandType w)), ElemPrim ''slaveport'' (PString (slaveport w)),
     ElemPrim ''servercomponent'' (PString (servercomponent w)), ElemPrim ''serverservice'' (PString (serverservice w)),
     ElemPrim ''status'' (PInt32 (wo_status w))]"

definition wiring_of :: "desc \<Rightarrow> wiring_object" where
  "wiring_of d = (let m = members d in
    \<lparr> commandType = str_value (m ! 0), slaveport = str_value (m ! 1), servercomponent = str_value (m ! 2),
      serverservice = str_value (m ! 3), wo_status = int32_value (m ! 4) \<rparr>)"

subsection \<open>The slave\<close>

text \<open>
  A port: its name and the functions of the client, which change the world. \<open>code\<close> is the number of a
  status code, which the library defines.
\<close>

record 'w port_element =
  pe_portName :: string
  connectFunction :: "string \<Rightarrow> string \<Rightarrow> 'w \<Rightarrow> status \<times> 'w"
  disconnectFunction :: "'w \<Rightarrow> status \<times> 'w"

type_synonym 'w ports = "string \<Rightarrow> 'w port_element option"

definition handleWiring :: "(status \<Rightarrow> 32 word) \<Rightarrow> 'w ports \<Rightarrow> wiring_object \<Rightarrow> 'w \<Rightarrow> wiring_object \<times> 'w" where
  "handleWiring code ports request w =
    (if commandType request = ''connect'' then
       (case ports (slaveport request) of
         Some p \<Rightarrow> (case connectFunction p (servercomponent request) (serverservice request) w of (st, w') \<Rightarrow>
           (new_wiring_object \<lparr> wo_status := code st \<rparr>, w'))
       | None \<Rightarrow> (new_wiring_object \<lparr> wo_status := code SMART_UNKNOWNPORT \<rparr>, w))
     else if commandType request = ''disconnect'' then
       (case ports (slaveport request) of
         Some p \<Rightarrow> (case disconnectFunction p w of (st, w') \<Rightarrow> (new_wiring_object \<lparr> wo_status := code st \<rparr>, w'))
       | None \<Rightarrow> (new_wiring_object \<lparr> wo_status := code SMART_UNKNOWNPORT \<rparr>, w))
     else (new_wiring_object \<lparr> wo_status := code SMART_ERROR \<rparr>, w))"

text \<open>
  \<open>WiringQueryHandler::handleQuery\<close>, which answers while it runs. The slave puts a handler with a thread of its own
  around it, so that the callback of the query server finds the answer later: \<open>wiring_deferred\<close>.
\<close>

definition handle_wiring_query :: "(status \<Rightarrow> 32 word) \<Rightarrow> 'w ports \<Rightarrow> 'w query_handler" where
  "handle_wiring_query code ports i request w =
    (case handleWiring code ports (wiring_of request) w of (ans, w') \<Rightarrow> ([(i, describe_wiring '''' ans)], w'))"

text \<open>Entering and leaving the set of ports; the names are those of the slave's \<open>add\<close> and \<open>remove\<close>.\<close>

definition add_port :: "string \<Rightarrow> (string \<Rightarrow> string \<Rightarrow> 'w \<Rightarrow> status \<times> 'w) \<Rightarrow> ('w \<Rightarrow> status \<times> 'w) \<Rightarrow> 'w ports \<Rightarrow> status \<times> 'w ports" where
  "add_port portName cf df ports =
    (case ports portName of
      None \<Rightarrow> (SMART_OK, ports(portName \<mapsto> \<lparr> pe_portName = portName, connectFunction = cf, disconnectFunction = df \<rparr>))
    | Some _ \<Rightarrow> (SMART_PORTALREADYUSED, ports))"

definition remove_port :: "string \<Rightarrow> 'w ports \<Rightarrow> status \<times> 'w ports" where
  "remove_port portName ports =
    (case ports portName of Some _ \<Rightarrow> (SMART_OK, ports(portName := None)) | None \<Rightarrow> (SMART_PORTALREADYUSED, ports))"

text \<open>
  The constructor: the name of the query service the slave opens; none if the component has no naming
  service and no address was given.
\<close>

definition wiring_service :: "string \<Rightarrow> string \<Rightarrow> string option" where
  "wiring_service component slaveaddress =
    (if component = ''NoNamingService'' then (if slaveaddress = '''' then None else Some slaveaddress)
     else Some ''wiring'')"

subsection \<open>The handler of a client\<close>

record wiring_handler =
  m_portName :: string
  m_portIsManged :: bool

definition new_wiring_handler :: wiring_handler where
  "new_wiring_handler = \<lparr> m_portName = '''', m_portIsManged = False \<rparr>"

definition wh_remove :: "wiring_handler \<times> 'w ports \<Rightarrow> status \<times> wiring_handler \<times> 'w ports" where
  "wh_remove hp = (case hp of (h, ports) \<Rightarrow>
    if m_portIsManged h then
      (case remove_port (m_portName h) ports of (st, ports') \<Rightarrow>
        if st = SMART_OK then (st, h \<lparr> m_portName := '''', m_portIsManged := False \<rparr>, ports')
        else (st, h, ports'))
    else (SMART_OK, h, ports))"

definition wh_add :: "string \<Rightarrow> (string \<Rightarrow> string \<Rightarrow> 'w \<Rightarrow> status \<times> 'w) \<Rightarrow> ('w \<Rightarrow> status \<times> 'w) \<Rightarrow> wiring_handler \<times> 'w ports
    \<Rightarrow> status \<times> wiring_handler \<times> 'w ports" where
  "wh_add portName cf df hp = (case hp of (h, ports) \<Rightarrow>
    (case wh_remove (h \<lparr> m_portName := portName \<rparr>, ports) of (_, h', ports') \<Rightarrow>
      (case add_port (m_portName h') cf df ports' of (st, ports'') \<Rightarrow>
        (st, h' \<lparr> m_portIsManged := (st = SMART_OK) \<rparr>, ports''))))"

subsection \<open>Properties\<close>

lemma describe_wiring_simps [simp]:
  "blank (describe_wiring n w)" "same_type (describe_wiring n v) (describe_wiring n w)" "well_typed (describe_wiring n w)"
  "sendable (describe_wiring n w)" "readable (describe_wiring n w)" "named m (describe_wiring n w) = describe_wiring m w"
  "wiring_of (describe_wiring n w) = w"
  by (simp_all add: describe_wiring_def wiring_of_def)

text \<open>C11: Wiring over the network: a connect request for a port that a component has entered reaches the port's
  connect function with the server and the service of the request, and the client is handed back the
  status that function returned; for a name that is no port it is handed \<open>SMART_UNKNOWNPORT\<close>, and nothing
  changes at the component.\<close>

theorem wiring_over_network:
  assumes "api_ok a" "m_Factory q = Some f" "\<And>vs. call_method (f_connection f) (f_methodNodeId f) vs v = (0, v')"
    and "m i = None" "req = setCommand ''connect'' port server service new_wiring_object"
    and "outArray = replicate 5 null_variant"
    and "(case ports port of None \<Rightarrow> (SMART_UNKNOWNPORT, w) | Some p \<Rightarrow> connectFunction p server service w) = (st, w')"
  shows "\<exists>q1 vs out m' q2 q3. queryRequest a call_method (describe_wiring '''' new_wiring_object) (describe_wiring '''' req) (q, v) =
      (Inr (SMART_OK, length (m_instances q)), q1, v') \<and>
    CommObjectToUaVariantArray a (describe_wiring '''' req) = Inr vs \<and>
    methodCallback a (describe_wiring '''' new_wiring_object) (handle_wiring_query code ports) i vs outArray later (m, w) =
      Some (Inr (0, out), m', w') \<and>
    receive_response a name (length (m_instances q)) (Some \<lparr> serviceResult = 0, results = [(0, out)] \<rparr>) q1 = Inr q2 \<and>
    queryReceiveWait (Some (length (m_instances q))) x q2 =
      Some (Inr (SMART_OK, describe_wiring '''' (new_wiring_object \<lparr> wo_status := code st \<rparr>)), q3)"
proof -
  let ?new = "describe_wiring '''' new_wiring_object" and ?ans = "describe_wiring '''' (new_wiring_object \<lparr> wo_status := code st \<rparr>)"
  have "handleWiring code ports req w = (new_wiring_object \<lparr> wo_status := code st \<rparr>, w')"
    using assms(5,7) by (simp add: handleWiring_def setCommand_def split: option.splits)
  then have h: "handle_wiring_query code ports (NumericId i) (named '''' (describe_wiring '''' req)) w = ([(NumericId i, ?ans)], w')"
    by (simp add: handle_wiring_query_def)
  have out: "length outArray = length (mn_outputs (query_method a N s ?new ?new))" for N s
    using assms(6) by (simp add: query_method_def arguments_named) (simp add: describe_wiring_def)
  have first: "first_answer i ([(NumericId i, ?ans)] @ later) = Some ?ans" by simp
  show ?thesis
    using query_round [where h = "handle_wiring_query code ports" and i = i and s = w and given = "[(NumericId i, ?ans)]"
        and r = ?ans and t = ?new and u = ?new and d = "describe_wiring '''' req" and call_method = call_method and q = q
        and f = f and w = v and w' = v' and m = m and later = later and outArray = outArray and s' = w' and a = a,
        OF assms(1-3) _ _ _ _ _ h assms(4) first _ _ _ _ _ out, of name x]
    by (simp only: describe_wiring_simps True_implies_equals) blast
qed

text \<open>
  In \<open>wiring_over_network\<close> the answer is there when the handler returns. With the thread the slave gives its handler
  (\<open>WiringSlave.cpp\<close>, line 38) the outcome is the same once the requests queued before are handled.
\<close>

interpretation wiring_remote: remote "describe_wiring ''''" wiring_of new_wiring_object "\<lambda>_. True"
    "describe_wiring ''''" wiring_of new_wiring_object "\<lambda>_. True"
  by unfold_locales simp_all

theorem wiring_deferred:
  assumes "api_ok a" "active_queue_ok Q" "work_off (handle_wiring_query code ports) (aq_pending Q b) w = (before, w1)"
    and "first_answer i before = None" "req = setCommand ''connect'' port server service new_wiring_object"
    and "(case ports port of None \<Rightarrow> (SMART_UNKNOWNPORT, w1) | Some p \<Rightarrow> connectFunction p server service w1) = (st, w2)"
  shows "wiring_remote.ask a (deferred Q) (handler_thread Q (handle_wiring_query code ports)) i req resp (b, w) =
    ((SMART_OK, new_wiring_object \<lparr> wo_status := code st \<rparr>), (aq_emptied Q (aq_enqueue Q (NumericId i) (describe_wiring '''' req) b), w2))"
proof -
  have "handleWiring code ports req w1 = (new_wiring_object \<lparr> wo_status := code st \<rparr>, w2)"
    using assms(5,6) by (simp add: handleWiring_def setCommand_def split: option.splits)
  then have "handle_wiring_query code ports (NumericId i) (describe_wiring '''' req) w1 =
      ([(NumericId i, describe_wiring '''' (new_wiring_object \<lparr> wo_status := code st \<rparr>))], w2)"
    by (simp add: handle_wiring_query_def)
  then show ?thesis by (rule wiring_remote.answered_deferred [OF assms(1) TrueI TrueI assms(2-4)])
qed

definition camera_ports :: "string ports" where
  "camera_ports = [''camera'' \<mapsto> \<lparr> pe_portName = ''camera'', connectFunction = (\<lambda>s v w. (SMART_OK, s @ ''/'' @ v)),
     disconnectFunction = (\<lambda>w. (SMART_OK, '''')) \<rparr>]"

theorem wiring_over_network_witness:
  "\<exists>q1 vs out m' q2 q3. queryRequest std_api (\<lambda>c i vs w. (0, w)) (describe_wiring '''' new_wiring_object)
      (describe_wiring '''' (setCommand ''connect'' ''camera'' ''robot'' ''image'' new_wiring_object)) (demo_client, ()) =
      (Inr (SMART_OK, length (m_instances demo_client)), q1, ()) \<and>
    CommObjectToUaVariantArray std_api (describe_wiring '''' (setCommand ''connect'' ''camera'' ''robot'' ''image'' new_wiring_object)) = Inr vs \<and>
    methodCallback std_api (describe_wiring '''' new_wiring_object) (handle_wiring_query (\<lambda>_. 0) camera_ports) 5 vs
      (replicate 5 null_variant) [] (Map.empty, '''') = Some (Inr (0, out), m', ''robot/image'') \<and>
    receive_response std_api (\<lambda>_. '''') (length (m_instances demo_client)) (Some \<lparr> serviceResult = 0, results = [(0, out)] \<rparr>) q1 = Inr q2 \<and>
    queryReceiveWait (Some (length (m_instances demo_client))) (sample_pose 0 '''') q2 =
      Some (Inr (SMART_OK, describe_wiring '''' (new_wiring_object \<lparr> wo_status := 0 \<rparr>)), q3)"
  using wiring_over_network [where q = demo_client and call_method = "\<lambda>c i vs w. (0, w)" and port = "''camera''" and i = 5
      and server = "''robot''" and service = "''image''" and ports = camera_ports and w = "''''" and st = SMART_OK and m = Map.empty
      and w' = "''robot/image''" and v = "()" and v' = "()" and code = "\<lambda>_. 0" and later = "[]" and name = "\<lambda>_. ''''"
      and x = "sample_pose 0 ''''", OF std_api_ok _ _ _ refl refl]
  by (simp add: demo_client_def camera_ports_def)

text \<open>
  Entering a fresh client leaves the ports of the others alone, and leaving restores them.
\<close>

lemma wiring_add_remove:
  assumes "ports name = None" "\<not> m_portIsManged h"
  shows "\<exists>h1 ports1 h2. wh_add name cf df (h, ports) = (SMART_OK, h1, ports1) \<and> m_portIsManged h1 \<and>
    (\<forall>p. p \<noteq> name \<longrightarrow> ports1 p = ports p) \<and> ports1 name \<noteq> None \<and>
    wh_remove (h1, ports1) = (SMART_OK, h2, ports) \<and> \<not> m_portIsManged h2"
  using assms by (auto simp: wh_add_def wh_remove_def add_port_def remove_port_def fun_upd_idem)

text \<open>Entering a client that is entered already does not do what it should: under the same name, the client
  disappears from its port and is entered under the empty name instead; under a new name that is free, its
  old port stays and keeps its old functions; under the name of another client's port, that port is lost
  to the other client.\<close>

theorem wiring_readd:
  assumes "m_portIsManged h" "ports (m_portName h) = Some p" "m_portName h \<noteq> ''''" "ports '''' = None" "name \<noteq> ''''"
  shows "(\<exists>h' ports' p'. wh_add (m_portName h) cf df (h, ports) = (SMART_OK, h', ports') \<and>
      ports' (m_portName h) = None \<and> ports' '''' = Some p' \<and> connectFunction p' = cf) \<and>
    (ports name = None \<longrightarrow> (\<exists>h' ports'. wh_add name cf df (h, ports) = (SMART_OK, h', ports') \<and>
      ports' (m_portName h) = Some p \<and> m_portName h' = name)) \<and>
    (\<forall>other. ports name = Some other \<and> name \<noteq> m_portName h \<longrightarrow>
      (\<exists>h' ports'. wh_add name cf df (h, ports) = (SMART_OK, h', ports') \<and> ports' name = None \<and>
        ports' (m_portName h) = Some p))"
  using assms by (auto simp: wh_add_def wh_remove_def add_port_def remove_port_def)

theorem wiring_readd_witness:
  "\<exists>h' ports' p'. wh_add ''camera'' (\<lambda>s v w. (SMART_ERROR, w)) (\<lambda>w. (SMART_ERROR, w))
      (\<lparr> m_portName = ''camera'', m_portIsManged = True \<rparr>, camera_ports) = (SMART_OK, h', ports') \<and>
    ports' ''camera'' = None \<and> ports' '''' = Some p'"
  using wiring_readd [of "\<lparr> m_portName = ''camera'', m_portIsManged = True \<rparr>" camera_ports _ "''lidar''"
      "\<lambda>s v w. (SMART_ERROR, w)" "\<lambda>w. (SMART_ERROR, w)"] by (auto simp: camera_ports_def)

end
