(* ===== verification/Event.thy ===== *)
theory Event
  imports Query Subscription
begin

section \<open>Events\<close>

text \<open>
  The event pattern: the server, whose clients activate an event with a parameter and get a node of their
  own for its results (\<open>OPCUA/Server/EventServer.hpp\<close>), and the client, which subscribes to that node
  (\<open>OPCUA/Client/EventClient.hpp\<close>).
\<close>

subsection \<open>The server\<close>

text \<open>
  Beside the functions of \<open>server_api\<close>: adding an object whose identifier the server assigns (with the
  parent and the browse name), and adding a method, with the event server as its context.
\<close>

record 's event_api =
  addActivation :: "node_id \<Rightarrow> node_id \<Rightarrow> 16 word \<times> string \<Rightarrow> node_id \<Rightarrow> object_attr \<Rightarrow> 's \<Rightarrow> (32 word \<times> node_id) \<times> 's"
  addMethodNode :: "method_node \<Rightarrow> string \<Rightarrow> 's \<Rightarrow> 32 word \<times> 's"

text \<open>
  The map from nodes to parameters is the list of its entries in the order of the identifiers, \<open>lt\<close>;
  inserting keeps an entry that is there.
\<close>

record event_server =
  es_service :: string
  m_EventInfos :: "(node_id \<times> desc) list"
  m_disabled :: bool

fun insert_info :: "(node_id \<Rightarrow> node_id \<Rightarrow> bool) \<Rightarrow> node_id \<Rightarrow> desc \<Rightarrow> (node_id \<times> desc) list \<Rightarrow> (node_id \<times> desc) list" where
  "insert_info lt i p [] = [(i, p)]"
| "insert_info lt i p ((j, q) # m) =
    (if lt i j then (i, p) # (j, q) # m else if lt j i then (j, q) # insert_info lt i p m else (j, q) # m)"

text \<open>The constructor; the status codes of the two calls are ignored, and the namespace index is 2.\<close>

definition activation_method :: "ua_api \<Rightarrow> node_id \<Rightarrow> desc \<Rightarrow> method_node" where
  "activation_method a objNode param =
    \<lparr> mn_id = StrId 2 (String_alloc a ''Activation method''), mn_parent = objNode, mn_reference = NumId 0 47,
      mn_browse = (2, String_alloc a ''Event activation Method''), mn_display = String_alloc a ''Activation method'',
      mn_inputs = to_arguments a (named ''input'' param),
      mn_outputs = [\<lparr> arg_name = String_alloc a ''The assigned id'', arg_type = UA_NODEID, arg_rank = -2 \<rparr>] \<rparr>"

definition new_event_server :: "ua_api \<Rightarrow> namespaces \<Rightarrow> 's server_api \<Rightarrow> 's event_api \<Rightarrow> string \<Rightarrow> desc \<Rightarrow> 's \<Rightarrow> event_server \<times> 's" where
  "new_event_server a N A E serviceName param s =
    (let objNode = StrId 2 (String_alloc a (c_str (''85.'' @ serviceName)));
       s1 = snd (addObjectNode A objNode (objects_folder N) (NumId 0 35) (1, String_alloc a (c_str serviceName)) (NumId 0 58)
         \<lparr> oa_display = String_alloc a (c_str serviceName) \<rparr> s);
       s2 = snd (addMethodNode E (activation_method a objNode param) serviceName s1)
     in (\<lparr> es_service = serviceName, m_EventInfos = [], m_disabled = True \<rparr>, s2))"

text \<open>
  \<open>activateCallback\<close>: the result is the identifier that is handed back in the output variant. The number
  of the assigned identifier is read from the union without a test of its kind.
\<close>

definition activateCallback :: "ua_api \<Rightarrow> namespaces \<Rightarrow> 's server_api \<Rightarrow> 's event_api \<Rightarrow> (node_id \<Rightarrow> node_id \<Rightarrow> bool) \<Rightarrow> desc \<Rightarrow> desc
    \<Rightarrow> node_id \<Rightarrow> variant list \<Rightarrow> event_server \<times> 's \<Rightarrow> node_id result \<times> event_server \<times> 's" where
  "activateCallback a N A E lt result_obj param objectId input es_s = (case es_s of (es, s) \<Rightarrow>
    (case addActivation E objectId (NumId 0 47) (1, String_alloc a ''Activation'') (NumId 0 58)
        \<lparr> oa_display = String_alloc a ''Activation'' \<rparr> s of ((_, nodeId), s1) \<Rightarrow>
      (case push_model a N A nodeId (named (es_service es) result_obj) s1 of
        (Inl e, s2) \<Rightarrow> (Inl e, es, s2)
      | (Inr _, s2) \<Rightarrow>
          (case UaVariantArrayToCommObject a input (named '''' param) of
            Inl e \<Rightarrow> (Inl e, es, s2)
          | Inr p \<Rightarrow>
              (case nodeId of
                NumId _ k \<Rightarrow> Inr (StrId 2 (String_of_std a (show_nat (unat k) @ ''.'' @ es_service es)))
              | _ \<Rightarrow> Inl UndefinedBehaviour,
               es \<lparr> m_EventInfos := insert_info lt nodeId p (m_EventInfos es) \<rparr>, s2)))))"

text \<open>
  \<open>put\<close>: \<open>testEvent\<close> decides for a parameter and the new state whether the event fires, and fills in a
  result. The flag \<open>m_disabled\<close> is one for all activations, and what is published is the state.
\<close>

definition put_activation :: "ua_api \<Rightarrow> namespaces \<Rightarrow> 's server_api \<Rightarrow> (desc \<Rightarrow> desc \<Rightarrow> bool \<times> desc) \<Rightarrow> string \<Rightarrow> desc
    \<Rightarrow> node_id \<times> desc \<Rightarrow> bool \<times> 's \<Rightarrow> unit result \<times> bool \<times> 's" where
  "put_activation a N A testEvent service newState ip ds = (case ip of (i, p) \<Rightarrow> case ds of (disabled, s) \<Rightarrow>
    let d = named service newState in
    if fst (testEvent p newState) then
      (case (if disabled then enable_model a N A i d s else (Inr (), s)) of
        (Inl e, s') \<Rightarrow> (Inl e, disabled, s')
      | (Inr _, s') \<Rightarrow> (case update_model a N A i d s' of (r, s'') \<Rightarrow> (r, False, s'')))
    else if \<not> disabled then
      (case disable_model a N A i d s of
        (Inl e, s') \<Rightarrow> (Inl e, disabled, s')
      | (Inr _, s') \<Rightarrow> (Inr (), True, s'))
    else (Inr (), disabled, s))"

definition put_event :: "ua_api \<Rightarrow> namespaces \<Rightarrow> 's server_api \<Rightarrow> (desc \<Rightarrow> desc \<Rightarrow> bool \<times> desc) \<Rightarrow> desc
    \<Rightarrow> event_server \<times> 's \<Rightarrow> status result \<times> event_server \<times> 's" where
  "put_event a N A testEvent newState es_s = (case es_s of (es, s) \<Rightarrow>
    if m_EventInfos es \<noteq> [] then
      (case run_all (put_activation a N A testEvent (es_service es) newState) (m_EventInfos es) (m_disabled es, s) of
        (r, disabled, s') \<Rightarrow> (rbind r (\<lambda>_. Inr SMART_OK), es \<lparr> m_disabled := disabled \<rparr>, s'))
    else (Inr SMART_NODATA, es, s))"

subsection \<open>The client\<close>

text \<open>
  The client: the connection and the node of the service. An event identifier: the node of the results,
  the subscription with its reader, and whether it was deactivated.
\<close>

record event_client =
  ec_connection :: "nat option"
  m_nodeId :: node_id

record event_id =
  dataNodeId :: node_id
  ev_subscription :: subscription
  ev_reader :: reader
  invalid :: bool

definition event_connect :: "ua_api \<Rightarrow> 'w naming_api \<Rightarrow> string \<Rightarrow> string \<Rightarrow> event_client \<Rightarrow> naming \<times> 'w
    \<Rightarrow> (status result \<times> event_client \<times> naming \<times> 'w) option" where
  "event_connect a A server service q nw =
    map_option (\<lambda>(r, n', w'). case r of
        Inl e \<Rightarrow> (Inl e, q, n', w')
      | Inr (c, i) \<Rightarrow> (Inr SMART_OK, q \<lparr> ec_connection := Some c, m_nodeId := i \<rparr>, n', w'))
      (getConnectionAndNodeIdByName a A server service nw)"

definition event_disconnect :: "event_client \<Rightarrow> status \<times> event_client" where
  "event_disconnect q = (SMART_OK, q \<lparr> ec_connection := None \<rparr>)"

definition event_blocking :: "bool \<Rightarrow> status" where
  "event_blocking b = SMART_ERROR"

text \<open>
  \<open>activate\<close>: the method is called on the service's object; each output argument is a node identifier or
  something else (\<open>None\<close>). Then the node handed back is subscribed. The mode is not used.
\<close>

type_synonym 'c call_method = "node_id \<Rightarrow> node_id \<Rightarrow> variant list \<Rightarrow> 'c \<Rightarrow> (32 word \<times> node_id option list) \<times> 'c"

definition event_activate :: "ua_api \<Rightarrow> 'c client_api \<Rightarrow> 'c call_method \<Rightarrow> (browsed \<Rightarrow> nat option) \<Rightarrow> desc \<Rightarrow> desc \<Rightarrow> event_client \<times> 'c
    \<Rightarrow> (status \<times> event_id option) result \<times> 'c" where
  "event_activate a C call order event parameter qc = (case qc of (q, c) \<Rightarrow>
    (case CommObjectToUaVariantArray a (named '''' parameter) of
      Inl e \<Rightarrow> (Inl e, c)
    | Inr inArgs \<Rightarrow>
        if ec_connection q = None then (Inl UndefinedBehaviour, c)
        else (case call (m_nodeId q) (StrId 2 (String_of_std a ''Activation method'')) inArgs c of ((ret, outArgs), c1) \<Rightarrow>
          if ret \<noteq> 0 then (Inr (SMART_ERROR, None), c1)
          else if length outArgs \<noteq> 1 then (Inr (SMART_ERROR, None), c1)
          else (case hd outArgs of
            None \<Rightarrow> (Inr (SMART_ERROR, None), c1)
          | Some i \<Rightarrow> (case subscribe_object C order event i (new_subscription event, c1) of
                Inl e \<Rightarrow> (Inl e, c1)
              | Inr (st, sub, c2) \<Rightarrow>
                  if st \<noteq> 0 then (Inr (SMART_ERROR, None), c2)
                  else (Inr (SMART_OK, Some \<lparr> dataNodeId = i, ev_subscription = sub, ev_reader = new_reader, invalid = False \<rparr>), c2))))))"

text \<open>An identifier of another kind is \<open>None\<close>. A call that waits returns \<open>None\<close> as its outcome.\<close>

definition event_deactivate :: "event_id option \<Rightarrow> status \<times> event_id option" where
  "event_deactivate eid = (SMART_OK, map_option (\<lambda>e. e \<lparr> invalid := True \<rparr>) eid)"

definition event_active :: "event_id option \<Rightarrow> bool" where
  "event_active eid \<longleftrightarrow> (case eid of None \<Rightarrow> False | Some e \<Rightarrow> \<not> invalid e)"

definition tryEvent :: "event_id option \<Rightarrow> status" where
  "tryEvent eid = (if \<not> event_active eid then SMART_NOTACTIVATED
     else if reader_hasData ring_api (ev_subscription (the eid)) (ev_reader (the eid)) then SMART_OK else SMART_ERROR)"

definition read_event :: "event_id \<Rightarrow> (status \<times> desc \<times> event_id) option result" where
  "read_event e = rbind (reader_getData ring_api (ev_subscription e) (ev_reader e)) (\<lambda>res.
     Inr (map_option (\<lambda>(d, r). (SMART_OK, d, e \<lparr> ev_reader := r \<rparr>)) res))"

definition getEvent :: "event_id option \<Rightarrow> desc \<Rightarrow> (status \<times> desc \<times> event_id option) option result" where
  "getEvent eid event = (if \<not> event_active eid then Inr (Some (SMART_NOTACTIVATED, event, eid))
     else rbind (read_event (the eid)) (\<lambda>res. Inr (map_option (\<lambda>(st, d, e). (st, d, Some e)) res)))"

definition getNextEvent :: "event_id option \<Rightarrow> desc \<Rightarrow> (status \<times> desc \<times> event_id option) option result" where
  "getNextEvent eid event = (if \<not> event_active eid then Inr (Some (SMART_NOTACTIVATED, event, eid))
     else let e = the eid in
       rbind (read_event (e \<lparr> ev_reader := seek ring_api (ev_subscription e) 0 REF_END (ev_reader e) \<rparr>))
         (\<lambda>res. Inr (map_option (\<lambda>(st, d, e). (st, d, Some e)) res)))"

end
