(* ===== verification/EventProperties.thy ===== *)
theory EventProperties
  imports Event PushProperties SubscriptionProperties
begin

section \<open>Properties of events\<close>

text \<open>
  With one activation, the result node of a client shows the last state put exactly while its event
  fires; with two, the shared flag keeps the second one closed. \<open>getNextEvent\<close> passes over an event. The
  activation method of a second event server of a component is lost.
\<close>

subsection \<open>Closing the nodes of a service without arrays\<close>

lemma disable_model_ok:
  assumes "server_ok A look" "api_ok a" "addressable par" "names_ok d"
    and "\<forall>(i, p, e) \<in> set (tree_nodes N par d). \<not> is_array e"
    and "\<forall>x \<in> set (tree_nodes N par d). has_node (look s) acc x"
  shows "\<exists>s'. disable_model a N A par d s = (Inr (), s') \<and> (\<forall>x \<in> set (tree_nodes N par d). has_node (look s') 0 x) \<and>
    (\<forall>i. i \<notin> fst ` set (tree_nodes N par d) \<longrightarrow> look s' i = look s i)"
proof -
  have "\<exists>s'. disable_node A a N x s = (Inr (), s') \<and> has_node (\<lambda>_. look s' (fst x)) 0 x \<and>
      (\<forall>i. i \<noteq> fst x \<longrightarrow> look s' i = look s i)"
    if x0: "x \<in> set (tree_nodes N par d)" and h: "has_node (\<lambda>_. look s (fst x)) acc x" for x s
  proof -
    obtain i p e where x: "x = (i, p, e)" by (cases x)
    show ?thesis
    proof (cases e)
      case (ElemPrim n q)
      with h x obtain v where "look s i = Some (Variable p (c_str n) (scalar_type q) acc v)"
        by (auto simp: conv_simps)
      from server_okD(3) [OF assms(1) this, of 0] show ?thesis using x ElemPrim by (auto simp: conv_simps)
    qed (use x h x0 assms(5) in auto)
  qed
  from run_all_nodes [where R = "\<lambda>x o'. has_node (\<lambda>_. o') acc x" and Q = "\<lambda>x o'. has_node (\<lambda>_. o') 0 x",
      OF this tree_ids_distinct [OF assms(4), of N par], where s = s] assms(6)
  show ?thesis unfolding disabler.walk_nodes [OF assms(2,3)] has_node_at [of "look s" for s] by blast
qed

subsection \<open>Puts of one activation\<close>

definition nodes_at :: "(node_id \<Rightarrow> ua_node option) \<Rightarrow> namespaces \<Rightarrow> node_id \<Rightarrow> desc \<Rightarrow> 8 word \<Rightarrow> bool" where
  "nodes_at L N i d acc \<longleftrightarrow> (\<forall>x \<in> set (tree_nodes N i d). has_node L acc x)"

definition shown :: "(node_id \<Rightarrow> ua_node option) \<Rightarrow> namespaces \<Rightarrow> node_id \<Rightarrow> desc \<Rightarrow> variant option list" where
  "shown L N i d = map (\<lambda>k. readable_value (L k)) (leaf_ids N i d)"

definition fits_event :: "desc \<Rightarrow> desc \<Rightarrow> bool" where
  "fits_event t d \<longleftrightarrow> same_type t d \<and> well_typed d \<and> sendable d"

lemma put_fires:
  assumes "server_ok A look" "api_ok a" "addressable i" "names_ok t" "fits_event t d"
    and "nodes_at (look s) N i (named n t) acc" "fst (testEvent p d)"
  shows "\<exists>s'. put_activation a N A testEvent n d (i, p) (disabled, s) = (Inr (), False, s') \<and>
    (\<forall>x \<in> set (tree_nodes N i (named n d)). holds_at (look s') (if disabled then 1 else acc) x) \<and>
    (\<forall>k. k \<notin> fst ` set (tree_nodes N i (named n t)) \<longrightarrow> look s' k = look s k)"
proof -
  let ?d = "named n d" and ?acc = "if disabled then 1 else acc :: 8 word"
  have same: "same_type (named n t) ?d" and names: "names_ok ?d" and wt: "well_typed ?d" "sendable ?d"
    using assms(4,5) same_type_names_ok by (auto simp: fits_event_def)
  have nodes: "\<forall>x \<in> set (tree_nodes N i ?d). has_node (look s) acc x"
    using assms(6) same_type_has_node [OF same, of N i "look s" acc] by (simp add: nodes_at_def)
  have "map fst (map skeleton (tree_nodes N i (named n t))) = map fst (map skeleton (tree_nodes N i ?d))"
    using same_type_skeleton [OF same, of N i] by simp
  moreover have "fst \<circ> skeleton = fst" by (auto simp: fun_eq_iff)
  ultimately have ids: "fst ` set (tree_nodes N i (named n t)) = fst ` set (tree_nodes N i ?d)"
    by (metis list.map_comp list.set_map)
  obtain s1 where s1: "(if disabled then enable_model a N A i ?d s else (Inr (), s)) = (Inr (), s1)"
    "\<forall>x \<in> set (tree_nodes N i ?d). has_node (look s1) ?acc x" "\<forall>k. k \<notin> fst ` set (tree_nodes N i ?d) \<longrightarrow> look s1 k = look s k"
  proof (cases disabled)
    case True
    then show ?thesis using that enable_model_ok [OF assms(1-3) names nodes] by auto
  next
    case False
    then show ?thesis using that nodes by auto
  qed
  obtain s2 where s2: "update_model a N A i ?d s1 = (Inr (), s2)" "\<forall>x \<in> set (tree_nodes N i ?d). holds_at (look s2) ?acc x"
    "\<forall>k. k \<notin> fst ` set (tree_nodes N i ?d) \<longrightarrow> look s2 k = look s1 k"
    using update_model_ok [OF assms(1-3) names wt s1(2)] by blast
  show ?thesis using assms(7) s1(1,3) s2 ids by (auto simp: put_activation_def Let_def)
qed

lemma shown_holds:
  assumes "fits_event t d" "\<forall>x \<in> set (tree_nodes N i (named n d)). holds_at L 1 x"
  shows "shown L N i (named n t) = map Some (variants_of d)" "nodes_at L N i (named n t) 1"
proof -
  have same: "same_type (named n t) (named n d)" using assms(1) by (simp add: fits_event_def)
  show "shown L N i (named n t) = map Some (variants_of d)"
    using published_holds [OF assms(2)] same_type_leaf_ids [OF same, of N i] by (simp add: shown_def)
  show "nodes_at L N i (named n t) 1"
    using assms(2) holds_has_node same_type_has_node [OF same] by (auto simp: nodes_at_def simp del: has_node.simps holds_at.simps)
qed

lemma holds_nodes_at:
  assumes "fits_event t d" "\<forall>x \<in> set (tree_nodes N i (named n d)). holds_at L acc x"
  shows "nodes_at L N i (named n t) acc"
proof -
  have "same_type (named n t) (named n d)" using assms(1) by (simp add: fits_event_def)
  from same_type_has_node [OF this] show ?thesis
    using assms(2) holds_has_node by (auto simp: nodes_at_def simp del: has_node.simps holds_at.simps)
qed

lemma shown_closed: "nodes_at L N i d 0 \<Longrightarrow> shown L N i d = replicate (length (leaf_ids N i d)) None"
  using unpublished by (simp add: nodes_at_def shown_def)

lemma put_rests:
  assumes "server_ok A look" "api_ok a" "addressable i" "names_ok t" "fits_event t d"
    and "\<forall>(k, q, e) \<in> set (tree_nodes N i (named n t)). \<not> is_array e"
    and "nodes_at (look s) N i (named n t) (if disabled then 0 else 1)" "\<not> fst (testEvent p d)"
  shows "\<exists>s'. put_activation a N A testEvent n d (i, p) (disabled, s) = (Inr (), True, s') \<and>
    nodes_at (look s') N i (named n t) 0"
proof (cases disabled)
  case False
  let ?d = "named n d"
  have same: "same_type (named n t) ?d" and names: "names_ok ?d"
    using assms(4,5) same_type_names_ok by (auto simp: fits_event_def)
  have arr: "is_array e \<longleftrightarrow> \<not> is_complex e \<and> push_type e = UA_VARIANT" for e
    
  proof (cases e)
    case (ElemPrim n q)
    then show ?thesis by (cases q) simp_all
  qed simp_all
  have "\<forall>(k, q, e) \<in> set (tree_nodes N i ?d). \<not> is_array e"
  proof -
    have "(\<forall>(k, q, e) \<in> set xs. \<not> is_array e) \<longleftrightarrow> (\<forall>(k, q, m, c, ty) \<in> set (map skeleton xs). \<not> (\<not> c \<and> ty = UA_VARIANT))" for xs
      by (auto simp: arr)
    then show ?thesis using assms(6) same_type_skeleton [OF same, of N i] by metis
  qed
  moreover have "\<forall>x \<in> set (tree_nodes N i ?d). has_node (look s) 1 x"
    using assms(7) False same_type_has_node [OF same, of N i "look s" 1] by (simp add: nodes_at_def)
  ultimately obtain s' where "disable_model a N A i ?d s = (Inr (), s')" "\<forall>x \<in> set (tree_nodes N i ?d). has_node (look s') 0 x"
    using disable_model_ok [OF assms(1-3) names] by blast
  then show ?thesis
    using assms(8) False same_type_has_node [OF same, of N i "look s'" 0] by (auto simp: put_activation_def nodes_at_def)
qed (use assms(7,8) in \<open>simp add: put_activation_def\<close>)

text \<open>Puts in a row, up to the first exception.\<close>

fun put_events :: "ua_api \<Rightarrow> namespaces \<Rightarrow> 's server_api \<Rightarrow> (desc \<Rightarrow> desc \<Rightarrow> bool \<times> desc) \<Rightarrow> desc list
    \<Rightarrow> event_server \<times> 's \<Rightarrow> status result \<times> event_server \<times> 's" where
  "put_events a N A testEvent [] es_s = (Inr SMART_OK, es_s)"
| "put_events a N A testEvent (d # ds) es_s = (case put_event a N A testEvent d es_s of
     (Inl e, es_s') \<Rightarrow> (Inl e, es_s')
   | (Inr _, es_s') \<Rightarrow> put_events a N A testEvent ds es_s')"

text \<open>
  With one activation, the nodes follow the last state put; arrays apart, which cannot be closed.
\<close>

lemma event_put_follows:
  assumes "server_ok A look" "api_ok a" "addressable i" "names_ok t" "fits_event t d"
    and "list_all (\<lambda>(k, q, e). \<not> is_array e) (tree_nodes N i (named (es_service es) t))"
    and "m_EventInfos es = [(i, p)]" "nodes_at (look s) N i (named (es_service es) t) (if m_disabled es then 0 else 1)"
  shows "\<exists>disabled s1. put_event a N A testEvent d (es, s) = (Inr SMART_OK, es \<lparr> m_disabled := disabled \<rparr>, s1) \<and>
    nodes_at (look s1) N i (named (es_service es) t) (if disabled then 0 else 1) \<and>
    shown (look s1) N i (named (es_service es) t) = (if fst (testEvent p d) then map Some (variants_of d)
      else replicate (length (leaf_ids N i (named (es_service es) t))) None)"
proof -
  let ?n = "es_service es"
  have put: "put_event a N A testEvent d (es, s) = (Inr SMART_OK, es \<lparr> m_disabled := disabled \<rparr>, s1)"
    if "put_activation a N A testEvent ?n d (i, p) (m_disabled es, s) = (Inr (), disabled, s1)" for disabled s1
    using that assms(7) by (simp add: put_event_def)
  show ?thesis
  proof (cases "fst (testEvent p d)")
    case True
    obtain s1 where s1: "put_activation a N A testEvent ?n d (i, p) (m_disabled es, s) = (Inr (), False, s1)"
      "\<forall>x \<in> set (tree_nodes N i (named ?n d)). holds_at (look s1) 1 x"
      using put_fires [where testEvent = testEvent and p = p and disabled = "m_disabled es" and s = s, OF assms(1-5,8) True]
      by (auto simp del: holds_at.simps split: if_split_asm)
    show ?thesis using put [OF s1(1)] shown_holds [OF assms(5) s1(2)] True by auto
  next
    case False
    have "\<forall>(k, q, e) \<in> set (tree_nodes N i (named ?n t)). \<not> is_array e" using assms(6) by (auto simp: list_all_iff)
    from put_rests [where testEvent = testEvent, OF assms(1-5) this assms(8) False]
    obtain s1 where s1: "put_activation a N A testEvent ?n d (i, p) (m_disabled es, s) = (Inr (), True, s1)"
      "nodes_at (look s1) N i (named ?n t) 0" by blast
    show ?thesis using put [OF s1(1)] s1(2) shown_closed [OF s1(2)] False by auto
  qed
qed

lemma event_puts_follow:
  assumes "server_ok A look" "api_ok a" "addressable i" "names_ok t" "list_all (fits_event t) ds" "ds \<noteq> []"
    and "list_all (\<lambda>(k, q, e). \<not> is_array e) (tree_nodes N i (named (es_service es) t))"
    and "m_EventInfos es = [(i, p)]" "nodes_at (look s) N i (named (es_service es) t) (if m_disabled es then 0 else 1)"
  shows "\<exists>es' s'. put_events a N A testEvent ds (es, s) = (Inr SMART_OK, es', s') \<and>
    shown (look s') N i (named (es_service es) t) =
      (if fst (testEvent p (last ds)) then map Some (variants_of (last ds))
       else replicate (length (leaf_ids N i (named (es_service es) t))) None)"
  using assms(5-9)
proof (induction ds arbitrary: es s)
  case (Cons d ds)
  have fits: "fits_event t d" using Cons.prems(1) by simp
  obtain disabled s1 where s1: "put_event a N A testEvent d (es, s) = (Inr SMART_OK, es \<lparr> m_disabled := disabled \<rparr>, s1)"
    "nodes_at (look s1) N i (named (es_service es) t) (if disabled then 0 else 1)"
    "shown (look s1) N i (named (es_service es) t) = (if fst (testEvent p d) then map Some (variants_of d)
        else replicate (length (leaf_ids N i (named (es_service es) t))) None)"
    using event_put_follows [where testEvent = testEvent, OF assms(1-4) fits Cons.prems(3-5)] by blast
  show ?case
  proof (cases "ds = []")
    case True
    with s1 show ?thesis by simp
  next
    case False
    with s1(1) show ?thesis
      using Cons.IH [of "es \<lparr> m_disabled := disabled \<rparr>" s1] Cons.prems s1(2) by (simp cong: if_cong)
  qed
qed simp

lemma activation_ok:
  assumes "server_ok A look" "api_ok a" "names_ok t" "ns1 N = 2"
    and "addActivation E objectId (NumId 0 47) (1, String_alloc a ''Activation'') (NumId 0 58)
      \<lparr> oa_display = String_alloc a ''Activation'' \<rparr> s = ((c, NumId k n), s1)"
    and "look s1 (NumId k n) \<noteq> None"
    and "list_all (\<lambda>x. look s1 (fst x) = None) (tree_nodes N (NumId k n) (named (es_service es) t))"
    and "blank u" "same_type u p" "well_typed p" "readable p"
  shows "\<exists>s2. activateCallback a N A E lt t u objectId (variants_of p) (es, s) =
      (Inr (child_id N (NumId k n) (named (es_service es) t)),
       es \<lparr> m_EventInfos := insert_info lt (NumId k n) (named '''' p) (m_EventInfos es) \<rparr>, s2) \<and>
    nodes_at (look s2) N (NumId k n) (named (es_service es) t) 0"
proof -
  obtain s2 where s2: "push_model a N A (NumId k n) (named (es_service es) t) s1 = (Inr (), s2)"
    "\<forall>x \<in> set (tree_nodes N (NumId k n) (named (es_service es) t)). has_node (look s2) 0 x"
    using push_model_ok [OF assms(1,2), of "NumId k n" "named (es_service es) t" N s1] assms(3,6,7) by (auto simp: list_all_iff)
  have "UaVariantArrayToCommObject a (variants_of p) (named '''' u) = Inr (named '''' p)"
    using decode_ok [OF assms(2), of "named '''' u" "named '''' p"] assms(8-11) by simp
  with s2 assms(4,5) show ?thesis
    by (auto simp: activateCallback_def child_id_def nodes_at_def api_okD [OF assms(2)] simp del: has_node.simps)
qed

text \<open>C14: An event with one activation follows its condition: activating it hands the client the root of a new tree
  of nodes, and after any sequence of puts the client can read there exactly the last state put if the event
  fires for the client's parameter, and nothing if it does not; no put fails, whatever the order of firing
  and resting states. This is for the first activation of an event, whose nodes are new; for states of the declared type
  without arrays, which cannot be closed, and with distinct member names without dots; for a parameter of the declared type that is
  decoded unchanged (no unsigned 64-bit value above 32 bits outside an array, no array of signed 64-bit integers), sent
  as the encoding of an object; and for an SDK namespace with the index 2, which the code assumes.\<close>

theorem event_follows_condition:
  assumes "server_ok A look" "api_ok a" "names_ok t" "ns1 N = 2"
    and "addActivation E objectId (NumId 0 47) (1, String_alloc a ''Activation'') (NumId 0 58)
      \<lparr> oa_display = String_alloc a ''Activation'' \<rparr> s = ((c, NumId k n), s1)"
    and "look s1 (NumId k n) \<noteq> None"
    and "list_all (\<lambda>x. look s1 (fst x) = None) (tree_nodes N (NumId k n) (named (es_service es) t))"
    and "blank u" "same_type u p" "well_typed p" "readable p"
    and "list_all (\<lambda>(k, q, e). \<not> is_array e) (tree_nodes N (NumId k n) (named (es_service es) t))"
    and "m_EventInfos es = []" "m_disabled es" "list_all (fits_event t) ds" "ds \<noteq> []"
  shows "\<exists>es1 s2 es' s'. activateCallback a N A E lt t u objectId (variants_of p) (es, s) =
      (Inr (child_id N (NumId k n) (named (es_service es) t)), es1, s2) \<and>
    put_events a N A testEvent ds (es1, s2) = (Inr SMART_OK, es', s') \<and>
    shown (look s') N (NumId k n) (named (es_service es) t) =
      (if fst (testEvent (named '''' p) (last ds)) then map Some (variants_of (last ds))
       else replicate (length (leaf_ids N (NumId k n) (named (es_service es) t))) None)"
proof -
  let ?es = "es \<lparr> m_EventInfos := [(NumId k n, named '''' p)] \<rparr>"
  obtain s2 where s2: "activateCallback a N A E lt t u objectId (variants_of p) (es, s) =
      (Inr (child_id N (NumId k n) (named (es_service es) t)), ?es, s2)"
    "nodes_at (look s2) N (NumId k n) (named (es_service es) t) 0"
    using activation_ok [where E = E and objectId = objectId and s = s and lt = lt and es = es, OF assms(1-11)] assms(13) by auto
  have "addressable (NumId k n)" by simp
  from event_puts_follow [OF assms(1,2) this assms(3,15,16), of N ?es "named '''' p" s2 testEvent] s2 assms(12,14)
  show ?thesis by (auto cong: if_cong)
qed

definition demo_events :: "(node_id \<Rightarrow> ua_node option) event_api" where
  "demo_events = \<lparr> addActivation = (\<lambda>par r q t x s. ((0, NumId 1 50000), s(NumId 1 50000 \<mapsto> Object par (snd q)))),
     addMethodNode = (\<lambda>m c s. (0, s)) \<rparr>"

definition event_ns :: namespaces where
  "event_ns = \<lparr> ns0 = 0, ns1 = 2 \<rparr>"

definition above :: "desc \<Rightarrow> desc \<Rightarrow> bool \<times> desc" where
  "above p d = (case (p, d) of (Complex _ [ElemPrim _ (PInt32 x), _], Complex _ [ElemPrim _ (PInt32 y), _]) \<Rightarrow> (x < y, d) | _ \<Rightarrow> (False, d))"

theorem event_follows_condition_witness:
  "\<exists>es1 s2 es' s'. activateCallback std_api event_ns std_server demo_events (\<lambda>i j. False) (sample_pose 0 '''') (sample_pose 0 '''')
      (StrId 2 ''85.near'') (variants_of (sample_pose 3 '''')) (\<lparr> es_service = ''near'', m_EventInfos = [], m_disabled = True \<rparr>, empty_space event_ns) =
      (Inr (child_id event_ns (NumId 1 50000) (named (es_service \<lparr> es_service = ''near'', m_EventInfos = [], m_disabled = True \<rparr>) (sample_pose 0 ''''))), es1, s2) \<and>
    put_events std_api event_ns std_server above [sample_pose 2 ''a'', sample_pose 5 ''b''] (es1, s2) = (Inr SMART_OK, es', s') \<and>
    shown s' event_ns (NumId 1 50000) (named (es_service \<lparr> es_service = ''near'', m_EventInfos = [], m_disabled = True \<rparr>) (sample_pose 0 '''')) =
      (if fst (above (named '''' (sample_pose 3 '''')) (last [sample_pose 2 ''a'', sample_pose 5 ''b'']))
       then map Some (variants_of (last [sample_pose 2 ''a'', sample_pose 5 ''b'']))
       else replicate (length (leaf_ids event_ns (NumId 1 50000) (named (es_service \<lparr> es_service = ''near'', m_EventInfos = [], m_disabled = True \<rparr>) (sample_pose 0 '''')))) None)"
  by (rule event_follows_condition [where k = 1 and n = 50000 and c = 0 and
      ?s1.0 = "(empty_space event_ns)(NumId 1 50000 \<mapsto> Object (StrId 2 ''85.near'') ''Activation'')", OF std_server_ok std_api_ok])
    (simp_all add: demo_events_def event_ns_def sample_pose_def dot_free_def no_nul_def fits_event_def,
     simp_all add: empty_space_def child_id_def objects_folder_def std_api_def c_str_def)

text \<open>Two activations share the flag that says whether nodes are closed: when the event fires for both, put
  after put, the second client never gets to read anything, although its nodes are written and every put
  returns \<open>SMART_OK\<close>.\<close>

theorem second_activation_stays_closed:
  assumes "server_ok A look" "api_ok a" "addressable i" "addressable j" "names_ok t" "list_all (fits_event t) ds" "ds \<noteq> []"
    and "fst ` set (tree_nodes N i (named (es_service es) t)) \<inter> fst ` set (tree_nodes N j (named (es_service es) t)) = {}"
    and "m_EventInfos es = [(i, p), (j, q)]" "m_disabled es"
    and "nodes_at (look s) N i (named (es_service es) t) 0" "nodes_at (look s) N j (named (es_service es) t) 0"
    and "list_all (\<lambda>d. fst (testEvent p d) \<and> fst (testEvent q d)) ds"
  shows "\<exists>es' s'. put_events a N A testEvent ds (es, s) = (Inr SMART_OK, es', s') \<and>
    shown (look s') N i (named (es_service es) t) = map Some (variants_of (last ds)) \<and>
    shown (look s') N j (named (es_service es) t) = replicate (length (leaf_ids N j (named (es_service es) t))) None"
proof -
  define n where "n = es_service es"
  note disjoint = assms(8) [folded n_def]
  have "\<exists>es' s'. put_events a N A testEvent ds (es, s) = (Inr SMART_OK, es', s') \<and>
      shown (look s') N i (named n t) = map Some (variants_of (last ds)) \<and>
      shown (look s') N j (named n t) = replicate (length (leaf_ids N j (named n t))) None"
    if "ds \<noteq> []" "list_all (fits_event t) ds" "list_all (\<lambda>d. fst (testEvent p d) \<and> fst (testEvent q d)) ds"
      "es_service es = n" "m_EventInfos es = [(i, p), (j, q)]" "nodes_at (look s) N i (named n t) (if m_disabled es then 0 else 1)"
      "nodes_at (look s) N j (named n t) 0" for ds es s
    using that
  proof (induction ds arbitrary: es s)
    case (Cons d ds)
    have fits: "fits_event t d" and fires: "fst (testEvent p d)" "fst (testEvent q d)" using Cons.prems(2,3) by simp_all
    obtain s1 where s1: "put_activation a N A testEvent n d (i, p) (m_disabled es, s) = (Inr (), False, s1)"
      "\<forall>x \<in> set (tree_nodes N i (named n d)). holds_at (look s1) 1 x"
      "\<forall>k. k \<notin> fst ` set (tree_nodes N i (named n t)) \<longrightarrow> look s1 k = look s k"
      using put_fires [where testEvent = testEvent and p = p and disabled = "m_disabled es" and s = s,
          OF assms(1-3,5) fits Cons.prems(6) fires(1)] by (auto simp del: holds_at.simps split: if_split_asm)
    have "nodes_at (look s1) N j (named n t) 0"
    proof -
      have "look s1 (fst x) = look s (fst x)" if "x \<in> set (tree_nodes N j (named n t))" for x
        using s1(3) disjoint that by blast
      then show ?thesis using Cons.prems(7) has_node_at unfolding nodes_at_def by metis
    qed
    from put_fires [where testEvent = testEvent and p = q and disabled = False and s = s1, OF assms(1,2,4,5) fits this fires(2)]
    obtain s2 where s2: "put_activation a N A testEvent n d (j, q) (False, s1) = (Inr (), False, s2)"
      "\<forall>x \<in> set (tree_nodes N j (named n d)). holds_at (look s2) 0 x"
      "\<forall>k. k \<notin> fst ` set (tree_nodes N j (named n t)) \<longrightarrow> look s2 k = look s1 k" by (auto simp del: holds_at.simps)
    have put: "put_event a N A testEvent d (es, s) = (Inr SMART_OK, es \<lparr> m_disabled := False \<rparr>, s2)"
      using Cons.prems(4,5) s1(1) s2(1) by (simp add: put_event_def)
    have i: "shown (look s1) N i (named n t) = map Some (variants_of d)" "nodes_at (look s1) N i (named n t) 1"
      using shown_holds [OF fits s1(2)] by auto
    have same: "look s2 (fst x) = look s1 (fst x)" if "x \<in> set (tree_nodes N i (named n t))" for x
      using s2(3) disjoint that by blast
    have i2: "nodes_at (look s2) N i (named n t) 1" using i(2) same has_node_at unfolding nodes_at_def by metis
    have "shown (look s2) N i (named n t) = shown (look s1) N i (named n t)"
      using same by (auto simp: shown_def leaf_ids_def)
    with i have i3: "shown (look s2) N i (named n t) = map Some (variants_of d)" by simp
    have j: "nodes_at (look s2) N j (named n t) 0" by (rule holds_nodes_at [OF fits s2(2)])
    show ?case
    proof (cases "ds = []")
      case True
      with put i3 shown_closed [OF j] show ?thesis by simp
    next
      case False
      with put show ?thesis using Cons.IH [of "es \<lparr> m_disabled := False \<rparr>" s2] Cons.prems i2 j by simp
    qed
  qed simp
  from this [OF assms(7,6,13) _ assms(9)] show ?thesis using assms(10-12) by (simp add: n_def)
qed

definition two_activations :: "node_id \<Rightarrow> ua_node option" where
  "two_activations = [
     StrId 2 ''10.near'' \<mapsto> Object (NumId 1 10) ''near'',
     StrId 2 ''10.near.x'' \<mapsto> Variable (StrId 2 ''10.near'') ''x'' UA_INT32 0 null_variant,
     StrId 2 ''10.near.frame'' \<mapsto> Variable (StrId 2 ''10.near'') ''frame'' UA_STRING 0 null_variant,
     StrId 2 ''20.near'' \<mapsto> Object (NumId 1 20) ''near'',
     StrId 2 ''20.near.x'' \<mapsto> Variable (StrId 2 ''20.near'') ''x'' UA_INT32 0 null_variant,
     StrId 2 ''20.near.frame'' \<mapsto> Variable (StrId 2 ''20.near'') ''frame'' UA_STRING 0 null_variant]"

definition near_event :: event_server where
  "near_event = \<lparr> es_service = ''near'', m_EventInfos = [(NumId 1 10, sample_pose 0 ''''), (NumId 1 20, sample_pose 1 '''')], m_disabled = True \<rparr>"

theorem second_activation_stays_closed_witness:
  "\<exists>es' s'. put_events std_api event_ns std_server above [sample_pose 2 ''a'', sample_pose 5 ''b''] (near_event, two_activations) =
      (Inr SMART_OK, es', s') \<and>
    shown s' event_ns (NumId 1 10) (named (es_service near_event) (sample_pose 0 '''')) = map Some (variants_of (last [sample_pose 2 ''a'', sample_pose 5 ''b''])) \<and>
    shown s' event_ns (NumId 1 20) (named (es_service near_event) (sample_pose 0 '''')) =
      replicate (length (leaf_ids event_ns (NumId 1 20) (named (es_service near_event) (sample_pose 0 '''')))) None"
proof -
  have show_nat: "show_nat 10 = ''10''" "show_nat 20 = ''20''"
    by (simp_all add: show_nat.simps [of 10] show_nat.simps [of 20] show_nat.simps [of "Suc 0"] show_nat.simps [of 2] show_nat.simps [of 0]
      digit_char_def char_of_def bit_Suc_0_iff)
  have nul: "c_str ''near'' = ''near''" "c_str ''x'' = ''x''" "c_str ''frame'' = ''frame''" by (simp_all add: c_str_def)
  have nodes: "tree_nodes event_ns (NumId 1 10) (named (es_service near_event) (sample_pose 0 '''')) =
      [(StrId 2 ''10.near'', NumId 1 10, named ''near'' (sample_pose 0 '''')),
       (StrId 2 ''10.near.x'', StrId 2 ''10.near'', ElemPrim ''x'' (PInt32 0)),
       (StrId 2 ''10.near.frame'', StrId 2 ''10.near'', ElemPrim ''frame'' (PString ''''))]"
    "tree_nodes event_ns (NumId 1 20) (named (es_service near_event) (sample_pose 0 '''')) =
      [(StrId 2 ''20.near'', NumId 1 20, named ''near'' (sample_pose 0 '''')),
       (StrId 2 ''20.near.x'', StrId 2 ''20.near'', ElemPrim ''x'' (PInt32 0)),
       (StrId 2 ''20.near.frame'', StrId 2 ''20.near'', ElemPrim ''frame'' (PString ''''))]"
    by (simp_all add: sample_pose_def near_event_def child_id_def event_ns_def show_nat)
  show ?thesis
  proof (rule second_activation_stays_closed [OF std_server_ok std_api_ok])
    show "m_EventInfos near_event = [(NumId 1 10, sample_pose 0 ''''), (NumId 1 20, sample_pose 1 '''')]" by (simp add: near_event_def)
    show "nodes_at two_activations event_ns (NumId 1 10) (named (es_service near_event) (sample_pose 0 '''')) 0"
      unfolding nodes_at_def nodes by (simp add: two_activations_def sample_pose_def nul)
    show "nodes_at two_activations event_ns (NumId 1 20) (named (es_service near_event) (sample_pose 0 '''')) 0"
      unfolding nodes_at_def nodes by (simp add: two_activations_def sample_pose_def nul)
    show "fst ` set (tree_nodes event_ns (NumId 1 10) (named (es_service near_event) (sample_pose 0 ''''))) \<inter>
        fst ` set (tree_nodes event_ns (NumId 1 20) (named (es_service near_event) (sample_pose 0 ''''))) = {}"
      unfolding nodes by simp
  qed (simp_all add: near_event_def sample_pose_def dot_free_def fits_event_def above_def)
qed

subsection \<open>Reading events\<close>

text \<open>\<open>getNextEvent\<close> passes over the next event: it moves the reader one position behind the end, so that the
  first event that arrives while it waits is not delivered, and the call returns the one after it.\<close>

theorem next_event_skipped:
  assumes "\<not> invalid e" "buf_rep x (ev_subscription e) xs" "length xs + 2 < 2 ^ 63"
    and "e' = e \<lparr> ev_reader := seek ring_api (ev_subscription e) 0 REF_END (ev_reader e) \<rparr>"
  shows "getNextEvent (Some e) d0 = Inr None \<and> (\<exists>s1 s2 e3. buf_addData d1 (ev_subscription e) = Inr s1 \<and>
    read_event (e' \<lparr> ev_subscription := s1 \<rparr>) = Inr None \<and> buf_addData d2 s1 = Inr s2 \<and>
    read_event (e' \<lparr> ev_subscription := s2 \<rparr>) = Inr (Some (SMART_OK, d2, e3)))"
proof -
  let ?n = "length xs"
  obtain s1 where s1: "buf_addData d1 (ev_subscription e) = Inr s1" "buf_rep x s1 (xs @ [d1])"
    using buf_addData_rep [OF assms(2)] assms(3) by (metis add_lessD1 one_add_one add.assoc)
  obtain s2 where s2: "buf_addData d2 s1 = Inr s2" "buf_rep x s2 (xs @ [d1, d2])"
    using buf_addData_rep [OF s1(2)] assms(3) by auto
  let ?r = "ev_reader e \<lparr> m_dataFetchCounter := of_nat (Suc ?n) \<rparr>"
  have seek: "seek ring_api (ev_subscription e) 0 REF_END (ev_reader e) = ?r"
    using ring.counter [OF assms(2)] assms(3) by (simp add: seek_def Let_def)
  have waits: "reader_getData ring_api s ?r = Inr None" if "buf_rep x s ys" "length ys \<le> Suc ?n" for s ys
    using buf_getData_waits [OF that(1) _ that(2)] assms(3) by (simp add: reader_getData_def ring_api_def)
  have "getNextEvent (Some e) d0 = Inr None"
    using waits [OF assms(2)] assms(1) seek by (simp add: getNextEvent_def event_active_def read_event_def)
  moreover have "read_event (e' \<lparr> ev_subscription := s1 \<rparr>) = Inr None"
    using waits [OF s1(2)] seek assms(4) by (simp add: read_event_def)
  moreover have "\<exists>e3. read_event (e' \<lparr> ev_subscription := s2 \<rparr>) = Inr (Some (SMART_OK, d2, e3))"
  proof -
    have "Suc ?n < length (xs @ [d1, d2])" by simp
    from buf_getData_reads [OF s2(2) this] have "buf_getData (of_nat (Suc ?n)) s2 =
        Inr (Some (d2, capacity s2 < 1, of_nat (Suc ?n)))"
      using ring.cap_pos [OF s2(2)] max_absorb1 [of "Suc (Suc ?n) - capacity s2" "Suc ?n"] by (simp add: Let_def nth_append)
    then show ?thesis using seek assms(4) by (simp add: read_event_def reader_getData_def ring_api_def)
  qed
  ultimately show ?thesis using s1(1) s2(1) by blast
qed

theorem next_event_skipped_witness:
  "getNextEvent (Some \<lparr> dataNodeId = StrId 2 ''10.near'', ev_subscription = new_subscription (sample_pose 0 ''''), ev_reader = new_reader, invalid = False \<rparr>)
      (sample_pose 0 '''') = Inr None \<and>
    (\<exists>s1 s2 e3. buf_addData (sample_pose 1 '''') (ev_subscription \<lparr> dataNodeId = StrId 2 ''10.near'',
        ev_subscription = new_subscription (sample_pose 0 ''''), ev_reader = new_reader, invalid = False \<rparr>) = Inr s1 \<and>
      read_event (\<lparr> dataNodeId = StrId 2 ''10.near'', ev_subscription = new_subscription (sample_pose 0 ''''),
        ev_reader = seek ring_api (new_subscription (sample_pose 0 '''')) 0 REF_END new_reader, invalid = False \<rparr> \<lparr> ev_subscription := s1 \<rparr>) = Inr None \<and>
      buf_addData (sample_pose 2 '''') s1 = Inr s2 \<and>
      read_event (\<lparr> dataNodeId = StrId 2 ''10.near'', ev_subscription = new_subscription (sample_pose 0 ''''),
        ev_reader = seek ring_api (new_subscription (sample_pose 0 '''')) 0 REF_END new_reader, invalid = False \<rparr> \<lparr> ev_subscription := s2 \<rparr>) =
        Inr (Some (SMART_OK, sample_pose 2 '''', e3)))"
  by (rule next_event_skipped [where x = "sample_pose 0 ''''" and xs = "[]"])
    (simp_all add: buf_rep_def capacity_def new_subscription_def)

text \<open>A component can have one event server only: the methods with which events are activated all have the same
  node identifier, and the failure to add the second is ignored, so that the only activation method stays
  the one below the first server's object, served by the first server, and a client of the second finds
  none below the object it calls.\<close>

theorem one_event_server_per_component:
  assumes "\<And>m c s. meth (snd (addMethodNode E m c s)) = (if meth s (mn_id m) = None then (meth s)(mn_id m \<mapsto> (mn_parent m, c)) else meth s)"
    and "\<And>i p r q t x s. meth (snd (addObjectNode A i p r q t x s)) = meth s"
    and "api_ok a" "meth s (StrId 2 ''Activation method'') = None" "no_nul m" "no_nul n" "m \<noteq> n"
    and "new_event_server a N A E m u s = (es1, s1)" "new_event_server a N A E n v s1 = (es2, s2)"
  shows "meth s2 (StrId 2 ''Activation method'') = Some (StrId 2 (''85.'' @ m), m) \<and> m_EventInfos es2 = [] \<and> es_service es2 = n"
proof -
  have id: "mn_id (activation_method a i d) = StrId 2 ''Activation method''" "mn_parent (activation_method a i d) = i" for i d
    using assms(3) by (simp_all add: activation_method_def api_okD no_nul_def)
  have "String_alloc a (c_str (''85.'' @ m)) = ''85.'' @ m"
    using assms(3,5) by (simp add: api_okD no_nul_def)
  then have "meth s1 (StrId 2 ''Activation method'') = Some (StrId 2 (''85.'' @ m), m)"
    using assms(1,2,4,8) by (auto simp: new_event_server_def Let_def id)
  then show ?thesis using assms(1,2,9) by (auto simp: new_event_server_def Let_def id)
qed

definition method_api :: "(node_id \<Rightarrow> (node_id \<times> string) option) event_api" where
  "method_api = \<lparr> addActivation = (\<lambda>par r q t x s. ((0, NumId 1 50000), s)),
     addMethodNode = (\<lambda>m c s. if s (mn_id m) = None then (0, s(mn_id m \<mapsto> (mn_parent m, c))) else (0x805E0000, s)) \<rparr>"

definition idle_server :: "(node_id \<Rightarrow> (node_id \<times> string) option) server_api" where
  "idle_server = \<lparr> addObjectNode = (\<lambda>i p r q t x s. (0, s)), addVariableNode = (\<lambda>i p r q t x s. (0, s)),
     writeAccessLevel = (\<lambda>i l s. (0, s)), writeValue = (\<lambda>i v s. (0, s)) \<rparr>"

theorem one_event_server_per_component_witness:
  "snd (new_event_server std_api event_ns idle_server method_api ''far'' (sample_pose 0 '''')
      (snd (new_event_server std_api event_ns idle_server method_api ''near'' (sample_pose 0 '''') Map.empty)))
    (StrId 2 ''Activation method'') = Some (StrId 2 (''85.'' @ ''near''), ''near'')"
proof -
  let ?new = "new_event_server std_api event_ns idle_server method_api"
  let ?s1 = "snd (?new ''near'' (sample_pose 0 '''') Map.empty)"
  have "snd (?new ''far'' (sample_pose 0 '''') ?s1) (StrId 2 ''Activation method'') = Some (StrId 2 (''85.'' @ ''near''), ''near'') \<and>
    m_EventInfos (fst (?new ''far'' (sample_pose 0 '''') ?s1)) = [] \<and> es_service (fst (?new ''far'' (sample_pose 0 '''') ?s1)) = ''far''"
    by (rule one_event_server_per_component [where meth = "\<lambda>s. s" and s = Map.empty and m = "''near''" and n = "''far''",
        OF _ _ std_api_ok _ _ _ _ prod.collapse [symmetric] prod.collapse [symmetric]])
      (simp_all add: method_api_def idle_server_def no_nul_def)
  then show ?thesis by blast
qed

end
