(* ===== verification/StateMaster.thy ===== *)
theory StateMaster
  imports SlaveProperties Remote
begin

section \<open>The state master\<close>

text \<open>
  The communication objects of the state pattern (\<open>State/CommObjs.hpp\<close>, \<open>CommObjsSelfDescription.cpp\<close>),
  the query handler of the state slave as a handler of a query server, and \<open>StateMaster\<close>
  (\<open>State/StateMaster.cpp\<close>), whose operations are queries to that handler.
\<close>

subsection \<open>Requests and responses\<close>

record state_request =
  req_command :: "32 word"
  req_state_name :: string

record state_response =
  resp_status :: "32 word"
  state_list :: "string list"

definition new_request :: state_request where
  "new_request = \<lparr> req_command = 0, req_state_name = '''' \<rparr>"

definition new_response :: state_response where
  "new_response = \<lparr> resp_status = 0, state_list = [] \<rparr>"

text \<open>The numbers of \<open>StateCommand\<close>.\<close>

datatype state_command =
    STATE_CMD_ERROR
  | STATE_CMD_SET_STATE
  | STATE_CMD_GET_CURRENT_STATE
  | STATE_CMD_GET_MAIN_STATES
  | STATE_CMD_GET_SUB_STATES

definition command_number :: "state_command \<Rightarrow> 32 word" where
  "command_number c = (case c of STATE_CMD_ERROR \<Rightarrow> 0 | STATE_CMD_SET_STATE \<Rightarrow> 1 | STATE_CMD_GET_CURRENT_STATE \<Rightarrow> 2
     | STATE_CMD_GET_MAIN_STATES \<Rightarrow> 3 | STATE_CMD_GET_SUB_STATES \<Rightarrow> 4)"

text \<open>The self-descriptions, and the objects a description was read into.\<close>

definition describe_request :: "string \<Rightarrow> state_request \<Rightarrow> desc" where
  "describe_request name r = Complex name
    [ElemPrim ''command'' (PInt32 (req_command r)), ElemPrim ''state_name'' (PString (req_state_name r))]"

definition request_of :: "desc \<Rightarrow> state_request" where
  "request_of d = \<lparr> req_command = int32_value (members d ! 0), req_state_name = str_value (members d ! 1) \<rparr>"

definition describe_response :: "string \<Rightarrow> state_response \<Rightarrow> desc" where
  "describe_response name r = Complex name
    [ElemPrim ''status'' (PInt32 (resp_status r)),
     ElemArray ''states'' (ElemPrim '''' (PString '''')) (map (\<lambda>s. ElemPrim '''' (PString s)) (state_list r))]"

definition response_of :: "desc \<Rightarrow> state_response" where
  "response_of d = \<lparr> resp_status = int32_value (members d ! 0), state_list = map str_value (elements (members d ! 1)) \<rparr>"

subsection \<open>The slave as a query server\<close>

text \<open>
  The handler of the slave: the answers it gives while it runs are those it adds to the trace of the
  slave; \<open>code\<close> is the number of a status code.
\<close>

definition answers_of :: "(status \<Rightarrow> 32 word) \<Rightarrow> event list \<Rightarrow> (query_id \<times> desc) list" where
  "answers_of code es = concat (map (\<lambda>e. case e of
     Answer q st names \<Rightarrow> [(NumericId (int q), describe_response '''' \<lparr> resp_status = code st, state_list = names \<rparr>)]
   | _ \<Rightarrow> []) es)"

fun query_number :: "query_id \<Rightarrow> nat" where
  "query_number (NumericId i) = nat i"
| "query_number OtherId = 0"

definition slave_handler :: "(status \<Rightarrow> 32 word) \<Rightarrow> slave query_handler" where
  "slave_handler code i request s =
    (let r = request_of request;
       s' = handleQuery (query_number i) (sint (req_command r)) (req_state_name r) s
     in (answers_of code (drop (length (trace s)) (trace s')), s'))"

subsection \<open>The operations of the master\<close>

text \<open>
  The query client of the master is a \<open>query_api\<close>. A status that came as a number is cast back by
  \<open>decode\<close>. Each operation asks on a connection of its own.
\<close>

type_synonym 'w state_queries = "(state_request, state_response, 'w) query_api"

definition master_blocking :: "'w state_queries \<Rightarrow> bool \<Rightarrow> 'w \<Rightarrow> (status \<times> 'w) result" where
  "master_blocking Q b w = rbind (q_blocking Q b w) (\<lambda>(_, w'). Inr (SMART_OK, w'))"

definition master_setWaitState :: "'w state_queries \<Rightarrow> (32 word \<Rightarrow> status) \<Rightarrow> string \<Rightarrow> string \<Rightarrow> string \<Rightarrow> 'w \<Rightarrow> status \<times> 'w" where
  "master_setWaitState Q decode mainstate server service w =
    (case q_connect Q server service w of (st, w1) \<Rightarrow>
      if st = SMART_OK then
        (case q_query Q (new_request \<lparr> req_command := command_number STATE_CMD_SET_STATE, req_state_name := mainstate \<rparr>) new_response w1 of
          ((st1, resp), w2) \<Rightarrow> (if st1 = SMART_OK then decode (resp_status resp) else st1, q_disconnect Q w2))
      else (st, w1))"

text \<open>The name of the state is the last of the list, which must not be empty; it is cleared on an error.\<close>

definition master_getCurrentMainState :: "'w state_queries \<Rightarrow> (32 word \<Rightarrow> status) \<Rightarrow> string \<Rightarrow> string \<Rightarrow> string \<Rightarrow> 'w
    \<Rightarrow> (status \<times> string) result \<times> 'w" where
  "master_getCurrentMainState Q decode mainstate server service w =
    (case q_connect Q server service w of (st, w1) \<Rightarrow>
      if st = SMART_OK then
        (case q_query Q (new_request \<lparr> req_command := command_number STATE_CMD_GET_CURRENT_STATE \<rparr>) new_response w1 of
          ((st1, resp), w2) \<Rightarrow>
            (if st1 = SMART_OK then
               let st2 = decode (resp_status resp) in
               if st2 = SMART_OK then
                 (if state_list resp = [] then Inl UndefinedBehaviour else Inr (st2, last (state_list resp)))
               else Inr (st2, '''')
             else Inr (st1, mainstate),
             q_disconnect Q w2))
      else (Inr (st, mainstate), w1))"

definition master_getAllMainStates :: "'w state_queries \<Rightarrow> (32 word \<Rightarrow> status) \<Rightarrow> string list \<Rightarrow> string \<Rightarrow> string \<Rightarrow> 'w
    \<Rightarrow> (status \<times> string list) \<times> 'w" where
  "master_getAllMainStates Q decode mains server service w =
    (case q_connect Q server service w of (st, w1) \<Rightarrow>
      if st = SMART_OK then
        (case q_query Q (new_request \<lparr> req_command := command_number STATE_CMD_GET_MAIN_STATES \<rparr>) new_response w1 of
          ((st1, resp), w2) \<Rightarrow>
            (if st1 = SMART_OK then
               let st2 = decode (resp_status resp) in (st2, if st2 = SMART_OK then state_list resp else [])
             else (st1, mains),
             q_disconnect Q w2))
      else ((st, mains), w1))"

definition master_getSubStates :: "'w state_queries \<Rightarrow> (32 word \<Rightarrow> status) \<Rightarrow> string \<Rightarrow> string list \<Rightarrow> string \<Rightarrow> string \<Rightarrow> 'w
    \<Rightarrow> (status \<times> string list) \<times> 'w" where
  "master_getSubStates Q decode mainstate subs server service w =
    (case q_connect Q server service w of (st, w1) \<Rightarrow>
      if st = SMART_OK then
        (case q_query Q (new_request \<lparr> req_command := command_number STATE_CMD_GET_SUB_STATES, req_state_name := mainstate \<rparr>) new_response w1 of
          ((st1, resp), w2) \<Rightarrow>
            (if st1 = SMART_OK then
               let st2 = decode (resp_status resp) in (st2, if st2 = SMART_OK then state_list resp else [])
             else (st1, subs),
             q_disconnect Q w2))
      else ((st, subs), w1))"

subsection \<open>The master and the slave together\<close>

lemma new_request_fields [simp]: "req_command new_request = 0" "req_state_name new_request = ''''"
  by (simp_all add: new_request_def)

lemma describe_request_simps [simp]:
  "blank (describe_request n r)" "same_type (describe_request n r) (describe_request n q)" "well_typed (describe_request n r)"
  "sendable (describe_request n r)" "readable (describe_request n r)" "named m (describe_request n r) = describe_request m r"
  "request_of (describe_request n r) = r"
  by (simp_all add: describe_request_def request_of_def)

lemma describe_response_simps [simp]:
  "same_type (describe_response n r) (describe_response n q)" "blank (describe_response n new_response)"
  "well_typed (describe_response n r)" "readable (describe_response n r)" "named m (describe_response n r) = describe_response m r"
  "sendable (describe_response n r) \<longleftrightarrow> list_all no_nul (state_list r)"
  "response_of (describe_response n r) = r"
  by (simp_all add: describe_response_def response_of_def new_response_def list_all_iff comp_def)

interpretation slave_remote: remote "describe_request ''''" request_of new_request "\<lambda>_. True"
    "describe_response ''''" response_of new_response "\<lambda>r. list_all no_nul (state_list r)"
  by unfold_locales simp_all

abbreviation slave_connection :: "ua_api \<Rightarrow> (status \<Rightarrow> 32 word) \<Rightarrow> int \<Rightarrow> slave state_queries" where
  "slave_connection a code i \<equiv> remote_connection a (describe_request '''') new_request (describe_response '''') response_of
    new_response (slave_handler code) undisturbed i"

lemma slave_query_answered:
  assumes "api_ok a" "0 \<le> i" and h: "handleQuery (nat i) (sint (req_command r)) (req_state_name r) s = s'"
    and "trace s' = trace s @ [Answer (nat i) st names]" "list_all no_nul names"
  shows "slave_remote.ask a (slave_handler code) undisturbed i r resp s = ((SMART_OK, \<lparr> resp_status = code st, state_list = names \<rparr>), s')"
  using slave_remote.answered [where a = a and h = "slave_handler code" and i = i and x = r and s = s and s' = s' and ans = "[]"
      and y = "\<lparr> resp_status = code st, state_list = names \<rparr>" and resp = resp] assms
  by (simp add: slave_handler_def answers_of_def)

text \<open>C12: The master reads the slave: its operations, sent as requests over the network and served by the
  slave's handler, return the current main state, all main states beginning with Neutral, and the
  sub-states of a main state as the slave keeps them (names of main states without a NUL byte; sub-state
  names are returned up to theirs); while the slave does not run they return \<open>SMART_NOTACTIVATED\<close> and an
  empty result. None of the three changes the slave, apart from the answer it has sent.\<close>

theorem master_reads_slave:
  assumes "api_ok a" "0 \<le> i" "\<And>st. decode (code st) = st"
    and "no_nul (currentState s)" "\<forall>e \<in> set (stateList s). list_all no_nul (mainstates e)"
    and "find (\<lambda>e. sub_name e = ''nonneutral'') (stateList s) = Some e"
  shows "fst (master_getCurrentMainState (slave_connection a code i) decode old server service s) =
      Inr (if running s then (SMART_OK, currentState s) else (SMART_NOTACTIVATED, '''')) \<and>
    fst (master_getAllMainStates (slave_connection a code i) decode olds server service s) =
      (if running s then (SMART_OK, ''Neutral'' # mainstates e) else (SMART_NOTACTIVATED, [])) \<and>
    fst (master_getSubStates (slave_connection a code i) decode main olds server service s) =
      (if running s then (let subs = filter (\<lambda>e. main \<in> set (mainstates e)) (stateList s) in
         if subs = [] then (SMART_UNKNOWNSTATE, []) else (SMART_OK, map (\<lambda>e. c_str (sub_name e)) subs))
       else (SMART_NOTACTIVATED, [])) \<and>
    snd (master_getCurrentMainState (slave_connection a code i) decode old server service s) \<lparr> trace := trace s \<rparr> = s \<and>
    snd (master_getAllMainStates (slave_connection a code i) decode olds server service s) \<lparr> trace := trace s \<rparr> = s \<and>
    snd (master_getSubStates (slave_connection a code i) decode main olds server service s) \<lparr> trace := trace s \<rparr> = s"
proof -
  let ?C = "slave_connection a code i"
  let ?cur = "new_request \<lparr> req_command := command_number STATE_CMD_GET_CURRENT_STATE \<rparr>"
  let ?mains = "new_request \<lparr> req_command := command_number STATE_CMD_GET_MAIN_STATES \<rparr>"
  let ?subs = "new_request \<lparr> req_command := command_number STATE_CMD_GET_SUB_STATES, req_state_name := main \<rparr>"
  have no_nul: "list_all no_nul (''Neutral'' # mainstates e)" using assms(5,6) by (auto simp: find_Some_iff no_nul_def)
  have q: "slave_remote.ask a (slave_handler code) undisturbed i r new_response s = ((SMART_OK, \<lparr> resp_status = code st, state_list = names \<rparr>), emit [Answer (nat i) st names] s)"
    if "handleQuery (nat i) (sint (req_command r)) (req_state_name r) s = emit [Answer (nat i) st names] s" "list_all no_nul names"
    for r st names
    using slave_query_answered [OF assms(1,2) that(1) _ that(2)] by (simp add: emit_def)
  note defs = handleQuery_def command_number_def
  have cur: "slave_remote.ask a (slave_handler code) undisturbed i ?cur new_response s = (case hndGetCurrentState s '''' of (st, m) \<Rightarrow>
      ((SMART_OK, \<lparr> resp_status = code st, state_list = [m] \<rparr>), emit [Answer (nat i) st [m]] s))"
    using assms(4) by (auto simp: hndGetCurrentState_def defs no_nul_def intro!: q)
  then have current: "fst (master_getCurrentMainState ?C decode old server service s) =
      Inr (if running s then (SMART_OK, currentState s) else (SMART_NOTACTIVATED, ''''))"
    by (simp add: master_getCurrentMainState_def remote_connection_def hndGetCurrentState_def assms(3) Let_def)
  have kept: "snd (master_getCurrentMainState ?C decode old server service s) \<lparr> trace := trace s \<rparr> = s"
    using cur by (simp add: master_getCurrentMainState_def remote_connection_def hndGetCurrentState_def emit_def)
  have mains: "slave_remote.ask a (slave_handler code) undisturbed i ?mains new_response s = (case hndGetMainStates s [] of (st, ms) \<Rightarrow>
      ((SMART_OK, \<lparr> resp_status = code st, state_list = ms \<rparr>), emit [Answer (nat i) st ms] s))"
    using assms(6) no_nul by (auto simp: hndGetMainStates_def defs intro!: q)
  then have all: "fst (master_getAllMainStates ?C decode olds server service s) =
      (if running s then (SMART_OK, ''Neutral'' # mainstates e) else (SMART_NOTACTIVATED, []))"
    using assms(6) by (simp add: master_getAllMainStates_def remote_connection_def hndGetMainStates_def assms(3) Let_def)
  have ask_subs: "slave_remote.ask a (slave_handler code) undisturbed i ?subs new_response s = (case hndGetSubStates s main of (st, ms) \<Rightarrow>
      ((SMART_OK, \<lparr> resp_status = code st, state_list = ms \<rparr>), emit [Answer (nat i) st ms] s))"
    by (auto simp: hndGetSubStates_def defs Let_def list_all_iff intro!: q)
  then have subs: "fst (master_getSubStates ?C decode main olds server service s) =
      (if running s then (let subs = filter (\<lambda>e. main \<in> set (mainstates e)) (stateList s) in
         if subs = [] then (SMART_UNKNOWNSTATE, []) else (SMART_OK, map (\<lambda>e. c_str (sub_name e)) subs))
       else (SMART_NOTACTIVATED, []))"
    by (simp add: master_getSubStates_def remote_connection_def hndGetSubStates_def assms(3) Let_def)
  have kept_all: "snd (master_getAllMainStates ?C decode olds server service s) \<lparr> trace := trace s \<rparr> = s"
    using mains assms(6) by (simp add: master_getAllMainStates_def remote_connection_def hndGetMainStates_def emit_def)
  have kept_subs: "snd (master_getSubStates ?C decode main olds server service s) \<lparr> trace := trace s \<rparr> = s"
    using ask_subs by (simp add: master_getSubStates_def remote_connection_def hndGetSubStates_def emit_def Let_def)
  show ?thesis using current all subs kept kept_all kept_subs by (intro conjI)
qed

definition sample_statuses :: "status list" where
  "sample_statuses = [SMART_OK, SMART_ERROR, SMART_ERROR_COMMUNICATION, SMART_NOTACTIVATED, SMART_ACTIVATED, SMART_NOTALLOWED,
    SMART_CANCELLED, SMART_UNKNOWNSTATE, SMART_UNKNOWNPORT, SMART_PORTALREADYUSED, SMART_UNKNOWNCOMPONENT,
    SMART_SERVICEUNAVAILABLE, SMART_INCOMPATIBLESERVICE, SMART_WRONGID, SMART_NODATA, SMART_UNSUBSCRIBED]"

definition sample_code :: "status \<Rightarrow> 32 word" where
  "sample_code st = of_nat (length (takeWhile (\<lambda>x. x \<noteq> st) sample_statuses))"

definition sample_decode :: "32 word \<Rightarrow> status" where
  "sample_decode w = (if unat w < length sample_statuses then sample_statuses ! unat w else SMART_ERROR)"

lemma sample_codes: "sample_decode (sample_code st) = st"
  by (cases st) (simp_all add: sample_code_def sample_decode_def sample_statuses_def)

lemma sample_shape: "map shape (stateList sample_slave) = [(''init'', [''Init'']), (''neutral'', [''Neutral'']),
    (''fatalError'', [''FatalError'']), (''shutdown'', [''Shutdown'']), (''nonneutral'', [''Work'', ''Idle'']),
    (''motor'', [''Work'']), (''lamp'', [''Idle''])]"
  by code_simp

lemma sample_names:
  "\<forall>e \<in> set (stateList sample_slave). list_all no_nul (mainstates e)"
  "find (\<lambda>e. sub_name e = ''nonneutral'') (stateList sample_slave) = Some (stateList sample_slave ! 4)"
  "mainstates (stateList sample_slave ! 4) = [''Work'', ''Idle'']"
  "map (\<lambda>e. c_str (sub_name e)) (filter (\<lambda>e. ''Work'' \<in> set (mainstates e)) (stateList sample_slave)) = [''nonneutral'', ''motor'']"
  using sample_shape by (auto simp: map_eq_Cons_conv shape_def no_nul_def c_str_def)

theorem master_reads_slave_witness:
  "fst (master_getCurrentMainState (slave_connection std_api sample_code 5) sample_decode ''x'' ''s'' ''state'' sample_slave) =
      Inr (SMART_OK, ''Work'') \<and>
    fst (master_getAllMainStates (slave_connection std_api sample_code 5) sample_decode [''x''] ''s'' ''state'' sample_slave) =
      (SMART_OK, [''Neutral'', ''Work'', ''Idle'']) \<and>
    fst (master_getSubStates (slave_connection std_api sample_code 5) sample_decode ''Work'' [] ''s'' ''state'' sample_slave) =
      (SMART_OK, [''nonneutral'', ''motor''])"
proof -
  have subs: "filter (\<lambda>e. ''Work'' \<in> set (mainstates e)) (stateList sample_slave) \<noteq> []" using sample_names(4) by force
  have cur: "no_nul (currentState sample_slave)" using sample_eval by (simp add: no_nul_def)
  show ?thesis
    using master_reads_slave [where a = std_api and i = 5 and decode = sample_decode and code = sample_code and s = sample_slave
        and old = "''x''" and olds = "[''x'']" and server = "''s''" and service = "''state''" and main = "''Work''",
        OF std_api_ok _ sample_codes cur sample_names(1,2)]
      master_reads_slave [where a = std_api and i = 5 and decode = sample_decode and code = sample_code and s = sample_slave
        and old = "''x''" and olds = "[]" and server = "''s''" and service = "''state''" and main = "''Work''",
        OF std_api_ok _ sample_codes cur sample_names(1,2)]
      sample_names(3,4) sample_eval subs by (simp add: Let_def)
qed

text \<open>The update thread of the slave, which runs while the callback of the server waits.\<close>

definition update_thread :: "(status \<Rightarrow> 32 word) \<Rightarrow> slave \<Rightarrow> (query_id \<times> desc) list \<times> slave" where
  "update_thread code s = (let s' = exec OpThread s in (answers_of code (drop (length (trace s)) (trace s')), s'))"

abbreviation waiting_connection :: "ua_api \<Rightarrow> (status \<Rightarrow> 32 word) \<Rightarrow> int \<Rightarrow> slave state_queries" where
  "waiting_connection a code i \<equiv> remote_connection a (describe_request '''') new_request (describe_response '''') response_of
    new_response (slave_handler code) (update_thread code) i"

lemma answers_of_append [simp]: "answers_of code (xs @ ys) = answers_of code xs @ answers_of code ys"
  by (simp add: answers_of_def)

lemma answers_of_none: "answered t = {#} \<Longrightarrow> answers_of code t = []"
  by (auto simp: answered_def answers_of_def split: event.splits)

text \<open>C13: The master sets the state: on a slave that runs, with its update thread, in any main state but \<open>Init\<close>,
  \<open>Shutdown\<close> and \<open>FatalError\<close> (there requests are refused), a request to change to a main state the slave
  knows and a master may command (not a shutdown or a deactivation), sent over the network while nothing is
  queued and none of the sub-states to leave is acquired, is queued by the slave's handler, performed by the
  update thread while the server's callback waits, and answered; the master's call returns \<open>SMART_OK\<close> and
  leaves the slave in the main state that was asked for.\<close>

theorem master_sets_state:
  assumes "api_ok a" "0 \<le> i" "decode (code SMART_OK) = SMART_OK"
    and "reachable any_op s" "running s" "thread_running s" "stateQueue s = []"
    and "m \<notin> set not_commandable" "m \<noteq> ''Shutdown''" "\<not> deactivation m" "valid_main m (stateList s)"
    and "currentState s \<notin> {''Init'', ''Shutdown'', ''FatalError''}"
    and "\<forall>e \<in> set (stateList s). currentState s \<in> set (mainstates e) \<and> m \<notin> set (mainstates e) \<longrightarrow> cnt e = 0"
  shows "fst (master_setWaitState (waiting_connection a code i) decode m server service s) = SMART_OK \<and>
    currentState (snd (master_setWaitState (waiting_connection a code i) decode m server service s)) = m"
proof -
  let ?r = "new_request \<lparr> req_command := command_number STATE_CMD_SET_STATE, req_state_name := m \<rparr>"
  let ?s1 = "exec (OpQuery (nat i) 1 m) s" and ?s2 = "exec OpThread (exec (OpQuery (nat i) 1 m) s)"
  obtain t where round: "trace ?s1 = trace s" "currentState ?s2 = m" "answered t = {#}"
      "trace ?s2 = trace s @ t @ [Answer (nat i) SMART_OK []]"
    using request_round [OF assms(4-13)] by blast
  have "slave_handler code (NumericId i) (describe_request '''' ?r) s = ([], ?s1)"
    using round(1) by (simp add: slave_handler_def command_number_def answers_of_def)
  moreover have "update_thread code ?s1 = ([(NumericId i, describe_response '''' \<lparr> resp_status = code SMART_OK, state_list = [] \<rparr>)], ?s2)"
    using round answers_of_none [OF round(3), of code] assms(2) by (simp add: update_thread_def answers_of_def)
  ultimately have "slave_remote.ask a (slave_handler code) (update_thread code) i ?r new_response s =
      ((SMART_OK, \<lparr> resp_status = code SMART_OK, state_list = [] \<rparr>), ?s2)"
    using slave_remote.answered_meanwhile [where h = "slave_handler code" and others = "update_thread code", OF assms(1)] by simp
  then show ?thesis using round(2) assms(3) by (simp add: master_setWaitState_def remote_connection_def)
qed

theorem master_sets_state_witness:
  "fst (master_setWaitState (waiting_connection std_api sample_code 5) sample_decode ''Work'' ''s'' ''state'' (exec OpThread queued_slave)) = SMART_OK \<and>
    currentState (snd (master_setWaitState (waiting_connection std_api sample_code 5) sample_decode ''Work'' ''s'' ''state'' (exec OpThread queued_slave))) = ''Work''"
proof (rule master_sets_state)
  show "reachable any_op (exec OpThread queued_slave)"
    by (rule reachable.step) (use reachable_mono [OF queued_reachable] in \<open>simp_all add: any_op_def\<close>)
qed (use queued0_eval sample_codes in \<open>simp_all add: list_all_iff not_commandable_def deactivation_def\<close>)

text \<open>A request with an unknown command is never answered: the handler of the slave gives no answer, and
  unless some other thread answers under the number drawn for this call, the callback of the server spins
  for ever, whatever the state of the slave.\<close>

theorem unknown_command_hangs:
  assumes "api_ok a" "req_command r \<notin> {1, 2, 3, 4}" "m i = None" "first_answer i later = None"
  shows "methodCallback a (describe_request '''' new_request) (slave_handler code) i
      (variants_of (describe_request '''' r)) outArray later (m, s) = None"
proof -
  have num: "req_command r = of_int k" if "sint (req_command r) = k" for k
    using that by (metis of_int_sint scast_id)
  have "sint (req_command r) \<noteq> 1" "sint (req_command r) \<noteq> 2" "sint (req_command r) \<noteq> 3" "sint (req_command r) \<noteq> 4"
    using assms(2) num by force+
  then have "slave_handler code (NumericId i) (describe_request '''' r) s = ([], s)"
    by (simp add: slave_handler_def answers_of_def handleQuery_def)
  then show ?thesis
    using slave_remote.unanswered [where a = a and x = r and h = "slave_handler code" and i = i and s = s] assms(1,3,4) by simp
qed

theorem unknown_command_hangs_witness:
  "methodCallback std_api (describe_request '''' new_request) (slave_handler sample_code) 5
     (variants_of (describe_request '''' new_request)) [null_variant, null_variant] []
     (Map.empty, sample_slave) = None"
  by (rule unknown_command_hangs) simp_all

end
