(* ===== verification/Parameter.thy ===== *)
theory Parameter
  imports Remote
begin

section \<open>Parameters\<close>

text \<open>
  The parameter pattern: requests, which keep texts under keys and read them back as values
  (\<open>DefaultCommObjects/ParameterRequest.hpp\<close> and \<open>.cpp\<close>, \<open>CommParameterIDL\<close>), responses, their
  descriptions, the master (\<open>OPCUA/Client/ParameterMaster.cpp\<close>) and the slave
  (\<open>OPCUA/Server/ParameterSlave.cpp\<close>).
\<close>

subsection \<open>Formatted input and output\<close>

text \<open>
  \<open>s << value\<close> for an integer, and \<open>s >> value\<close> from a text. The result of the extraction says whether
  it succeeded and gives the value: unchanged if only white space is left, 0 if there is no number, the
  nearest bound if the number is out of range. Digits are read up to the first other character.
\<close>

definition show_int :: "int \<Rightarrow> string" where
  "show_int i = (if i < 0 then CHR ''-'' # show_nat (nat (- i)) else show_nat (nat i))"

definition is_space :: "char \<Rightarrow> bool" where
  "is_space c \<longleftrightarrow> (of_char c :: nat) \<in> {9, 10, 11, 12, 13, 32}"

definition is_digit :: "char \<Rightarrow> bool" where
  "is_digit c \<longleftrightarrow> 48 \<le> (of_char c :: nat) \<and> (of_char c :: nat) < 58"

definition digits_value :: "string \<Rightarrow> nat" where
  "digits_value ds = foldl (\<lambda>n c. 10 * n + (of_char c - 48)) 0 ds"

definition split_sign :: "string \<Rightarrow> bool \<times> string" where
  "split_sign t = (case t of [] \<Rightarrow> (False, t)
     | c # r \<Rightarrow> if c = CHR ''-'' then (True, r) else if c = CHR ''+'' then (False, r) else (False, t))"

definition extract_integer :: "int \<Rightarrow> int \<Rightarrow> string \<Rightarrow> int \<Rightarrow> bool \<times> int" where
  "extract_integer lo hi txt old =
    (let t = dropWhile is_space txt in
     if t = '''' then (False, old)
     else case split_sign t of (neg, u) \<Rightarrow>
       let ds = takeWhile is_digit u in
       if ds = '''' then (False, 0)
       else let n = int (digits_value ds); i = (if neg then - n else n) in
         if i < lo then (False, lo) else if i > hi then (False, hi) else (True, i))"

definition extract_int :: "string \<Rightarrow> 32 word \<Rightarrow> bool \<times> 32 word" where
  "extract_int txt old = map_prod id word_of_int (extract_integer (- (2 ^ 31)) (2 ^ 31 - 1) txt (sint old))"

definition extract_bool :: "string \<Rightarrow> bool \<Rightarrow> bool \<times> bool" where
  "extract_bool txt old =
    (if dropWhile is_space txt = '''' then (False, old)
     else case extract_integer (- (2 ^ 63)) (2 ^ 63 - 1) txt 0 of (ok, l) \<Rightarrow> (ok \<and> (l = 0 \<or> l = 1), l \<noteq> 0))"

subsection \<open>Requests\<close>

record name_value =
  nv_key :: string
  nv_values :: "string list"

type_synonym parameter_request = "name_value list"

text \<open>\<open>set\<close>, on the text the value was written to; writing to a string stream does not fail.\<close>

fun set_text :: "string \<Rightarrow> string \<Rightarrow> parameter_request \<Rightarrow> parameter_request" where
  "set_text key txt [] = [\<lparr> nv_key = c_str key, nv_values = [c_str txt] \<rparr>]"
| "set_text key txt (nv # nvs) =
    (if key = c_str (nv_key nv) then nv \<lparr> nv_values := nv_values nv @ [c_str txt] \<rparr> # nvs else nv # set_text key txt nvs)"

definition setString :: "string \<Rightarrow> string \<Rightarrow> parameter_request \<Rightarrow> int \<times> parameter_request" where
  "setString key value d = (0, set_text key value d)"

definition setInteger :: "string \<Rightarrow> 32 word \<Rightarrow> parameter_request \<Rightarrow> int \<times> parameter_request" where
  "setInteger key value d = (0, set_text key (show_int (sint value)) d)"

definition setBoolean :: "string \<Rightarrow> bool \<Rightarrow> parameter_request \<Rightarrow> int \<times> parameter_request" where
  "setBoolean key value d = (0, set_text key (if value then ''1'' else ''0'') d)"

text \<open>
  The text of a floating-point number, and the number a text gives, are the stream's: \<open>show_double\<close>,
  \<open>extract_double\<close>.
\<close>

definition setDouble :: "('d \<Rightarrow> string) \<Rightarrow> string \<Rightarrow> 'd \<Rightarrow> parameter_request \<Rightarrow> int \<times> parameter_request" where
  "setDouble show_double key value d = (0, set_text key (show_double value) d)"

definition find_values :: "string \<Rightarrow> parameter_request \<Rightarrow> string list option" where
  "find_values key d = map_option nv_values (find (\<lambda>nv. key = c_str (nv_key nv)) d)"

text \<open>
  \<open>get\<close> and its specialisation for strings: the value last set. The last element of an empty list of
  values is undefined.
\<close>

definition get_value :: "(string \<Rightarrow> 'v \<Rightarrow> bool \<times> 'v) \<Rightarrow> string \<Rightarrow> parameter_request \<Rightarrow> 'v \<Rightarrow> (int \<times> 'v) result" where
  "get_value extract key d value =
    (case find_values key d of
      None \<Rightarrow> Inr (-1, value)
    | Some vs \<Rightarrow> if vs = [] then Inl UndefinedBehaviour
        else case extract (c_str (last vs)) value of (ok, v) \<Rightarrow> Inr (if ok then 0 else -1, v))"

definition getString :: "string \<Rightarrow> parameter_request \<Rightarrow> string \<Rightarrow> (int \<times> string) result" where
  "getString key d value =
    (case find_values key d of
      None \<Rightarrow> Inr (-1, value)
    | Some vs \<Rightarrow> if vs = [] then Inl UndefinedBehaviour else Inr (0, c_str (last vs)))"

definition getInteger :: "string \<Rightarrow> parameter_request \<Rightarrow> 32 word \<Rightarrow> (int \<times> 32 word) result" where
  "getInteger = get_value extract_int"

definition getBoolean :: "string \<Rightarrow> parameter_request \<Rightarrow> bool \<Rightarrow> (int \<times> bool) result" where
  "getBoolean = get_value extract_bool"

definition getDouble :: "(string \<Rightarrow> 'd \<Rightarrow> bool \<times> 'd) \<Rightarrow> string \<Rightarrow> parameter_request \<Rightarrow> 'd \<Rightarrow> (int \<times> 'd) result" where
  "getDouble extract_double = get_value extract_double"

text \<open>
  \<open>getList\<close>: each value is extracted into a variable of the loop, \<open>v\<close>, and not added to the list. The
  specialisation for strings appends the values.
\<close>

definition get_list :: "(string \<Rightarrow> 'v \<Rightarrow> bool \<times> 'v) \<Rightarrow> 'v \<Rightarrow> string \<Rightarrow> parameter_request \<Rightarrow> 'v list \<Rightarrow> int \<times> 'v list" where
  "get_list extract v key d valueList =
    (case find_values key d of
      None \<Rightarrow> (-1, valueList)
    | Some vs \<Rightarrow> (if list_all (\<lambda>txt. fst (extract (c_str txt) v)) vs then 0 else -1, valueList))"

definition getStringList :: "string \<Rightarrow> parameter_request \<Rightarrow> string list \<Rightarrow> int \<times> string list" where
  "getStringList key d valueList =
    (case find_values key d of None \<Rightarrow> (-1, valueList) | Some vs \<Rightarrow> (0, valueList @ map c_str vs))"

definition getIntegerList :: "string \<Rightarrow> parameter_request \<Rightarrow> 32 word list \<Rightarrow> int \<times> 32 word list" where
  "getIntegerList = get_list extract_int 0"

definition getBooleanList :: "string \<Rightarrow> parameter_request \<Rightarrow> bool list \<Rightarrow> int \<times> bool list" where
  "getBooleanList = get_list extract_bool False"

definition getDoubleList :: "(string \<Rightarrow> 'd \<Rightarrow> bool \<times> 'd) \<Rightarrow> 'd \<Rightarrow> string \<Rightarrow> parameter_request \<Rightarrow> 'd list \<Rightarrow> int \<times> 'd list" where
  "getDoubleList extract_double v = get_list extract_double v"

text \<open>
  The getters that return the value; \<open>junk\<close> is what an uninitialised variable holds. The tag is the
  parameter \<open>slot\<close>.
\<close>

definition getString_value :: "string \<Rightarrow> parameter_request \<Rightarrow> string result" where
  "getString_value key d = rbind (getString key d '''') (\<lambda>(_, v). Inr v)"

definition getInteger_value :: "32 word \<Rightarrow> string \<Rightarrow> parameter_request \<Rightarrow> 32 word result" where
  "getInteger_value junk key d = rbind (getInteger key d junk) (\<lambda>(_, v). Inr v)"

definition getBoolean_value :: "bool \<Rightarrow> string \<Rightarrow> parameter_request \<Rightarrow> bool result" where
  "getBoolean_value junk key d = rbind (getBoolean key d junk) (\<lambda>(_, v). Inr v)"

definition getStringList_value :: "string \<Rightarrow> parameter_request \<Rightarrow> string list" where
  "getStringList_value key d = snd (getStringList key d [])"

definition getDouble_value :: "(string \<Rightarrow> 'd \<Rightarrow> bool \<times> 'd) \<Rightarrow> 'd \<Rightarrow> string \<Rightarrow> parameter_request \<Rightarrow> 'd result" where
  "getDouble_value extract_double junk key d = rbind (getDouble extract_double key d junk) (\<lambda>(_, v). Inr v)"

definition getIntegerList_value :: "string \<Rightarrow> parameter_request \<Rightarrow> 32 word list" where
  "getIntegerList_value key d = snd (getIntegerList key d [])"

definition getDoubleList_value :: "(string \<Rightarrow> 'd \<Rightarrow> bool \<times> 'd) \<Rightarrow> 'd \<Rightarrow> string \<Rightarrow> parameter_request \<Rightarrow> 'd list" where
  "getDoubleList_value extract_double v key d = snd (getDoubleList extract_double v key d [])"

definition getBooleanList_value :: "string \<Rightarrow> parameter_request \<Rightarrow> bool list" where
  "getBooleanList_value key d = snd (getBooleanList key d [])"

definition getTag :: "parameter_request \<Rightarrow> string result" where
  "getTag d = getString_value ''slot'' d"

definition setTag :: "string \<Rightarrow> parameter_request \<Rightarrow> parameter_request" where
  "setTag value d = snd (setString ''slot'' value d)"

definition to_ostream :: "parameter_request \<Rightarrow> string" where
  "to_ostream d = ''CommParameterRequest('' @
     concat (map (\<lambda>nv. ''(['' @ nv_key nv @ ''] '' @ concat (map (\<lambda>v. v @ '' '') (nv_values nv)) @ '')'') d) @ '')''"

subsection \<open>Responses\<close>

text \<open>The response is a number; its literals, and the text of a number.\<close>

datatype response_type = BUSY | INVALID | OK

definition literal_value :: "response_type \<Rightarrow> 32 word" where
  "literal_value t = (case t of BUSY \<Rightarrow> 0 | INVALID \<Rightarrow> 1 | OK \<Rightarrow> 2)"

record parameter_response =
  response :: "32 word"

definition setResponse :: "response_type \<Rightarrow> parameter_response \<Rightarrow> parameter_response" where
  "setResponse t r = r \<lparr> response := literal_value t \<rparr>"

definition response_text :: "parameter_response \<Rightarrow> string" where
  "response_text r = (if response r = 0 then ''ParamResponseType::BUSY''
     else if response r = 1 then ''ParamResponseType::INVALID''
     else if response r = 2 then ''ParamResponseType::OK'' else ''UNKNOWN!'')"

subsection \<open>Descriptions\<close>

definition describe_name_value :: "name_value \<Rightarrow> desc" where
  "describe_name_value nv = Complex ''''
    [ElemPrim ''key'' (PString (nv_key nv)),
     ElemArray ''value'' (ElemPrim '''' (PString '''')) (map (\<lambda>v. ElemPrim '''' (PString v)) (nv_values nv))]"

definition describe_parameters :: "string \<Rightarrow> parameter_request \<Rightarrow> desc" where
  "describe_parameters name d = Complex name [Complex ''data''
    [ElemArray ''items'' (describe_name_value \<lparr> nv_key = '''', nv_values = [] \<rparr>) (map describe_name_value d)]]"

definition name_value_of :: "desc \<Rightarrow> name_value" where
  "name_value_of e = \<lparr> nv_key = str_value (members e ! 0), nv_values = map str_value (elements (members e ! 1)) \<rparr>"

definition parameters_of :: "desc \<Rightarrow> parameter_request" where
  "parameters_of e = map name_value_of (elements (members (members e ! 0) ! 0))"

definition describe_param_response :: "string \<Rightarrow> parameter_response \<Rightarrow> desc" where
  "describe_param_response name r = Complex name [Complex ''data'' [ElemPrim ''response'' (PInt32 (response r))]]"

definition param_response_of :: "desc \<Rightarrow> parameter_response" where
  "param_response_of e = \<lparr> response = int32_value (members (members e ! 0) ! 0) \<rparr>"

subsection \<open>Master and slave\<close>

text \<open>The master: without a naming service it connects by a fixed name.\<close>

definition use_ns :: "string \<Rightarrow> bool" where
  "use_ns component = (component \<noteq> ''NoNamingService'')"

definition sendParameterWait :: "(parameter_request, parameter_response, 'w) query_api \<Rightarrow> bool \<Rightarrow> parameter_request
    \<Rightarrow> parameter_response \<Rightarrow> string \<Rightarrow> string \<Rightarrow> 'w \<Rightarrow> (status \<times> parameter_response) \<times> 'w" where
  "sendParameterWait Q ns request resp comp_name service_name w =
    (case q_connect Q (if ns then comp_name else ''NoNamingService'') service_name w of (st, w1) \<Rightarrow>
      if st = SMART_OK then
        (case q_query Q request resp w1 of (r, w2) \<Rightarrow> (r, q_disconnect Q w2))
      else if st = SMART_SERVICEUNAVAILABLE \<or> st = SMART_INCOMPATIBLESERVICE then ((SMART_UNKNOWNCOMPONENT, resp), w1)
      else if st = SMART_ERROR_COMMUNICATION then ((SMART_ERROR_COMMUNICATION, resp), w1)
      else ((SMART_ERROR, resp), w1))"

text \<open>The handler of the slave, around the handler of the user.\<close>

definition parameter_handler :: "(parameter_request \<Rightarrow> 's \<Rightarrow> parameter_response \<times> 's) \<Rightarrow> 's query_handler" where
  "parameter_handler handleParameter i request s =
    (case handleParameter (parameters_of request) s of (ans, s') \<Rightarrow> ([(i, describe_param_response '''' ans)], s'))"

text \<open>
  The constructor of the slave. Members are initialised in the order of their declaration, whatever the
  order of the initialisers; the initialiser of each reads the members in \<open>needs\<close>.
\<close>

datatype ps_member = PS_mutex | PS_component | PS_query_server | PS_query_handler | PS_thread_handler

definition declaration_order :: "ps_member list" where
  "declaration_order = [PS_mutex, PS_component, PS_query_server, PS_query_handler, PS_thread_handler]"

definition initialiser_order :: "ps_member list" where
  "initialiser_order = [PS_component, PS_query_handler, PS_thread_handler, PS_query_server]"

fun needs :: "ps_member \<Rightarrow> ps_member list" where
  "needs PS_query_server = [PS_thread_handler]"
| "needs PS_thread_handler = [PS_component, PS_query_handler]"
| "needs _ = []"

fun initialise :: "ps_member list \<Rightarrow> ps_member list \<Rightarrow> ps_member list result" where
  "initialise built [] = Inr built"
| "initialise built (m # ms) = (if set (needs m) \<subseteq> set built then initialise (built @ [m]) ms else Inl UndefinedBehaviour)"

definition new_parameter_slave :: "ps_member list result" where
  "new_parameter_slave = initialise [] declaration_order"

subsection \<open>Values and texts\<close>

lemma digit_char_code: "n < 10 \<Longrightarrow> of_char (digit_char n) = 48 + n"
  by (simp add: digit_char_def)

lemma show_nat_digits: "list_all is_digit (show_nat n) \<and> show_nat n \<noteq> '''' \<and> digits_value (show_nat n) = n"
proof (induction n rule: show_nat.induct)
  case (1 n)
  show ?case
  proof (cases "n < 10")
    case True
    then show ?thesis by (simp add: show_nat.simps [of n] is_digit_def digits_value_def digit_char_code)
  next
    case False
    have "n mod 10 < 10" by simp
    then show ?thesis using "1.IH" [OF False] False
      by (simp add: show_nat.simps [of n] is_digit_def digits_value_def digit_char_code)
  qed
qed

lemma is_digit_facts: "is_digit c \<Longrightarrow> \<not> is_space c \<and> c \<noteq> CHR ''-'' \<and> c \<noteq> CHR ''+'' \<and> c \<noteq> CHR 0x00"
  by (auto simp: is_digit_def is_space_def)

lemma show_nat_head:
  "dropWhile is_space (show_nat n) = show_nat n" "split_sign (show_nat n) = (False, show_nat n)"
  "takeWhile is_digit (show_nat n) = show_nat n" "no_nul (show_nat n)"
  using show_nat_digits [of n]
  by (cases "show_nat n"; auto simp: split_sign_def list_all_iff no_nul_def dest: is_digit_facts)+

lemma extract_show_int:
  assumes "lo \<le> i" "i \<le> hi"
  shows "extract_integer lo hi (show_int i) old = (True, i)"
proof (cases "i < 0")
  case True
  then show ?thesis using assms show_nat_digits [of "nat (- i)"]
    by (simp add: extract_integer_def show_int_def split_sign_def is_space_def Let_def show_nat_head)
next
  case False
  then show ?thesis using assms show_nat_digits [of "nat i"]
    by (simp add: extract_integer_def show_int_def Let_def show_nat_head)
qed

lemma no_nul_show_int: "no_nul (show_int i)"
  using show_nat_head(4) by (simp add: show_int_def no_nul_def)

lemma extract_int_show: "extract_int (show_int (sint w)) old = (True, w)"
proof -
  have "- (2 ^ 31) \<le> sint w" "sint w \<le> 2 ^ 31 - 1" using sint_greater_eq [of w] sint_lt [of w] by simp_all
  then have "extract_integer (- (2 ^ 31)) (2 ^ 31 - 1) (show_int (sint w)) (sint old) = (True, sint w)" by (rule extract_show_int)
  then show ?thesis by (simp add: extract_int_def)
qed

subsection \<open>Values under keys\<close>

lemma find_values_set:
  "no_nul k \<Longrightarrow> find_values k' (set_text k t d) = (if k' = k
     then Some (case find_values k d of None \<Rightarrow> [c_str t] | Some vs \<Rightarrow> vs @ [c_str t]) else find_values k' d)"
  by (induction d) (auto simp: find_values_def)

lemma find_values_sets:
  assumes "\<forall>(k, v) \<in> set kvs. no_nul k"
  shows "find_values k (fold (\<lambda>(k, v) d. set_text k v d) kvs d) =
    (let vs = map (c_str \<circ> snd) (filter (\<lambda>(k', v). k' = k) kvs) in
     if vs = [] then find_values k d else Some (case find_values k d of None \<Rightarrow> vs | Some us \<Rightarrow> us @ vs))"
  using assms
proof (induction kvs arbitrary: d)
  case (Cons kv kvs)
  obtain k' v where kv: "kv = (k', v)" by (cases kv)
  show ?case using Cons.IH [of "set_text k' v d"] Cons.prems
    by (auto simp: kv find_values_set Let_def filter_empty_conv split: option.splits)
qed (simp add: Let_def)

text \<open>C36: A parameter request keeps what was set: after any sequence of settings, reading the strings of a key
  gives all the values set under it, in order, and reading the string gives the last of them; a key
  that was not set is reported by -1, and the variable to fill in keeps its value. Keys and values are
  without NUL characters.\<close>

theorem parameters_kept:
  assumes "\<forall>(k, v) \<in> set kvs. no_nul k \<and> no_nul v"
  shows "let d = fold (\<lambda>(k, v) d. snd (setString k v d)) kvs []; vs = map snd (filter (\<lambda>(k', v). k' = key) kvs) in
    getStringList key d l = (if vs = [] then (-1, l) else (0, l @ vs)) \<and>
    getString key d old = Inr (if vs = [] then (-1, old) else (0, last vs))"
proof -
  let ?vs = "map snd (filter (\<lambda>(k', v). k' = key) kvs)"
  have keys: "\<forall>(k, v) \<in> set kvs. no_nul k" using assms by auto
  have clean: "map (c_str \<circ> snd) (filter (\<lambda>(k', v). k' = key) kvs) = ?vs" "list_all no_nul ?vs"
    using assms by (auto simp: list_all_iff)
  have "map c_str ?vs = ?vs" using clean(2) by (intro map_idI) (auto simp: list_all_iff)
  moreover have "c_str (last ?vs) = last ?vs" if "?vs \<noteq> []"
    using clean(2) last_in_set [OF that] unfolding list_all_iff by (blast intro: c_str_id)
  ultimately have cs: "map c_str ?vs = ?vs" "?vs \<noteq> [] \<Longrightarrow> c_str (last ?vs) = last ?vs" by blast+
  have "find_values key (fold (\<lambda>(k, v) d. set_text k v d) kvs []) = (if ?vs = [] then None else Some ?vs)"
    using find_values_sets [OF keys, of key "[]"] unfolding clean(1) by (simp add: find_values_def Let_def)
  then show ?thesis using cs unfolding Let_def setString_def snd_conv getStringList_def getString_def
    by (simp del: map_map)
qed

theorem parameters_kept_witness:
  "let d = fold (\<lambda>(k, v) d. snd (setString k v d)) [(''map'', ''a''), (''speed'', ''1''), (''map'', ''b'')] [] in
    getStringList ''map'' d [''x''] = (0, [''x'', ''a'', ''b'']) \<and> getString ''map'' d ''x'' = Inr (0, ''b'')"
  using parameters_kept [of "[(''map'', ''a''), (''speed'', ''1''), (''map'', ''b'')]" "''map''" "[''x'']" "''x''"]
  by (simp add: no_nul_def Let_def)

text \<open>An integer parameter is read back as it was set, whatever 32-bit value it has and whatever the request
  held before: the text it is kept as is parsed to the same number.\<close>

theorem integer_parameter_roundtrip:
  assumes "no_nul key"
  shows "getInteger key (snd (setInteger key w d)) old = Inr (0, w)"
  using find_values_set [OF assms, of key "show_int (sint w)" d] extract_int_show [of w old] no_nul_show_int [of "sint w"]
  by (simp add: getInteger_def setInteger_def get_value_def split: option.splits)

theorem integer_parameter_roundtrip_witness:
  "getInteger ''x'' (snd (setInteger ''x'' (- 2147483648) [\<lparr> nv_key = ''x'', nv_values = [''7''] \<rparr>])) 5 = Inr (0, - 2147483648)"
  by (rule integer_parameter_roundtrip) (simp add: no_nul_def)

lemma get_value_set:
  assumes "no_nul key" "no_nul txt"
  shows "get_value extract key (set_text key txt d) old = (case extract txt old of (ok, v) \<Rightarrow> Inr (if ok then 0 else -1, v))"
  using find_values_set [OF assms(1), of key _ d] assms(2) by (auto simp: get_value_def split: option.splits)

lemma boolean_parameter_roundtrip:
  assumes "no_nul key"
  shows "getBoolean key (snd (setBoolean key b d)) old = Inr (0, b)"
  using get_value_set [OF assms, of "if b then ''1'' else ''0''" extract_bool d old]
  by (cases b) (simp_all add: getBoolean_def setBoolean_def extract_bool_def extract_integer_def split_sign_def is_space_def is_digit_def
      digits_value_def no_nul_def)

lemma double_parameter_read:
  assumes "no_nul key" "no_nul (show_double x)" "extract_double (show_double x) old = (True, y)"
  shows "getDouble extract_double key (snd (setDouble show_double key x d)) old = Inr (0, y)"
  using assms(3) by (simp add: getDouble_def setDouble_def get_value_set [OF assms(1,2)])

text \<open>The getters that return a list return none, whatever was set.\<close>

lemma list_values_empty:
  "getIntegerList_value key d = []" "getDoubleList_value extract_double v key d = []" "getBooleanList_value key d = []"
  by (simp_all add: getIntegerList_value_def getIntegerList_def getDoubleList_value_def getDoubleList_def
      getBooleanList_value_def getBooleanList_def get_list_def split: option.split)

text \<open>A list of integers set under a key cannot be read: \<open>getIntegerList\<close> reports success and leaves the
  list of the caller as it is.\<close>

theorem integer_list_lost:
  assumes "no_nul key" "ws \<noteq> []"
  shows "getIntegerList key (fold (\<lambda>w d. snd (setInteger key w d)) ws []) l = (0, l)"
proof -
  let ?kvs = "map (\<lambda>w. (key, show_int (sint w))) ws"
  have fold: "fold (\<lambda>w d. snd (setInteger key w d)) ws d = fold (\<lambda>(k, v) d. set_text k v d) ?kvs d" for d
    by (induction ws arbitrary: d) (simp_all add: setInteger_def)
  have "\<forall>(k, v) \<in> set ?kvs. no_nul k" using assms(1) by auto
  from find_values_sets [OF this, of key "[]"]
  have "find_values key (fold (\<lambda>(k, v) d. set_text k v d) ?kvs []) = Some (map (\<lambda>w. show_int (sint w)) ws)"
    using assms(2) no_nul_show_int by (simp add: find_values_def Let_def filter_map comp_def)
  then show ?thesis using no_nul_show_int extract_int_show
    by (simp add: getIntegerList_def get_list_def fold list_all_iff)
qed

theorem integer_list_lost_witness:
  "getIntegerList ''x'' (fold (\<lambda>w d. snd (setInteger ''x'' w d)) [1, 2] []) [] = (0, [])"
  by (rule integer_list_lost) (simp_all add: no_nul_def)

subsection \<open>Over the network\<close>

lemma describe_name_value_simps [simp]:
  "blank (describe_name_value \<lparr> nv_key = '''', nv_values = [] \<rparr>)" "same_type (describe_name_value x) (describe_name_value y)"
  "well_typed (describe_name_value x)" "readable_elem (describe_name_value x)"
  "sendable_elem (describe_name_value x) \<longleftrightarrow> list_all no_nul (nv_values x)"
  "name_value_of (describe_name_value x) = x"
  by (simp_all add: describe_name_value_def name_value_of_def list_all_iff comp_def)

interpretation parameter_remote: remote "describe_parameters ''''" parameters_of "[]" "list_all (\<lambda>nv. list_all no_nul (nv_values nv))"
    "describe_param_response ''''" param_response_of "\<lparr> response = 0 \<rparr>" "\<lambda>_. True"
  by unfold_locales (simp_all add: describe_parameters_def parameters_of_def describe_param_response_def param_response_of_def
      list_all_iff comp_def)

text \<open>
  The connection to a slave: its handler runs on a thread of its own, behind the queue \<open>Q\<close>; \<open>connect\<close> is what
  connecting does.
\<close>

abbreviation parameter_connection :: "ua_api \<Rightarrow> 'b active_queue \<Rightarrow> (string \<Rightarrow> string \<Rightarrow> 'b \<times> 's \<Rightarrow> status \<times> 'b \<times> 's)
    \<Rightarrow> (parameter_request \<Rightarrow> 's \<Rightarrow> parameter_response \<times> 's) \<Rightarrow> int \<Rightarrow> (parameter_request, parameter_response, 'b \<times> 's) query_api" where
  "parameter_connection a Q connect h i \<equiv> remote_connection a (describe_parameters '''') [] (describe_param_response '''')
    param_response_of \<lparr> response = 0 \<rparr> (deferred Q) (handler_thread Q (parameter_handler h)) i \<lparr> q_connect := connect \<rparr>"

text \<open>C37: The parameters a master sends are the parameters the user's handler gets, keys and values unchanged and
  in order, once the thread of the handler has worked off the requests queued before; and what the handler responds is what the
  master returns, with \<open>SMART_OK\<close>. The values are without NUL characters, and no answer under the identifier of this call is
  given to an earlier request. If the connection cannot be made, the master returns the status for it, leaves its response
  object as it is and sends nothing. A slave is taken to exist: as it is written its constructor is
  undefined (\<open>parameter_slave_undefined\<close>).\<close>

theorem parameters_over_network:
  assumes "api_ok a" "active_queue_ok Q" "\<forall>nv \<in> set request. list_all no_nul (nv_values nv)"
    and "connect (if ns then comp_name else ''NoNamingService'') service w = (st, (b, s))"
    and "work_off (parameter_handler h) (aq_pending Q b) s = (before, s1)" "first_answer i before = None" "h request s1 = (ans, s2)"
  shows "sendParameterWait (parameter_connection a Q connect h i) ns request resp comp_name service w =
    (if st = SMART_OK then ((SMART_OK, ans), (aq_emptied Q (aq_enqueue Q (NumericId i) (describe_parameters '''' request) b), s2))
     else ((if st = SMART_SERVICEUNAVAILABLE \<or> st = SMART_INCOMPATIBLESERVICE then SMART_UNKNOWNCOMPONENT
            else if st = SMART_ERROR_COMMUNICATION then SMART_ERROR_COMMUNICATION else SMART_ERROR, resp), (b, s)))"
proof -
  have fits: "list_all (\<lambda>nv. list_all no_nul (nv_values nv)) request" using assms(3) by (simp add: list_all_iff)
  have handled: "parameter_handler h (NumericId i) (describe_parameters '''' request) s1 = ([(NumericId i, describe_param_response '''' ans)], s2)"
    using assms(7) by (simp add: parameter_handler_def parameter_remote.request.read_describe)
  show ?thesis
    using parameter_remote.answered_deferred [OF assms(1) fits TrueI assms(2,5,6) handled, of resp] assms(4)
    by (auto simp: sendParameterWait_def remote_connection_def)
qed

theorem parameters_over_network_witness:
  "sendParameterWait (parameter_connection std_api list_queue (\<lambda>c v w. (SMART_OK, w)) (\<lambda>r s. (setResponse OK \<lparr> response = 0 \<rparr>, s @ r)) 3) True
     [\<lparr> nv_key = ''slot'', nv_values = [''A'', ''B''] \<rparr>] \<lparr> response = 1 \<rparr> ''robot'' ''param''
     ([(NumericId 2, describe_parameters '''' [\<lparr> nv_key = ''x'', nv_values = [''1''] \<rparr>])], []) =
   ((SMART_OK, \<lparr> response = 2 \<rparr>), ([], [\<lparr> nv_key = ''x'', nv_values = [''1''] \<rparr>, \<lparr> nv_key = ''slot'', nv_values = [''A'', ''B''] \<rparr>]))"
proof -
  let ?h = "\<lambda>r s. (setResponse OK \<lparr> response = 0 \<rparr>, s @ r)"
  let ?b = "[(NumericId 2, describe_parameters '''' [\<lparr> nv_key = ''x'', nv_values = [''1''] \<rparr>])]"
  let ?r = "[\<lparr> nv_key = ''slot'', nv_values = [''A'', ''B''] \<rparr>]"
  have "work_off (parameter_handler ?h) (aq_pending list_queue ?b) [] =
      ([(NumericId 2, describe_param_response '''' \<lparr> response = 2 \<rparr>)], [\<lparr> nv_key = ''x'', nv_values = [''1''] \<rparr>])"
    by (simp add: list_queue_def parameter_handler_def parameter_remote.request.read_describe setResponse_def literal_value_def)
  from parameters_over_network [where connect = "\<lambda>c v w. (SMART_OK, w)" and ns = True and comp_name = "''robot''" and service = "''param''"
      and w = "(?b, [])" and st = SMART_OK and h = ?h and i = 3 and request = ?r, OF std_api_ok list_queue_ok _ refl this]
  show ?thesis by (simp add: no_nul_def list_queue_def setResponse_def literal_value_def)
qed

text \<open>Constructing a parameter slave is undefined: the query server is declared before the handler that its
  initialiser reads. In the order in which the initialisers are written every member would be there.\<close>

theorem parameter_slave_undefined:
  "new_parameter_slave = Inl UndefinedBehaviour \<and> initialise [PS_mutex] initialiser_order =
    Inr [PS_mutex, PS_component, PS_query_handler, PS_thread_handler, PS_query_server]"
  by (simp add: new_parameter_slave_def declaration_order_def initialiser_order_def)

end
