(* ===== verification/Send.thy ===== *)
theory Send
  imports Parameter Wiring
begin

section \<open>The send pattern\<close>

text \<open>
  One-way messages: the server, whose method has no outputs (\<open>OPCUA/Server/SendServer.hpp\<close>), and the
  client, which calls it and forgets the call (\<open>OPCUA/Client/SendClient.hpp\<close>, and the instance of
  \<open>AsyncAnswerMethod\<close> without an answer).
\<close>

text \<open>The node of the method; its browse name is in the SDK's namespace.\<close>

definition send_method :: "ua_api \<Rightarrow> namespaces \<Rightarrow> string \<Rightarrow> desc \<Rightarrow> method_node" where
  "send_method a N service data =
    \<lparr> mn_id = StrId (ns1 N) (String_of_std a (c_str (''85.'' @ c_str service))),
      mn_parent = NumId 0 85, mn_reference = NumId 0 49,
      mn_browse = (ns1 N, String_alloc a (c_str service)), mn_display = String_alloc a (c_str service),
      mn_inputs = to_arguments a (named ''input'' data), mn_outputs = [] \<rparr>"

text \<open>
  The callback: the handler of the server, then the observers of its input (\<open>notify_input\<close>), get the
  object that was read; both change the state of the program.
\<close>

definition sendCallback :: "ua_api \<Rightarrow> desc \<Rightarrow> (desc \<Rightarrow> 's \<Rightarrow> 's) \<Rightarrow> (desc \<Rightarrow> 's \<Rightarrow> 's) \<Rightarrow> variant list \<Rightarrow> 's \<Rightarrow> 32 word result \<times> 's" where
  "sendCallback a fresh handleSend notify_input input s =
    (case UaVariantArrayToCommObject a input (named '''' fresh) of
      Inl e \<Rightarrow> (Inl e, s)
    | Inr update \<Rightarrow> (Inr 0, notify_input update (handleSend update s)))"

text \<open>
  The client. Disconnecting and disabling blocking do nothing; \<open>send\<close> calls the method, and the answer
  object is gone when it returns.
\<close>

record send_client =
  sc_factory :: "answer_factory option"
  sc_wiring :: wiring_handler

definition new_send_client :: send_client where
  "new_send_client = \<lparr> sc_factory = None, sc_wiring = new_wiring_handler \<rparr>"

definition send_connect :: "ua_api \<Rightarrow> 'w naming_api \<Rightarrow> string \<Rightarrow> string \<Rightarrow> send_client \<Rightarrow> naming \<times> 'w
    \<Rightarrow> (status result \<times> send_client \<times> naming \<times> 'w) option" where
  "send_connect a A server service q nw =
    map_option (\<lambda>(r, n', w'). case r of
        Inl e \<Rightarrow> (Inl e, q, n', w')
      | Inr (c, i) \<Rightarrow> (Inr SMART_OK,
          q \<lparr> sc_factory := Some \<lparr> f_blockingEnabled = True, f_methodNodeId = i, f_connection = c \<rparr> \<rparr>, n', w'))
      (getConnectionAndNodeIdByName a A server service nw)"

definition send_disconnect :: "send_client \<Rightarrow> status \<times> send_client" where
  "send_disconnect q = (SMART_OK, q)"

definition send_blocking :: "bool \<Rightarrow> send_client \<Rightarrow> status \<times> send_client" where
  "send_blocking b q = (SMART_OK, q)"

definition send :: "ua_api \<Rightarrow> 'w call_async \<Rightarrow> desc \<Rightarrow> send_client \<times> 'w \<Rightarrow> status result \<times> 'w" where
  "send a call_method data qw = (case qw of (q, w) \<Rightarrow>
    (case sc_factory q of
      None \<Rightarrow> (Inl UndefinedBehaviour, w)
    | Some f \<Rightarrow>
        (case CommObjectToUaVariantArray a (named '''' data) of
          Inl e \<Rightarrow> (Inl e, w)
        | Inr inputs \<Rightarrow>
            (case call_method (f_connection f) (f_methodNodeId f) inputs w of (retVal, w') \<Rightarrow>
              (if retVal \<noteq> 0 then Inl (OpcUaError retVal) else Inr SMART_OK, w')))))"

text \<open>The port of the client; removing it is not implemented.\<close>

definition send_add :: "string \<Rightarrow> (string \<Rightarrow> string \<Rightarrow> 'w \<Rightarrow> status \<times> 'w) \<Rightarrow> ('w \<Rightarrow> status \<times> 'w) \<Rightarrow> send_client \<times> 'w ports
    \<Rightarrow> status \<times> send_client \<times> 'w ports" where
  "send_add portName connect disconnect qp = (case qp of (q, ports) \<Rightarrow>
    (case wh_add portName connect disconnect (sc_wiring q, ports) of (st, h, ports') \<Rightarrow>
      (st, q \<lparr> sc_wiring := h \<rparr>, ports')))"

definition send_remove :: "send_client \<Rightarrow> status result" where
  "send_remove q = Inl NotImplemented"

text \<open>
  The response to a call without an answer is looked at only to be reported on the console; \<open>None\<close> when
  nothing is printed. \<open>name\<close> is \<open>UA_StatusCode_name\<close>.
\<close>

definition void_report :: "(32 word \<Rightarrow> string) \<Rightarrow> call_response option \<Rightarrow> string option" where
  "void_report name callResponse = (case callResponse of
     None \<Rightarrow> Some ''callResponse is nullptr''
   | Some r \<Rightarrow>
       if serviceResult r \<noteq> 0 then Some (''Receive nongood result: '' @ name (serviceResult r))
       else (case results r of
         [] \<Rightarrow> Some ''Receive Empty Method Call Response.''
       | (code, outputs) # _ \<Rightarrow>
           if code \<noteq> 0 then Some (''Receive nongood result: '' @ name code)
           else if outputs \<noteq> [] then Some (''Receive  Method Call Response with output arguments. No output arguments allowed! Expect 0, got''
             @ show_nat (length outputs))
           else None))"

text \<open>C38: A sent object reaches the handler of the server unchanged: \<open>send\<close> makes one call, to the method and on
  the connection of the client, and returns \<open>SMART_OK\<close> if the call could be made, whatever happens at
  the server; the variants it sends are what the server's callback reads the object from, and the
  handler is run on it before the observers. The object is of the service's type and one the
  repository's encoding keeps: no NUL in the strings of an array, no unsigned 64-bit value above 32 bits outside an
  array, no array of signed 64-bit integers (others arrive cut or changed); it comes without a name.\<close>

theorem send_delivers:
  assumes "api_ok a" "sc_factory q = Some f" "blank t" "same_type t d" "well_typed d" "sendable d" "readable d"
  shows "\<exists>vs. CommObjectToUaVariantArray a (named '''' d) = Inr vs \<and>
    send a call_method d (q, w) = (case call_method (f_connection f) (f_methodNodeId f) vs w of (retVal, w') \<Rightarrow>
      (if retVal = 0 then Inr SMART_OK else Inl (OpcUaError retVal), w')) \<and>
    sendCallback a t h n vs s = (Inr 0, n (named '''' d) (h (named '''' d) s))"
proof -
  have "CommObjectToUaVariantArray a (named '''' d) = Inr (variants_of d)"
    using encode_ok [OF assms(1), of "named '''' d"] assms(5,6) by simp
  moreover have "UaVariantArrayToCommObject a (variants_of d) (named '''' t) = Inr (named '''' d)"
    using decode_ok [OF assms(1), of "named '''' t" "named '''' d"] assms(3-5,7) by simp
  ultimately show ?thesis using assms(2) by (auto simp: send_def sendCallback_def split: prod.splits)
qed

theorem send_delivers_witness:
  "\<exists>vs. CommObjectToUaVariantArray std_api (named '''' (sample_pose 3 ''a'')) = Inr vs \<and>
    send std_api (\<lambda>c i vs w. (0, w + 1)) (sample_pose 3 ''a'')
      (new_send_client \<lparr> sc_factory := Some \<lparr> f_blockingEnabled = True, f_methodNodeId = StrId 1 ''85.go'', f_connection = 0 \<rparr> \<rparr>, 4 :: nat) =
      (Inr SMART_OK, 5) \<and>
    sendCallback std_api (sample_pose 0 '''') (\<lambda>d ds. ds @ [d]) (\<lambda>d ds. ds) vs [] = (Inr 0, [named '''' (sample_pose 3 ''a'')])"
  using send_delivers [where a = std_api and t = "sample_pose 0 ''''" and d = "sample_pose 3 ''a''" and w = "4 :: nat" and s = "[]"
      and h = "\<lambda>d ds. ds @ [d]" and n = "\<lambda>d ds. ds" and call_method = "\<lambda>c i vs w. (0, w + 1)"
      and q = "new_send_client \<lparr> sc_factory := Some \<lparr> f_blockingEnabled = True, f_methodNodeId = StrId 1 ''85.go'', f_connection = 0 \<rparr> \<rparr>"]
  by (simp add: sample_pose_def)

end
