(* ===== verification/Threads.thy ===== *)
theory Threads
  imports StateSlave
begin

section \<open>Threads and queues\<close>

text \<open>
  The semaphore and the queue between threads (\<open>Utils/Semaphore.hpp\<close>, \<open>Utils/smartMessageQueue.hpp\<close>), the
  task, a thread that can be stopped (\<open>Utils/Task.hpp\<close>), the query handler with a thread of its own
  (\<open>Utils/HsUlm/smartProcessingPattern.hpp\<close>), and the thread of the state slave
  (\<open>State/StateUpdateThread.cpp\<close>), with the shutdown of the slave, which stops it.
\<close>

subsection \<open>The semaphore\<close>

text \<open>Each operation holds the semaphore's mutex from beginning to end; \<open>None\<close>: it waits.\<close>

definition sem_notify :: "int \<Rightarrow> int" where
  "sem_notify count = count + 1"

definition sem_wait :: "int \<Rightarrow> int option" where
  "sem_wait count = (if count = 0 then None else Some (count - 1))"

subsection \<open>The message queue\<close>

text \<open>
  The queue and what its threads are doing: \<open>enqueue\<close> locks the mutex, pushes, and notifies; \<open>dequeue\<close>
  waits for the semaphore, locks the mutex, and takes the front. In both, \<open>lock.release()\<close> detaches the
  lock object from the mutex it has locked, which stays locked, by that thread. Another thread that locks it waits
  for ever; the same thread locking it once more is undefined, and so is taking the front of an empty queue. The
  run ends there, in the phase \<open>Undefined\<close>. The items handed out are recorded.
\<close>

record 'a message_queue =
  mq_count :: int
  mq_owner :: "nat option"
  mq_items :: "'a list"
  mq_received :: "'a list"

datatype 'a mq_phase = Idle | Pushing 'a | Notifying | Waiting | Fetching | Undefined

definition new_message_queue :: "'a message_queue" where
  "new_message_queue = \<lparr> mq_count = 0, mq_owner = None, mq_items = [], mq_received = [] \<rparr>"

definition mq_locked :: "'a message_queue \<Rightarrow> bool" where
  "mq_locked q \<longleftrightarrow> mq_owner q \<noteq> None"

inductive mq_step :: "'a message_queue \<times> (nat \<Rightarrow> 'a mq_phase) \<Rightarrow> 'a message_queue \<times> (nat \<Rightarrow> 'a mq_phase) \<Rightarrow> bool" where
  enqueue: "ph t = Idle \<Longrightarrow> mq_step (q, ph) (q, ph(t := Pushing x))"
| push: "ph t = Pushing x \<Longrightarrow> \<not> mq_locked q \<Longrightarrow>
    mq_step (q, ph) (q \<lparr> mq_owner := Some t, mq_items := mq_items q @ [x] \<rparr>, ph(t := Notifying))"
| notify: "ph t = Notifying \<Longrightarrow> mq_step (q, ph) (q \<lparr> mq_count := sem_notify (mq_count q) \<rparr>, ph(t := Idle))"
| dequeue: "ph t = Idle \<Longrightarrow> mq_step (q, ph) (q, ph(t := Waiting))"
| wait: "ph t = Waiting \<Longrightarrow> sem_wait (mq_count q) = Some c \<Longrightarrow> mq_step (q, ph) (q \<lparr> mq_count := c \<rparr>, ph(t := Fetching))"
| fetch: "ph t = Fetching \<Longrightarrow> \<not> mq_locked q \<Longrightarrow> mq_items q = x # xs \<Longrightarrow>
    mq_step (q, ph) (q \<lparr> mq_owner := Some t, mq_items := xs, mq_received := mq_received q @ [x] \<rparr>, ph(t := Idle))"
| relock: "ph t = Fetching \<or> ph t = Pushing x \<Longrightarrow> mq_owner q = Some t \<Longrightarrow> mq_step (q, ph) (q, ph(t := Undefined))"
| fetch_empty: "ph t = Fetching \<Longrightarrow> \<not> mq_locked q \<Longrightarrow> mq_items q = [] \<Longrightarrow> mq_step (q, ph) (q, ph(t := Undefined))"

inductive mq_reachable :: "'a message_queue \<times> (nat \<Rightarrow> 'a mq_phase) \<Rightarrow> bool" where
  start: "mq_reachable (new_message_queue, \<lambda>_. Idle)"
| step: "mq_reachable (q, ph) \<Longrightarrow> (\<And>t. ph t \<noteq> Undefined) \<Longrightarrow> mq_step (q, ph) s' \<Longrightarrow> mq_reachable s'"

text \<open>
  The count says how many items are there for threads that wait, so a thread beyond the semaphore
  has an item, and an item in the queue has left the mutex locked.
\<close>

definition mq_inv :: "'a message_queue \<times> (nat \<Rightarrow> 'a mq_phase) \<Rightarrow> bool" where
  "mq_inv s \<longleftrightarrow> (case s of (q, ph) \<Rightarrow> mq_received q = [] \<and> 0 \<le> mq_count q \<and> length (mq_items q) \<le> 1 \<and>
     (mq_locked q \<or> mq_items q = [] \<and> mq_count q = 0 \<and> (\<forall>t. ph t \<noteq> Notifying \<and> ph t \<noteq> Fetching)))"

lemma mq_inv_start: "mq_inv (new_message_queue, \<lambda>_. Idle)"
  by (simp add: mq_inv_def mq_locked_def new_message_queue_def)

lemma mq_inv_step: "mq_step s s' \<Longrightarrow> mq_inv s \<Longrightarrow> mq_inv s'"
  by (induction rule: mq_step.induct) (auto simp: mq_inv_def mq_locked_def sem_notify_def sem_wait_def split: if_splits)

text \<open>C39: A message queue never hands out an item: once a first item was pushed the mutex stays locked, so no
  second item enters and no thread gets past the lock in \<open>dequeue\<close>, however the threads interleave, up to the
  point where the thread that left the mutex locked locks it again, which is undefined.\<close>

theorem queue_delivers_nothing:
  assumes "mq_reachable (q, ph)"
  shows "mq_received q = [] \<and> length (mq_items q) \<le> 1 \<and> (mq_items q = [] \<or> mq_locked q)"
proof -
  have "mq_inv s" if "mq_reachable s" for s :: "'a message_queue \<times> (nat \<Rightarrow> 'a mq_phase)"
    using that by induction (auto intro: mq_inv_step simp: mq_inv_start)
  from this [OF assms] show ?thesis by (auto simp: mq_inv_def)
qed

lemma one_push:
  "mq_reachable (\<lparr> mq_count = 1, mq_owner = Some 0, mq_items = [x], mq_received = [] \<rparr>, \<lambda>_. Idle)"
proof -
  let ?q = "new_message_queue \<lparr> mq_owner := Some 0, mq_items := [x] \<rparr>"
  have "mq_reachable (new_message_queue, (\<lambda>_. Idle)(0 := Pushing x))"
    by (rule mq_reachable.step [OF mq_reachable.start _ mq_step.enqueue]) simp_all
  then have "mq_reachable (?q, ((\<lambda>_. Idle)(0 := Pushing x))(0 := Notifying))"
    by (rule mq_reachable.step)
      (use mq_step.push [of "(\<lambda>_. Idle)(0 := Pushing x)" 0 x new_message_queue] in \<open>auto simp: new_message_queue_def mq_locked_def\<close>)
  then have "mq_reachable (?q \<lparr> mq_count := sem_notify (mq_count ?q) \<rparr>, (((\<lambda>_. Idle)(0 := Pushing x))(0 := Notifying))(0 := Idle))"
    by (rule mq_reachable.step) (simp, rule mq_step.notify, simp)
  then show ?thesis by (simp add: new_message_queue_def sem_notify_def fun_upd_idem)
qed

theorem queue_delivers_nothing_witness:
  "mq_received \<lparr> mq_count = 1, mq_owner = Some 0, mq_items = [7 :: nat], mq_received = [] \<rparr> = [] \<and>
   length (mq_items \<lparr> mq_count = 1, mq_owner = Some 0, mq_items = [7 :: nat], mq_received = [] \<rparr>) \<le> 1"
  using queue_delivers_nothing [OF one_push [of "7 :: nat"]] by blast

subsection \<open>Tasks\<close>

text \<open>Whether the thread object is joinable, and the request to stop. A stopped thread was joined.\<close>

record task =
  joinable :: bool
  m_interruption_requested :: bool

definition new_task :: task where
  "new_task = \<lparr> joinable = False, m_interruption_requested = False \<rparr>"

definition start_task :: "task \<Rightarrow> int \<times> task" where
  "start_task t = (0, if \<not> joinable t then t \<lparr> joinable := True \<rparr> else t)"

definition stop_task :: "bool \<Rightarrow> task \<Rightarrow> int \<times> task" where
  "stop_task wait_till_stopped t = (0, if joinable t then t \<lparr> m_interruption_requested := True, joinable := False \<rparr> else t)"

definition test_canceled :: "task \<Rightarrow> bool" where
  "test_canceled t = m_interruption_requested t"

datatype task_op = Start | Stop bool

fun task_exec :: "task_op \<Rightarrow> task \<Rightarrow> task" where
  "task_exec Start t = snd (start_task t)"
| "task_exec (Stop b) t = snd (stop_task b t)"

text \<open>A task that was stopped once is cancelled for good: the request to stop is never taken back, so the
  thread of any later start finds itself cancelled from its first test on.\<close>

theorem restarted_task_cancelled:
  assumes "joinable t"
  shows "test_canceled (task_exec Start (fold task_exec ops (task_exec (Stop w) t)))"
proof -
  have keep: "m_interruption_requested (task_exec op u)" if "m_interruption_requested u" for op u
    using that by (cases op) (simp_all add: start_task_def stop_task_def)
  have "m_interruption_requested (fold task_exec ops u)" if "m_interruption_requested u" for u
    using that by (induction ops arbitrary: u) (simp_all add: keep del: task_exec.simps)
  moreover have "m_interruption_requested (task_exec (Stop w) t)" using assms by (simp add: stop_task_def)
  ultimately show ?thesis unfolding test_canceled_def by (blast intro: keep)
qed

theorem restarted_task_cancelled_witness:
  "test_canceled (task_exec Start (fold task_exec [] (task_exec (Stop True) (task_exec Start new_task))))"
  by (rule restarted_task_cancelled) (simp add: start_task_def new_task_def)

text \<open>The destructor stops the task.\<close>

definition delete_task :: "task \<Rightarrow> task" where
  "delete_task t = snd (stop_task True t)"

subsection \<open>The threaded query handler\<close>

text \<open>
  \<open>Utils/HsUlm/smartProcessingPattern.hpp\<close>: a query handler that hands the requests to a thread of its own.
  Its base class belongs to the SmartSoft library: \<open>process_fifo_queue\<close>, from a state of the base, ends with a
  result or goes on waiting (\<open>None\<close>), \<open>signal_to_stop\<close> asks it to end. The task's thread runs it; joining the
  thread waits for the rest of it.
\<close>

record 'b active_handler =
  process_fifo_queue :: "'b \<Rightarrow> (int \<times> 'b) option"
  signal_to_stop :: "'b \<Rightarrow> 'b"

record 'b threaded_handler =
  th_base :: 'b
  th_task :: task

definition new_threaded_handler :: "('p \<Rightarrow> 'b) \<Rightarrow> 'p \<Rightarrow> 'b threaded_handler" where
  "new_threaded_handler active_query_handler inner_handler_ptr =
    \<lparr> th_base = active_query_handler inner_handler_ptr, th_task = snd (start_task new_task) \<rparr>"

definition task_execution :: "'b active_handler \<Rightarrow> 'b threaded_handler \<Rightarrow> (int \<times> 'b threaded_handler) option" where
  "task_execution B h = map_option (\<lambda>(r, b). (r, h \<lparr> th_base := b \<rparr>)) (process_fifo_queue B (th_base h))"

definition stop_threaded_handler :: "'b active_handler \<Rightarrow> 'b threaded_handler \<Rightarrow> 'b threaded_handler option" where
  "stop_threaded_handler B h =
    (if joinable (th_task h) then
       map_option (\<lambda>(r, h'). h' \<lparr> th_task := snd (stop_task True (th_task h')) \<rparr>) (task_execution B h)
     else Some h)"

definition delete_threaded_handler :: "'b active_handler \<Rightarrow> 'b threaded_handler \<Rightarrow> 'b threaded_handler option" where
  "delete_threaded_handler B h = stop_threaded_handler B (h \<lparr> th_base := signal_to_stop B (th_base h) \<rparr>)"

text \<open>
  The destructor returns, with the thread stopped, if the base ends once it is asked to; the request to stop
  of the task alone would not do, since nothing tests it.
\<close>

lemma threaded_handler_ends:
  assumes "\<And>b. process_fifo_queue B (signal_to_stop B b) \<noteq> None"
  shows "\<exists>h'. delete_threaded_handler B h = Some h' \<and> \<not> joinable (th_task h')"
proof -
  obtain r b where "process_fifo_queue B (signal_to_stop B (th_base h)) = Some (r, b)"
    using assms [of "th_base h"] by auto
  then show ?thesis
    by (cases "joinable (th_task h)")
      (simp_all add: delete_threaded_handler_def stop_threaded_handler_def task_execution_def stop_task_def)
qed

lemma unsignalled_handler_waits:
  assumes "process_fifo_queue B (active_query_handler p) = None"
  shows "stop_threaded_handler B (new_threaded_handler active_query_handler p) = None"
  using assms by (simp add: new_threaded_handler_def stop_threaded_handler_def task_execution_def start_task_def new_task_def)

subsection \<open>The update thread of the state slave\<close>

text \<open>
  Its \<open>is_running\<close> is \<open>thread_running\<close> of the slave; the thread object and the request to stop are
  those of a task. Unlike a task it does not test the request: it ends when \<open>on_execute\<close> is not 0.
\<close>

definition init_thread :: "slave \<Rightarrow> slave" where
  "init_thread s = s \<lparr> thread_running := True \<rparr>"

definition halt :: "slave \<Rightarrow> slave" where
  "halt s = s \<lparr> thread_running := False \<rparr>"

definition update_test_canceled :: "task \<Rightarrow> bool" where
  "update_test_canceled t = False"

definition start_thread :: "slave \<times> task \<Rightarrow> int \<times> slave \<times> task" where
  "start_thread st = (case st of (s, t) \<Rightarrow> (0, s, if \<not> joinable t then t \<lparr> joinable := True \<rparr> else t))"

definition stop_thread :: "bool \<Rightarrow> slave \<times> task \<Rightarrow> int \<times> slave \<times> task" where
  "stop_thread wait_till_stopped st = (case st of (s, t) \<Rightarrow>
     (0, halt s, if joinable t then t \<lparr> m_interruption_requested := True, joinable := False \<rparr> else t))"

text \<open>\<open>StateSlave::shutdown\<close>, which the destructor calls.\<close>

definition shutdown :: "slave \<times> task \<Rightarrow> slave \<times> task" where
  "shutdown st = (case st of (s, t) \<Rightarrow> snd (stop_thread True (s \<lparr> running := False \<rparr>, t)))"

text \<open>A slave that was shut down refuses: every call of the component returns \<open>SMART_NOTACTIVATED\<close>, every
  request of the master is answered with it, the update thread ends at its next execution even if it is
  started again, and none of them changes the states, the counts, the requests or the pending change.\<close>

theorem shut_down_slave_refuses:
  "case shutdown (s, t) of (s', t') \<Rightarrow>
    acquire n s' = (Return SMART_NOTACTIVATED, s') \<and> tryAcquire n s' = (SMART_NOTACTIVATED, s') \<and>
    release n s' = (SMART_NOTACTIVATED, s') \<and> setWaitState m s' = (Return SMART_NOTACTIVATED, s') \<and>
    on_execute (fst (snd (start_thread (s', t')))) = (-1, s') \<and>
    (if c \<in> {1, 2, 3, 4} then \<exists>names. trace (handleQuery q c m s') = trace s' @ [Answer q SMART_NOTACTIVATED names]
     else handleQuery q c m s' = s') \<and>
    (handleQuery q c m s') \<lparr> trace := trace s', next_cond := next_cond s' \<rparr> = s' \<and>
    stateList s' = stateList s \<and> currentState s' = currentState s \<and> \<not> joinable t'"
proof -
  let ?s = "s \<lparr> running := False, thread_running := False \<rparr>"
  have d: "shutdown (s, t) = (?s, if joinable t then t \<lparr> m_interruption_requested := True, joinable := False \<rparr> else t)"
    by (simp add: shutdown_def stop_thread_def halt_def)
  note query = handleQuery_def hndSetMainState_def hndGetCurrentState_def hndGetMainStates_def hndGetSubStates_def
    new_entry_def emit_def
  have "if c \<in> {1, 2, 3, 4} then \<exists>names. trace (handleQuery q c m ?s) = trace ?s @ [Answer q SMART_NOTACTIVATED names]
     else handleQuery q c m ?s = ?s"
    by (simp add: query)
  moreover have "(handleQuery q c m ?s) \<lparr> trace := trace ?s, next_cond := next_cond ?s \<rparr> = ?s"
    by (simp add: query)
  moreover have "acquire n ?s = (Return SMART_NOTACTIVATED, ?s)" "tryAcquire n ?s = (SMART_NOTACTIVATED, ?s)"
    "release n ?s = (SMART_NOTACTIVATED, ?s)" "setWaitState m ?s = (Return SMART_NOTACTIVATED, ?s)" "on_execute ?s = (-1, ?s)"
    by (simp_all add: acquire_def tryAcquire_def release_def release_cnt_def setWaitState_def on_execute_def)
  ultimately show ?thesis by (auto simp: d start_thread_def)
qed

end
