(* ===== verification/Component.thy ===== *)
theory Component
  imports NamingService
begin

section \<open>Components\<close>

text \<open>
  A component (\<open>Utils/Component.cpp\<close>) owns the OPC UA server of its process and runs it. The loop of
  \<open>OpcUaServer::run\<close> is interleaved with what other threads do to the server between its iterations.
\<close>

record component =
  c_name :: string
  c_running :: bool
  m_pOpcUaServer :: opcua_server

text \<open>The constructor initialises the server, with the number drawn, the index assigned, and the memory it is built in.\<close>

definition new_component :: "16 word \<Rightarrow> 16 word \<Rightarrow> nat \<Rightarrow> 16 word \<Rightarrow> string \<Rightarrow> component" where
  "new_component p i0 rnd i name = \<lparr> c_name = name, c_running = True,
     m_pOpcUaServer = initServer rnd i name (new_opcua_server p i0) \<rparr>"

text \<open>
  The loop of \<open>run\<close>. What other threads do to the component meanwhile comes in batches: the first is what
  happens between the assignment to \<open>m_isRunning\<close> and the first test of it, each further one what happens
  between two tests, that is, while the stack runs one iteration. The test sees only what a batch leaves: a stop
  and a start within one batch go unnoticed. \<open>None\<close> if the loop still runs after the last batch.
\<close>

primrec serve :: "(component \<Rightarrow> component) list list \<Rightarrow> component \<Rightarrow> component option" where
  "serve [] c = None"
| "serve (fs # later) c = (let c' = fold (\<lambda>f. f) fs c in
     if \<not> m_isRunning (m_pOpcUaServer c') then Some c' else serve later c')"

definition start_component :: "component \<Rightarrow> component" where
  "start_component c = c \<lparr> m_pOpcUaServer := run_server (m_pOpcUaServer c) \<rparr>"

definition component_run :: "(component \<Rightarrow> component) list list \<Rightarrow> component \<Rightarrow> (status \<times> component) option" where
  "component_run later c = map_option (\<lambda>c'. (SMART_OK, c')) (serve later (start_component c))"

definition signal_shutdown :: "component \<Rightarrow> component" where
  "signal_shutdown c = c \<lparr> c_running := False, m_pOpcUaServer := stopRunning (m_pOpcUaServer c) \<rparr>"

definition component_stopRunning :: "component \<Rightarrow> component" where
  "component_stopRunning c = c \<lparr> c_running := False, m_pOpcUaServer := stopRunning (m_pOpcUaServer c) \<rparr>"

definition component_blocking :: "bool \<Rightarrow> component \<Rightarrow> status" where
  "component_blocking b c = SMART_OK"

definition getTimerManager :: "component \<Rightarrow> unit result" where
  "getTimerManager c = Inl NotImplemented"

text \<open>A batch that does not stop a running server for good, and a change that does not start a stopped one.\<close>

definition leaves_running :: "(component \<Rightarrow> component) list \<Rightarrow> bool" where
  "leaves_running fs \<longleftrightarrow> (\<forall>c. m_isRunning (m_pOpcUaServer c) \<longrightarrow> m_isRunning (m_pOpcUaServer (fold (\<lambda>f. f) fs c)))"

definition starts_nothing :: "(component \<Rightarrow> component) \<Rightarrow> bool" where
  "starts_nothing f \<longleftrightarrow> (\<forall>c. \<not> m_isRunning (m_pOpcUaServer c) \<longrightarrow> \<not> m_isRunning (m_pOpcUaServer (f c)))"

lemma started_is_running [simp]: "m_isRunning (m_pOpcUaServer (start_component c))"
  by (simp add: start_component_def run_server_def)

lemma shut_down_is_stopped [simp]: "\<not> m_isRunning (m_pOpcUaServer (signal_shutdown c))"
  by (simp add: signal_shutdown_def stopRunning_def)

lemma starts_nothing_fold:
  "\<lbrakk>\<forall>f \<in> set gs. starts_nothing f; \<not> m_isRunning (m_pOpcUaServer c)\<rbrakk>
   \<Longrightarrow> \<not> m_isRunning (m_pOpcUaServer (fold (\<lambda>f. f) gs c))"
  by (induction gs arbitrary: c) (auto simp: starts_nothing_def)

lemma serve_goes_on:
  "\<lbrakk>\<forall>fs \<in> set before. leaves_running fs; m_isRunning (m_pOpcUaServer c)\<rbrakk>
   \<Longrightarrow> serve (before @ later) c = serve later (fold (fold (\<lambda>f. f)) before c)"
  by (induction before arbitrary: c) (auto simp: leaves_running_def Let_def)

lemma restart_leaves_running: "leaves_running (fs @ [signal_shutdown, start_component])"
  by (simp add: leaves_running_def)

text \<open>C40: A component runs until it is shut down. While whatever the other threads do between two tests of the
  flag leaves the server running, \<open>run\<close> does not return; once \<open>signal_shutdown\<close> (or \<open>stopRunning\<close>) is among
  it, in any iteration and after anything else, and nothing starts the server again before the loop looks at the flag,
  \<open>run\<close> returns success after that iteration, with the server stopped and nothing of what comes later done.
  A shutdown signalled before \<open>run\<close> is lost: \<open>run\<close> then behaves as if it had not been signalled, up to the
  component's own flag. It is assumed that the iterations of the stack return, and that accesses to the flag, a plain
  variable, are atomic.\<close>

theorem component_runs_until_stopped:
  assumes "\<forall>fs \<in> set before. leaves_running fs" and "\<forall>g \<in> set gs. starts_nothing g"
    and "stop \<in> {signal_shutdown, component_stopRunning}"
  shows "component_run before c = None \<and> component_run before (stop c) = None \<and>
    (\<exists>c'. component_run (before @ (fs @ stop # gs) # after) c = Some (SMART_OK, c') \<and>
       c' = fold (\<lambda>f. f) gs (stop (fold (\<lambda>f. f) fs (fold (fold (\<lambda>f. f)) before (start_component c)))) \<and>
       \<not> m_isRunning (m_pOpcUaServer c')) \<and>
    (\<exists>c'. component_run (before @ (fs @ stop # gs) # after) (stop c) = Some (SMART_OK, c') \<and>
       \<not> m_isRunning (m_pOpcUaServer c'))"
proof -
  have stop: "stop = signal_shutdown"
    using assms(3) by (auto simp: fun_eq_iff signal_shutdown_def component_stopRunning_def)
  have none: "component_run before c = None" for c
    using serve_goes_on [OF assms(1) started_is_running, of "[]" c] by (simp add: component_run_def)
  have some: "component_run (before @ (fs @ stop # gs) # after) c = Some (SMART_OK,
       fold (\<lambda>f. f) gs (stop (fold (\<lambda>f. f) fs (fold (fold (\<lambda>f. f)) before (start_component c)))))" for c
    using serve_goes_on [OF assms(1) started_is_running, of "(fs @ stop # gs) # after" c]
      starts_nothing_fold [OF assms(2) shut_down_is_stopped]
    by (simp add: component_run_def stop Let_def)
  have stopped: "\<not> m_isRunning (m_pOpcUaServer (fold (\<lambda>f. f) gs (stop c')))" for c'
    using starts_nothing_fold [OF assms(2) shut_down_is_stopped] by (simp add: stop)
  show ?thesis using none some stopped by blast
qed

text \<open>A shutdown signalled too early is lost; a restart within one iteration hides a stop; the next shutdown ends the loop.\<close>

theorem component_runs_until_stopped_witness:
  "component_run [[], [signal_shutdown, start_component]] (signal_shutdown (new_component 0 1 7 2 ''c'')) = None \<and>
   (\<exists>c'. component_run ([[], [signal_shutdown, start_component]] @ ([] @ signal_shutdown # [signal_shutdown]) # [[start_component]])
      (new_component 0 1 7 2 ''c'') = Some (SMART_OK, c') \<and> \<not> m_isRunning (m_pOpcUaServer c'))"
proof -
  have b: "\<forall>fs \<in> set [[], [signal_shutdown, start_component]]. leaves_running fs"
    using restart_leaves_running [of "[]"] by (simp add: leaves_running_def)
  have g: "\<forall>g \<in> set [signal_shutdown]. starts_nothing g" by (simp add: starts_nothing_def)
  have s: "signal_shutdown \<in> {signal_shutdown, component_stopRunning}" by simp
  show ?thesis
    using component_runs_until_stopped [OF b g s, of "signal_shutdown (new_component 0 1 7 2 ''c'')"]
      component_runs_until_stopped [OF b g s, of "new_component 0 1 7 2 ''c''" "[]" "[[start_component]]"]
    by blast
qed

end
