(* ===== verification/SlaveSpec.thy ===== *)
theory SlaveSpec
  imports SlaveProperties
begin

section \<open>The activity a slave implements\<close>

text \<open>
  An abstract specification of the state slave while it runs: the main state, the state that is waited
  for, the requests in order, and how often each sub-state is used. There are no actions, modes, clients,
  condition variables and callbacks in it: whether a sub-state is active follows from the main state.
  The slave refines it as a function: abstracting commutes with every operation.
\<close>

subsection \<open>Functional refinement\<close>

locale refines =
  fixes step :: "'op \<Rightarrow> 's \<Rightarrow> 's"
    and spec :: "'op \<Rightarrow> 'a \<Rightarrow> 'a"
    and abstract :: "'s \<Rightarrow> 'a"
    and ok :: "'s \<Rightarrow> bool"
    and allowed :: "'op \<Rightarrow> bool"
  assumes kept: "ok s \<Longrightarrow> allowed op \<Longrightarrow> ok (step op s)"
    and commutes: "ok s \<Longrightarrow> allowed op \<Longrightarrow> abstract (step op s) = spec op (abstract s)"
begin

lemma runs:
  assumes "ok s" "\<forall>op \<in> set ops. allowed op"
  shows "ok (fold step ops s)" "abstract (fold step ops s) = fold spec ops (abstract s)"
  using assms by (induction ops arbitrary: s) (simp_all add: kept commutes)

end

subsection \<open>The activity\<close>

type_synonym use = "string \<times> string list \<times> int"

record activity =
  main :: string
  wish :: "string option"
  requests :: "string list"
  uses :: "use list"
  first_state :: string
  alive :: bool

definition activity_of :: "slave \<Rightarrow> activity" where
  "activity_of s = \<lparr> main = currentState s, wish = (if idle s then None else Some (desired s)),
     requests = map se_state (stateQueue s),
     uses = map (\<lambda>e. (sub_name e, mainstates e, cnt e)) (stateList s),
     first_state = initialState s, alive = thread_running s \<rparr>"

definition has_main :: "string \<Rightarrow> use \<Rightarrow> bool" where
  "has_main m u \<longleftrightarrow> m \<in> set (fst (snd u))"

definition in_use :: "string \<Rightarrow> string \<Rightarrow> use list \<Rightarrow> bool" where
  "in_use m d us \<longleftrightarrow> list_ex (\<lambda>u. has_main m u \<and> \<not> has_main d u \<and> snd (snd u) \<noteq> 0) us"

text \<open>The wish is fulfilled as soon as no sub-state to be left is used; an unknown one is dropped.\<close>

definition settle :: "activity \<Rightarrow> activity" where
  "settle a = (case wish a of
     None \<Rightarrow> a
   | Some d \<Rightarrow>
       if d = main a \<or> \<not> (d = ''Alive'' \<or> list_ex (has_main d) (uses a)) then a \<lparr> wish := None \<rparr>
       else if in_use (main a) d (uses a) then a
       else a \<lparr> main := d, wish := None \<rparr>)"

definition use_index :: "string \<Rightarrow> use list \<Rightarrow> nat option" where
  "use_index n us = last_idx (\<lambda>u. fst u = n) us"

definition add_use :: "int \<Rightarrow> nat \<Rightarrow> activity \<Rightarrow> activity" where
  "add_use k i a = a \<lparr> uses := (uses a)[i := (case uses a ! i of (n, ms, c) \<Rightarrow> (n, ms, c + k))] \<rparr>"

definition push_first :: "string \<Rightarrow> activity \<Rightarrow> activity" where
  "push_first m a = a \<lparr> requests := m # requests a \<rparr>"

definition push_last :: "string \<Rightarrow> activity \<Rightarrow> activity" where
  "push_last m a = a \<lparr> requests := requests a @ [m] \<rparr>"

fun activity_step :: "op \<Rightarrow> activity \<Rightarrow> activity" where
  "activity_step (OpDefine m n) a = a"
| "activity_step OpActivate a = a"
| "activity_step (OpSetInitial m) a =
    (if m = ''Neutral'' \<or> (case use_index ''nonneutral'' (uses a) of None \<Rightarrow> False | Some i \<Rightarrow> has_main m (uses a ! i))
     then a \<lparr> first_state := m \<rparr> else a)"
| "activity_step (OpQuery q c m) a =
    (if c \<noteq> 1 \<or> m \<in> set not_commandable then a
     else if m = ''Shutdown'' then push_first m a
     else if main a \<in> {''Init'', ''Shutdown'', ''FatalError''} then a
     else push_last m a)"
| "activity_step OpThread a =
    (case requests a of
      m # ms \<Rightarrow> if alive a then settle (a \<lparr> wish := Some m, requests := ms, alive := m \<noteq> ''Shutdown'' \<rparr>) else a
    | [] \<Rightarrow> a)"
| "activity_step (OpSetWait m) a =
    (if m \<in> {''Alive'', ''FatalError'', ''Shutdown''} \<and>
        (main a = ''Init'' \<or> m = ''Shutdown'' \<and> main a = ''FatalError'' \<or>
         m \<noteq> ''Alive'' \<and> main a \<notin> {''Shutdown'', ''FatalError''})
     then push_first m a else a)"
| "activity_step (OpAcquire n) a =
    (case use_index n (uses a) of
      None \<Rightarrow> a
    | Some i \<Rightarrow>
        (case wish a of
          Some d \<Rightarrow> if has_main (main a) (uses a ! i) \<and> has_main d (uses a ! i) then add_use 1 i a else a
        | None \<Rightarrow> if has_main (main a) (uses a ! i) \<or> main a \<noteq> ''Shutdown'' then add_use 1 i a else a))"
| "activity_step (OpTryAcquire n) a =
    (case use_index n (uses a) of
      None \<Rightarrow> a
    | Some i \<Rightarrow>
        if has_main (main a) (uses a ! i) \<and> (case wish a of None \<Rightarrow> True | Some d \<Rightarrow> has_main d (uses a ! i))
        then add_use 1 i a else a)"
| "activity_step (OpRelease n) a =
    (case use_index n (uses a) of
      None \<Rightarrow> a
    | Some i \<Rightarrow>
        settle (if has_main (main a) (uses a ! i) \<and> 0 < snd (snd (uses a ! i)) then add_use (-1) i a else a))"
| "activity_step (OpResume (AcquireChanging i)) a = (if main a = ''Shutdown'' then a else add_use 1 i a)"
| "activity_step (OpResume (AcquireInactive i)) a = (if main a = ''Shutdown'' then add_use (-1) i a else a)"
| "activity_step (OpResume (WaitChange m c)) a = (if m = ''Alive'' then push_last (first_state a) a else a)"
| "activity_step (OpResume (WaitInitial c)) a = a"

subsection \<open>Abstraction\<close>

lemma activity_of_simps [simp]:
  "main (activity_of s) = currentState s" "wish (activity_of s) = (if idle s then None else Some (desired s))"
  "requests (activity_of s) = map se_state (stateQueue s)" "first_state (activity_of s) = initialState s"
  "alive (activity_of s) = thread_running s"
  "uses (activity_of s) = map (\<lambda>e. (sub_name e, mainstates e, cnt e)) (stateList s)"
  by (simp_all add: activity_of_def)

lemma has_main_use [simp]: "has_main m (n, ms, c) \<longleftrightarrow> m \<in> set ms"
  by (simp add: has_main_def)

lemma last_idx_map: "last_idx P (map f xs) = last_idx (\<lambda>x. P (f x)) xs"
  by (induction xs) (simp_all split: option.splits)

lemma use_index_of [simp]: "use_index n (map (\<lambda>e. (sub_name e, mainstates e, cnt e)) es) = find_sub n es"
  by (simp add: use_index_def find_sub_def last_idx_map)

lemma activity_add_cnt: "i < length (stateList s) \<Longrightarrow> activity_of (add_cnt k i s) = add_use k i (activity_of s)"
  by (simp add: activity_of_def add_use_def idle_def) (simp add: add_cnt_def map_update)

lemma add_cnt_beyond: "\<not> i < length (stateList s) \<Longrightarrow> add_cnt k i s = s"
  by (simp add: add_cnt_def list_update_beyond)

lemma activity_add [simp]: "activity_of (add_cnt k i s) = add_use k i (activity_of s)"
  by (cases "i < length (stateList s)") (simp_all add: activity_add_cnt add_cnt_beyond add_use_def list_update_beyond)

lemma in_use_blocked: "in_use (currentState s) (desired s) (uses (activity_of s)) \<longleftrightarrow> blocked s"
  by (auto simp: in_use_def blocked_def list_ex_iff)

lemma activity_update:
  assumes "distinct (map sub_name (stateList s))" "\<not> idle s \<Longrightarrow> \<not> deactivation (desired s)"
  shows "activity_of (updateState s) = settle (activity_of s)"
proof (cases "idle s")
  case True
  then show ?thesis by (simp add: updateState_cases settle_def activity_of_def)
next
  case False
  have ch: "changeable s \<longleftrightarrow> desired s = ''Alive'' \<or> list_ex (has_main (desired s)) (uses (activity_of s))"
    using assms(2) [OF False] by (auto simp: changeable_def deactivation_def valid_main_def list_ex_iff)
  show ?thesis
  proof (cases "desired s = currentState s \<or> \<not> changeable s \<or> blocked s")
    case True
    then show ?thesis using False in_use_blocked [of s] ch
      by (auto simp: updateState_cases settle_def) (simp_all add: activity_of_def mark_actions_def idle_def)
  next
    case change: False
    have "settle (activity_of s) = activity_of s \<lparr> main := desired s, wish := None \<rparr>"
      using change False in_use_blocked [of s] ch by (auto simp: settle_def)
    then show ?thesis using change False assms
      by (simp add: updateState_cases perform_eq target_state_def deactivation_def) (simp add: activity_of_def idle_def)
  qed
qed


lemma activity_frame [simp]:
  "activity_of (s \<lparr> trace := t \<rparr>) = activity_of s" "activity_of (s \<lparr> next_cond := c \<rparr>) = activity_of s"
  "activity_of (s \<lparr> running := r \<rparr>) = activity_of s" "activity_of (emit es s) = activity_of s"
  "activity_of (s \<lparr> stateQueue := qs \<rparr>) = activity_of s \<lparr> requests := map se_state qs \<rparr>"
  "activity_of (s \<lparr> initialState := m \<rparr>) = activity_of s \<lparr> first_state := m \<rparr>"
  by (simp_all add: activity_of_def idle_def emit_def)

lemma activity_query: "running s \<Longrightarrow> activity_of (handleQuery q c m s) = activity_step (OpQuery q c m) (activity_of s)"
  by (auto simp: handleQuery_def hndSetMainState_def new_entry_def not_commandable_def push_first_def push_last_def split_beta)

lemma activity_setWait: "running s \<Longrightarrow> activity_of (snd (setWaitState m s)) = activity_step (OpSetWait m) (activity_of s)"
  by (auto simp: setWaitState_def wait_change_def push_front_def new_entry_def push_first_def split_beta)

lemma activity_setInitial:
  assumes "distinct (map sub_name (stateList s))"
  shows "activity_of (snd (setUpInitialState m s)) = activity_step (OpSetInitial m) (activity_of s)"
  using find_sub_SomeD [OF _ assms] by (auto simp: setUpInitialState_def split: option.splits)

lemma activity_thread:
  assumes "cons_inv s"
  shows "activity_of (snd (on_execute s)) = activity_step OpThread (activity_of s)"
proof (cases "thread_running s \<and> stateQueue s \<noteq> []")
  case True
  have d: "distinct (map sub_name (stateList s))" and q: "\<And>x. x \<in> set (stateQueue s) \<Longrightarrow> se_action x = SSA_CHANGE_STATE \<and> \<not> deactivation (se_state x)"
    using assms slave_distinct by (auto simp: cons_inv_def inv_defs clean_def)
  obtain x xs where x: "stateQueue s = x # xs" using True by (cases "stateQueue s") auto
  have "activity_of (dequeued s) = activity_of s \<lparr> wish := Some (se_state x), requests := map se_state xs, alive := se_state x \<noteq> ''Shutdown'' \<rparr>"
    using x q [of x] True by (simp add: activity_of_def dequeued_def idle_def Let_def)
  then show ?thesis using True x q [of x] d activity_update [of "dequeued s"] on_execute_dequeued [OF d] by simp
next
  case False
  then show ?thesis using on_execute_stays [OF False] by (auto split: list.splits)
qed

lemma activity_release:
  assumes "cons_inv s" "running s"
  shows "activity_of (snd (release n s)) = activity_step (OpRelease n) (activity_of s)"
proof -
  let ?s = "snd (release_cnt n s)"
  have d: "distinct (map sub_name (stateList s))" and c: "consistent (currentState s) (stateList s)" and cl: "clean s"
    using assms slave_distinct by (auto simp: cons_inv_def)
  show ?thesis
  proof (cases "find_sub n (stateList s)")
    case None
    then show ?thesis using assms(2) by (simp add: release_def release_cnt_def)
  next
    case (Some i)
    note i = find_sub_SomeD [OF Some d]
    have m: "sub_state (stateList s ! i) = STATE_ACTIVATED \<longleftrightarrow> currentState s \<in> set (mainstates (stateList s ! i))"
      using c i(1) by (simp add: consistent_nth)
    have "distinct (map sub_name (stateList ?s))" "idle ?s = idle s" "desired ?s = desired s"
      using release_cnt_list [of n s] d by (auto simp: map_fst_shape simp del: map_map)
    then have "activity_of (updateState ?s) = settle (activity_of ?s)"
      using cl by (intro activity_update) (auto simp: clean_def)
    then show ?thesis using assms(2) Some m i(1) by (auto simp: release_def release_cnt_def)
  qed
qed

lemma activity_acquire:
  assumes "cons_inv s" "running s"
  shows "activity_of (snd (acquire n s)) = activity_step (OpAcquire n) (activity_of s)"
    "activity_of (snd (tryAcquire n s)) = activity_step (OpTryAcquire n) (activity_of s)"
proof -
  have i: "slave_inv s" and d: "distinct (map sub_name (stateList s))" and c: "consistent (currentState s) (stateList s)"
    using assms slave_distinct by (auto simp: cons_inv_def)
  have cancel: "add_use (-1) i (add_use 1 i a) = a" for i a
  proof (cases "uses a ! i")
    case (fields x y z)
    then show ?thesis using list_update_id [of "uses a" i]
      by (cases "i < length (uses a)") (simp_all add: add_use_def list_update_beyond)
  qed
  have act: "sub_act (stateList s ! i) = STATE_ACTION_NONE \<and> sub_state (stateList s ! i) = STATE_ACTIVATED \<longleftrightarrow>
      currentState s \<in> set (mainstates (stateList s ! i)) \<and> desired s \<in> set (mainstates (stateList s ! i))"
    if "\<not> idle s" "i < length (stateList s)" for i
    using i c that by (auto simp: inv_defs marked_def consistent_nth all_nth action_for_def)
  have live: "\<not> idle s \<Longrightarrow> currentState s \<noteq> ''Shutdown''" using i by (auto simp: inv_defs)
  have m: "sub_state (stateList s ! i) = STATE_ACTIVATED \<longleftrightarrow> currentState s \<in> set (mainstates (stateList s ! i))"
    if "i < length (stateList s)" for i using c that by (simp add: consistent_nth)
  show "activity_of (snd (acquire n s)) = activity_step (OpAcquire n) (activity_of s)"
    using assms(2) act live m find_sub_SomeD(1) [OF _ d]
    by (auto simp: acquire_def acquire_changed_def acquire_activated_def Let_def not_idle [symmetric] cancel split: option.splits)
  show "activity_of (snd (tryAcquire n s)) = activity_step (OpTryAcquire n) (activity_of s)"
    using assms(2) act live m find_sub_SomeD(1) [OF _ d]
    by (auto simp: tryAcquire_def Let_def not_idle [symmetric] split: option.splits)
qed

lemma activity_resume: "activity_of (snd (resume p s)) = activity_step (OpResume p) (activity_of s)"
  by (cases p) (auto simp: acquire_changed_def acquire_activated_def setWaitState_resume_def push_last_def)


subsection \<open>The slave refines the activity\<close>

definition active_slave :: "slave \<Rightarrow> bool" where
  "active_slave s \<longleftrightarrow> cons_inv s \<and> running s"

lemma exec_running: "running s \<Longrightarrow> running (exec op s)"
proof (cases op)
  case (OpRelease n)
  then show "running s \<Longrightarrow> ?thesis" using release_cnt_list [of n s] by (auto simp: release_def split_beta)
next
  case (OpResume p)
  then show "running s \<Longrightarrow> ?thesis" by (cases p) (auto simp: acquire_changed_def acquire_activated_def setWaitState_resume_def)
qed (auto simp: defineStates_running setUpInitialState_def activate_def on_execute_def updateStateFromThread_def emit_def
    setWaitState_def wait_change_def push_front_def new_entry_def acquire_def acquire_changed_def acquire_activated_def
    tryAcquire_def Let_def split_beta split: option.splits list.splits)

lemma activity_exec:
  assumes "active_slave s"
  shows "activity_of (exec op s) = activity_step op (activity_of s)"
proof (cases op)
  case (OpSetInitial m)
  then show ?thesis using assms activity_setInitial slave_distinct by (auto simp: active_slave_def cons_inv_def)
next
  case (OpResume p)
  then show ?thesis using activity_resume by simp
qed (use assms activity_query activity_setWait activity_thread activity_release activity_acquire
  in \<open>simp_all add: active_slave_def defineStates_running activate_def\<close>)

interpretation slave_activity: refines exec activity_step activity_of active_slave no_deactivation
proof unfold_locales
  show "active_slave (exec op s)" if "active_slave s" "no_deactivation op" for op s
    using that exec_cons [of s op] exec_running [of s op] by (cases op) (auto simp: active_slave_def)
qed (rule activity_exec)

text \<open>C4: The slave implements the activity: from every state an activated slave can reach without a request to
  deactivate it, any sequence of operations, resumed calls included, acts on its main state, the
  state waited for, the requests, the counts of the sub-states and the initial state exactly as the
  abstract activity does, so that none of them depends on actions, modes, clients or callbacks.\<close>

theorem slave_refines_activity:
  assumes "reachable no_deactivation s" "running s" "\<forall>op \<in> set ops. no_deactivation op"
  shows "activity_of (fold exec ops s) = fold activity_step ops (activity_of s)"
  using slave_activity.runs(2) [of s ops] assms reachable_cons [OF assms(1)] by (simp add: active_slave_def)

theorem slave_refines_activity_witness:
  "activity_of (fold exec [OpQuery 8 1 ''Idle'', OpThread, OpRelease ''motor''] sample_slave) =
     fold activity_step [OpQuery 8 1 ''Idle'', OpThread, OpRelease ''motor''] (activity_of sample_slave) \<and>
   main (fold activity_step [OpQuery 8 1 ''Idle'', OpThread] (activity_of sample_slave)) = ''Work'' \<and>
   main (fold activity_step [OpQuery 8 1 ''Idle'', OpThread, OpRelease ''motor''] (activity_of sample_slave)) = ''Idle''"
proof -
  have "main (fold activity_step [OpQuery 8 1 ''Idle'', OpThread] (activity_of sample_slave)) = ''Work'' \<and>
    main (fold activity_step [OpQuery 8 1 ''Idle'', OpThread, OpRelease ''motor''] (activity_of sample_slave)) = ''Idle''"
    by code_simp
  moreover have "activity_of (fold exec [OpQuery 8 1 ''Idle'', OpThread, OpRelease ''motor''] sample_slave) =
     fold activity_step [OpQuery 8 1 ''Idle'', OpThread, OpRelease ''motor''] (activity_of sample_slave)"
    by (rule slave_refines_activity [OF sample_reachable]) (use sample_eval in simp_all)
  ultimately show ?thesis by blast
qed

end
