(* ===== verification/SlaveThreads.thy ===== *)
theory SlaveThreads
  imports SlaveSpec
begin

section \<open>The threads that wait in the state slave\<close>

text \<open>
  The slave with the threads of its component: the calls that wait on a condition variable, those that
  were notified and have not gone on yet, and the sub-states the threads hold. Between a notification
  and the moment the woken thread has the mutex again, other operations can run. A thread may also wake
  without a notification, as \<open>std::condition_variable\<close> allows: the code waits without a predicate and does not
  look again.
\<close>

subsection \<open>The system\<close>

record system =
  sys :: slave
  sleeping :: "pc list"
  woken :: "pc list"
  holds :: "nat list"

definition new_system :: "bool \<Rightarrow> system" where
  "new_system h = \<lparr> sys = new_slave h, sleeping = [], woken = [], holds = [] \<rparr>"

fun condition_of :: "pc \<Rightarrow> event" where
  "condition_of (AcquireChanging i) = NotifySub i"
| "condition_of (AcquireInactive i) = NotifySub i"
| "condition_of (WaitChange m c) = NotifyReq c"
| "condition_of (WaitInitial c) = NotifyReq c"

text \<open>What a call ends with; the sub-state it acquires if that is \<open>SMART_OK\<close>.\<close>

fun outcome_of :: "op \<Rightarrow> slave \<Rightarrow> outcome option" where
  "outcome_of (OpAcquire n) s = Some (fst (acquire n s))"
| "outcome_of (OpTryAcquire n) s = Some (Return (fst (tryAcquire n s)))"
| "outcome_of (OpSetWait m) s = Some (fst (setWaitState m s))"
| "outcome_of (OpResume p) s = Some (fst (resume p s))"
| "outcome_of _ s = None"

fun target_of :: "op \<Rightarrow> slave \<Rightarrow> nat option" where
  "target_of (OpAcquire n) s = find_sub n (stateList s)"
| "target_of (OpTryAcquire n) s = find_sub n (stateList s)"
| "target_of (OpResume (AcquireChanging i)) s = Some i"
| "target_of (OpResume (AcquireInactive i)) s = Some i"
| "target_of _ s = None"

definition gained :: "op \<Rightarrow> slave \<Rightarrow> nat list" where
  "gained op s = (if outcome_of op s = Some (Return SMART_OK) then (case target_of op s of None \<Rightarrow> [] | Some i \<Rightarrow> [i]) else [])"

definition blocks :: "op \<Rightarrow> slave \<Rightarrow> pc list" where
  "blocks op s = (case outcome_of op s of Some (Block p) \<Rightarrow> [p] | _ \<Rightarrow> [])"

definition new_events :: "op \<Rightarrow> slave \<Rightarrow> event list" where
  "new_events op s = drop (length (trace s)) (trace (exec op s))"

fun resumed :: "op \<Rightarrow> pc list \<Rightarrow> pc list" where
  "resumed (OpResume p) ps = remove1 p ps"
| "resumed _ ps = ps"

fun given_back :: "op \<Rightarrow> slave \<Rightarrow> nat list \<Rightarrow> nat list" where
  "given_back (OpRelease n) s is = (case find_sub n (stateList s) of None \<Rightarrow> is | Some i \<Rightarrow> remove1 i is)"
| "given_back _ s is = is"

text \<open>A call is executed, and the threads whose condition it notified wake up.\<close>

definition sys_exec :: "op \<Rightarrow> system \<Rightarrow> system" where
  "sys_exec op y = (let s = sys y; es = new_events op s in
    \<lparr> sys = exec op s,
      sleeping = filter (\<lambda>p. condition_of p \<notin> set es) (sleeping y) @ blocks op s,
      woken = resumed op (woken y) @ filter (\<lambda>p. condition_of p \<in> set es) (sleeping y),
      holds = given_back op s (holds y) @ gained op s \<rparr>)"

text \<open>A sleeping call wakes without a notification.\<close>

definition wake :: "pc \<Rightarrow> system \<Rightarrow> system" where
  "wake p y = y \<lparr> sleeping := remove1 p (sleeping y), woken := woken y @ [p] \<rparr>"

text \<open>
  Only a woken call goes on. Any thread calls any operation at any time, \<open>release\<close> too, whether it holds the
  sub-state or not, and any sleeping call may wake; \<open>P\<close> restricts the operations in a claim.
\<close>

fun sys_enabled :: "op \<Rightarrow> system \<Rightarrow> bool" where
  "sys_enabled (OpResume p) y \<longleftrightarrow> p \<in> set (woken y)"
| "sys_enabled _ y \<longleftrightarrow> True"

inductive sys_reachable :: "(op \<Rightarrow> system \<Rightarrow> bool) \<Rightarrow> system \<Rightarrow> bool" for P where
  start: "sys_reachable P (new_system h)"
| step: "sys_reachable P y \<Longrightarrow> sys_enabled op y \<Longrightarrow> P op y \<Longrightarrow> sys_reachable P (sys_exec op y)"
| spurious: "sys_reachable P y \<Longrightarrow> p \<in> set (sleeping y) \<Longrightarrow> sys_reachable P (wake p y)"

lemma wake_simps [simp]:
  "sys (wake p y) = sys y" "holds (wake p y) = holds y" "set (woken (wake p y)) = insert p (set (woken y))"
  by (simp_all add: wake_def)

lemma wake_sleeping: "q \<in> set (sleeping (wake p y)) \<Longrightarrow> q \<in> set (sleeping y)"
  using set_remove1_subset by (fastforce simp: wake_def)

subsection \<open>What an operation does to the modes, and whom it notifies\<close>

text \<open>An operation changes the modes and calls the change handler only in an update that performs a change.\<close>

lemma notify_events_iff: "NotifySub i \<in> set (notify_events d es) \<longleftrightarrow>
    i < length es \<and> (sub_state (es ! i) = STATE_ACTIVATED \<or> d = ''Shutdown'')"
  by (force simp: notify_events_def in_set_enumerate_eq)

definition notified_subs :: "slave \<Rightarrow> slave \<Rightarrow> nat set" where
  "notified_subs s s' = {i. NotifySub i \<in> set (drop (length (trace s)) (trace s'))}"

definition announces :: "slave \<Rightarrow> slave \<Rightarrow> bool" where
  "announces s s' \<longleftrightarrow> notified_subs s s' = {i. i < length (stateList s') \<and>
     (sub_state (stateList s' ! i) = STATE_ACTIVATED \<or> currentState s' = ''Shutdown'')}"

definition silent :: "slave \<Rightarrow> slave \<Rightarrow> bool" where
  "silent s s' \<longleftrightarrow> map sub_state (stateList s') = map sub_state (stateList s) \<and> currentState s' = currentState s \<and>
     has_handler s' = has_handler s \<and> notified_subs s s' = {} \<and>
     filter is_callback (trace s') = filter is_callback (trace s)"

lemma silentI: "map sub_state (stateList s') = map sub_state (stateList s) \<Longrightarrow> currentState s' = currentState s \<Longrightarrow>
    has_handler s' = has_handler s \<Longrightarrow> trace s' = trace s @ t \<Longrightarrow> (\<And>i. NotifySub i \<notin> set t) \<Longrightarrow> filter is_callback t = [] \<Longrightarrow> silent s s'"
  unfolding silent_def notified_subs_def by simp

lemma map_state_add_cnt [simp]: "map sub_state (stateList (add_cnt k i s)) = map sub_state (stateList s)"
  by (auto simp: list_eq_iff_nth_eq)

lemma silent_simps [simp]: "silent s s" "silent s (add_cnt k i s') = silent s s'"
  unfolding silent_def notified_subs_def by simp_all

lemma silent_nth: "silent s s' \<Longrightarrow> length (stateList s') = length (stateList s) \<and>
    (\<forall>i < length (stateList s). sub_state (stateList s' ! i) = sub_state (stateList s ! i)) \<and> currentState s' = currentState s"
proof -
  assume "silent s s'"
  then have m: "map sub_state (stateList s') = map sub_state (stateList s)" "currentState s' = currentState s"
    by (simp_all add: silent_def)
  then show ?thesis using map_eq_imp_length_eq [OF m(1)] by (auto simp: list_eq_iff_nth_eq)
qed

lemma notified_trans:
  "trace s = trace s0 @ t \<Longrightarrow> trace s' = trace s @ u \<Longrightarrow> notified_subs s0 s = {} \<Longrightarrow> notified_subs s0 s' = notified_subs s s'"
  by (auto simp: notified_subs_def)

lemma no_notify [simp]: "NotifySub i \<notin> set (answer_events r c)" "NotifySub i \<notin> set (enforce_events d)" "NotifySub i \<notin> set (change_events es)"
  by (auto simp: answer_events_def enforce_events_def change_events_def split: option.splits)

lemma update_trace:
  assumes "distinct (map sub_name (stateList s))"
  shows "\<exists>t. trace (updateState s) = trace s @ t"
  using perform_eq [OF assms] by (auto simp: updateState_cases settled_def)

lemma update_modes:
  assumes "distinct (map sub_name (stateList s))"
  shows "silent s (updateState s) \<or> announces s (updateState s)"
proof (cases "idle s \<or> desired s = currentState s \<or> \<not> changeable s \<or> blocked s")
  case True
  have "silent s (settled r s)" for r by (rule silentI [where t = "answer_events r (se_client (desiredState s))"]) (simp_all add: settled_def)
  moreover have "silent s (mark_actions s)" by (rule silentI [where t = "[]"]) (simp_all, simp add: mark_actions_def)
  ultimately show ?thesis using True by (auto simp: updateState_cases)
next
  case False
  then have "updateState s = perform_change (mark_actions s)" by (simp add: updateState_cases)
  then have "announces s (updateState s)"
    by (auto simp: perform_eq [OF assms] announces_def notified_subs_def notify_events_iff)
  then show ?thesis ..
qed

text \<open>An operation that adds events without notification before it updates.\<close>

lemma update_after:
  assumes "distinct (map sub_name (stateList s))" "silent s0 s" "trace s = trace s0 @ t"
  shows "silent s0 (updateState s) \<or> announces s0 (updateState s)"
proof -
  obtain u where u: "trace (updateState s) = trace s @ u" using update_trace [OF assms(1)] by blast
  have "notified_subs s0 s = {}" using assms(2) by (simp add: silent_def)
  from notified_trans [OF assms(3) u this] update_modes [OF assms(1)] show ?thesis
    using assms(2) by (auto simp: silent_def announces_def)
qed

lemma release_parts:
  assumes "distinct (map sub_name (stateList s))"
  shows "trace (snd (release_cnt n s)) = trace s" "silent s (snd (release_cnt n s))"
    "distinct (map sub_name (stateList (snd (release_cnt n s))))"
  using release_cnt_list [of n s] assms by (auto simp: map_fst_shape simp del: map_map)

lemma dequeued_silent: "silent s (dequeued s)"
  by (rule silentI) (auto simp: dequeued_def Let_def split: if_splits)

lemma exec_trace:
  assumes "distinct (map sub_name (stateList s))"
  shows "\<exists>t. trace (exec op s) = trace s @ t"
proof (cases op)
  case OpThread
  have "\<exists>t. trace (updateState (dequeued s)) = trace (dequeued s) @ t" using assms by (intro update_trace) simp
  then show ?thesis
    using OpThread on_execute_dequeued [OF assms] on_execute_stays [of s] by (cases "thread_running s \<and> stateQueue s \<noteq> []") (auto simp: dequeued_def Let_def)
next
  case (OpRelease n)
  have "\<exists>t. trace (updateState (snd (release_cnt n s))) = trace (snd (release_cnt n s)) @ t"
    by (rule update_trace [OF release_parts(3) [OF assms]])
  then show ?thesis using OpRelease release_parts(1) [OF assms] by (auto simp: release_def split_beta)
next
  case (OpDefine m n)
  then show ?thesis by (simp add: defineStates_def split_beta)
next
  case (OpAcquire n)
  then show ?thesis using acquire_list [of n s] by auto
next
  case (OpTryAcquire n)
  then show ?thesis using tryAcquire_list [of n s] by auto
next
  case (OpResume p)
  then show ?thesis by (cases p) (simp_all add: acquire_changed_def acquire_activated_def setWaitState_resume_def)
qed (auto simp: setUpInitialState_def activate_def handleQuery_def hndSetMainState_def new_entry_def split_beta slave_simps
    setWaitState_def wait_change_def push_front_def split: option.splits)

text \<open>An operation is silent, or an update after a silent step.\<close>

lemma exec_cases:
  assumes "slave_inv s" "running s"
  shows "silent s (exec op s) \<or> (\<exists>s1 t. silent s s1 \<and> distinct (map sub_name (stateList s1)) \<and>
    trace s1 = trace s @ t \<and> exec op s = updateState s1)"
proof -
  note d = slave_distinct [OF assms(1)]
  show ?thesis
  proof (cases op)
    case OpThread
    show ?thesis
    proof (cases "thread_running s \<and> stateQueue s \<noteq> []")
      case True
      have "\<exists>t. trace (dequeued s) = trace s @ t" by (simp add: dequeued_def Let_def)
      then show ?thesis using True OpThread on_execute_dequeued [OF d] dequeued_silent d
        by (metis dequeued_simps(3) exec.simps(5))
    qed (use OpThread on_execute_stays in simp)
  next
    case (OpRelease n)
    have "trace (snd (release_cnt n s)) = trace s @ []" using release_parts(1) [OF d] by simp
    then show ?thesis using OpRelease release_parts(2,3) [OF d, of n]
      by (cases "fst (release_cnt n s) = SMART_OK") (auto simp: release_def split_beta)
  next
    case (OpAcquire n)
    then show ?thesis using acquire_list [of n s] by auto
  next
    case (OpTryAcquire n)
    then show ?thesis using tryAcquire_list [of n s] by auto
  next
    case (OpResume p)
    have "silent s (s\<lparr>stateQueue := q\<rparr>)" for q by (rule silentI [where t = "[]"]) simp_all
    then show ?thesis using OpResume
      by (cases p) (simp_all add: acquire_changed_def acquire_activated_def setWaitState_resume_def)
  next
    case (OpSetInitial m)
    have "silent s (s\<lparr>initialState := m\<rparr>)" by (rule silentI [where t = "[]"]) simp_all
    then show ?thesis using OpSetInitial by (auto simp: setUpInitialState_def split: option.split)
  next
    case (OpQuery q c m)
    have "silent s (handleQuery q c m s)"
      by (rule silentI [where t = "drop (length (trace s)) (trace (handleQuery q c m s))"])
        (auto simp: handleQuery_def hndSetMainState_def new_entry_def split_beta slave_simps)
    then show ?thesis using OpQuery by simp
  next
    case (OpSetWait m)
    have "silent s (snd (setWaitState m s))"
      by (rule silentI [where t = "[]"]) (auto simp: setWaitState_def wait_change_def push_front_def new_entry_def split_beta)
    then show ?thesis using OpSetWait by simp
  next
    case OpActivate
    have "silent s (s\<lparr>running := True\<rparr>)" by (rule silentI [where t = "[]"]) simp_all
    then show ?thesis using OpActivate by (simp add: activate_def)
  qed (use assms(2) in \<open>simp add: defineStates_running\<close>)
qed

lemma exec_modes: "slave_inv s \<Longrightarrow> running s \<Longrightarrow> silent s (exec op s) \<or> announces s (exec op s)"
  using exec_cases [of s op] update_after by metis

text \<open>A call blocks at an inactive sub-state only, and not in the final state; it needs a slave that runs.\<close>

lemma blocks_inactive:
  assumes "distinct (map sub_name (stateList s))" "AcquireInactive i \<in> set (blocks op s)"
  shows "i < length (stateList (exec op s)) \<and> sub_state (stateList (exec op s) ! i) \<noteq> STATE_ACTIVATED \<and>
    currentState (exec op s) \<noteq> ''Shutdown''"
proof (cases op)
  case (OpAcquire n)
  then show ?thesis using assms find_sub_SomeD(1) [OF _ assms(1)]
    by (auto simp: blocks_def acquire_def acquire_changed_def acquire_activated_def Let_def split: option.splits if_splits)
next
  case (OpResume p)
  then show ?thesis using assms
    by (cases p) (auto simp: blocks_def acquire_changed_def acquire_activated_def setWaitState_resume_def split: if_splits)
next
  case (OpSetWait m)
  then show ?thesis using assms by (auto simp: blocks_def setWaitState_def wait_change_def split_beta split: if_splits)
qed (use assms in \<open>auto simp: blocks_def\<close>)

lemma stopped_quiet:
  assumes "\<not> running s" "op \<notin> range OpResume"
  shows "blocks op s = []" "gained op s = []"
  using assms by (cases op; auto simp: blocks_def gained_def acquire_def tryAcquire_def setWaitState_def)+

subsection \<open>The invariant\<close>

definition threads_inv :: "system \<Rightarrow> bool" where
  "threads_inv y \<longleftrightarrow> slave_inv (sys y) \<and>
     (running (sys y) \<or> sleeping y = [] \<and> woken y = [] \<and> holds y = []) \<and>
     (\<forall>i. AcquireInactive i \<in> set (sleeping y) \<longrightarrow> i < length (stateList (sys y)) \<and>
        sub_state (stateList (sys y) ! i) \<noteq> STATE_ACTIVATED \<and> currentState (sys y) \<noteq> ''Shutdown'')"

lemma exec_shape:
  assumes "slave_inv s" "running s"
  shows "map shape (stateList (exec op s)) = map shape (stateList s)"
proof -
  note d = slave_distinct [OF assms(1)]
  show ?thesis
  proof (cases op)
    case OpThread
    then show ?thesis using d on_execute_dequeued [OF d] on_execute_stays [of s]
      by (cases "thread_running s \<and> stateQueue s \<noteq> []") simp_all
  next
    case (OpRelease n)
    then show ?thesis using release_cnt_list [of n s] release_parts(3) [OF d, of n] by (auto simp: release_def split_beta)
  next
    case (OpAcquire n)
    then show ?thesis using acquire_list [of n s] by auto
  next
    case (OpTryAcquire n)
    then show ?thesis using tryAcquire_list [of n s] by auto
  next
    case (OpResume p)
    then show ?thesis by (cases p) (simp_all add: acquire_changed_def acquire_activated_def setWaitState_resume_def)
  qed (use assms(2) in \<open>simp_all add: defineStates_running setUpInitialState_list activate_def\<close>)
qed

lemma exec_length: "slave_inv s \<Longrightarrow> running s \<Longrightarrow> length (stateList (exec op s)) = length (stateList s)"
  using exec_shape map_eq_imp_length_eq by blast

lemma enabled_running: "threads_inv y \<Longrightarrow> sys_enabled op y \<Longrightarrow> enabled op (sys y)"
  by (cases op) (auto simp: threads_inv_def)

lemma new_system_inv: "threads_inv (new_system h)"
  by (simp add: threads_inv_def new_system_def new_slave_inv)

lemma sys_exec_inv:
  assumes "threads_inv y" "sys_enabled op y"
  shows "threads_inv (sys_exec op y)"
proof -
  let ?s = "sys y" and ?s' = "exec op (sys y)"
  have i: "slave_inv ?s" and quiet: "\<not> running ?s \<Longrightarrow> sleeping y = [] \<and> woken y = [] \<and> holds y = []"
    and inactive: "\<And>i. AcquireInactive i \<in> set (sleeping y) \<Longrightarrow> i < length (stateList ?s) \<and>
        sub_state (stateList ?s ! i) \<noteq> STATE_ACTIVATED \<and> currentState ?s \<noteq> ''Shutdown''"
    using assms(1) by (auto simp: threads_inv_def)
  note d = slave_distinct [OF i]
  have "slave_inv ?s'" by (rule exec_inv [OF i enabled_running [OF assms]])
  moreover have "running ?s' \<or> sleeping (sys_exec op y) = [] \<and> woken (sys_exec op y) = [] \<and> holds (sys_exec op y) = []"
  proof (cases "running ?s")
    case True
    then show ?thesis by (simp add: exec_running)
  next
    case False
    then have "op \<notin> range OpResume" using assms(2) quiet by auto
    with stopped_quiet [OF False] quiet [OF False] show ?thesis
      by (cases op) (auto simp: sys_exec_def Let_def split: option.split)
  qed
  moreover have "i < length (stateList ?s') \<and> sub_state (stateList ?s' ! i) \<noteq> STATE_ACTIVATED \<and> currentState ?s' \<noteq> ''Shutdown''"
    if "AcquireInactive i \<in> set (sleeping (sys_exec op y))" for i
  proof (cases "AcquireInactive i \<in> set (blocks op ?s)")
    case True
    then show ?thesis by (rule blocks_inactive [OF d])
  next
    case False
    then have s: "AcquireInactive i \<in> set (sleeping y)" and e: "NotifySub i \<notin> set (new_events op ?s)"
      using that by (auto simp: sys_exec_def Let_def)
    have r: "running ?s" using quiet s by (metis empty_iff empty_set)
    note len = exec_length [OF i r]
    from exec_modes [OF i r, of op] show ?thesis
    proof
      assume "silent ?s ?s'"
      then show ?thesis using inactive [OF s] silent_nth [of ?s ?s'] by simp
    next
      assume "announces ?s ?s'"
      then show ?thesis using inactive [OF s] e len by (auto simp: announces_def notified_subs_def new_events_def)
    qed
  qed
  ultimately show ?thesis by (simp add: threads_inv_def) (simp add: sys_exec_def Let_def)
qed

lemma wake_inv: "threads_inv y \<Longrightarrow> p \<in> set (sleeping y) \<Longrightarrow> threads_inv (wake p y)"
  using wake_sleeping by (fastforce simp: threads_inv_def)

lemma sys_reachable_inv: "sys_reachable P y \<Longrightarrow> threads_inv y"
  by (induction rule: sys_reachable.induct) (auto simp: new_system_inv sys_exec_inv wake_inv)

lemma sys_reachable_slave:
  assumes "sys_reachable P y" "\<And>op y. P op y \<Longrightarrow> D op"
  shows "reachable D (sys y)"
  using assms(1)
proof induction
  case (start h)
  then show ?case by (simp add: new_system_def reachable.start)
next
  case (step y op)
  from reachable.step [OF step.IH enabled_running [OF sys_reachable_inv [OF step.hyps(1)] step.hyps(2)] assms(2) [OF step.hyps(3)]]
  show ?case by (simp add: sys_exec_def Let_def)
qed simp

text \<open>C17: No wake-up is lost at an inactive sub-state: however the threads interleave, a thread that sleeps in
  \<open>acquire\<close> because its sub-state was inactive when it came sleeps only as long as the sub-state is
  inactive and the slave is not shut down; the operation that changes this wakes it. This holds whatever threads release,
  and whichever of the other sleeping calls wake by chance.\<close>

theorem no_lost_wakeup:
  assumes "sys_reachable P y" "AcquireInactive i \<in> set (sleeping y)"
  shows "i < length (stateList (sys y)) \<and> sub_state (stateList (sys y) ! i) = STATE_DEACTIVATED \<and>
    currentState (sys y) \<noteq> ''Shutdown''"
  using sys_reachable_inv [OF assms(1)] assms(2) sub_mode_cases by (auto simp: threads_inv_def)


subsection \<open>Who a count counts\<close>

text \<open>
  Runs in which the threads are disciplined: a woken \<open>acquire\<close> goes on only while its sub-state is active (or after the
  shutdown), and of the active sub-states only what some thread holds is released. The code ensures neither: it waits without a predicate, so
  that a call notified for a change, or woken by chance, goes on whatever the sub-state is by then
  (\<open>late_wakeup_keeps_count\<close>, \<open>spurious_wakeup_acquires\<close>), and it does not record who holds what: \<open>release\<close>
  takes back a count, whoever calls it. Here an acquisition may be given back by another thread.
\<close>

fun disciplined :: "op \<Rightarrow> system \<Rightarrow> bool" where
  "disciplined (OpResume (AcquireChanging i)) y \<longleftrightarrow> sub_state (stateList (sys y) ! i) = STATE_ACTIVATED \<or> currentState (sys y) = ''Shutdown''"
| "disciplined (OpResume (AcquireInactive i)) y \<longleftrightarrow> sub_state (stateList (sys y) ! i) = STATE_ACTIVATED \<or> currentState (sys y) = ''Shutdown''"
| "disciplined (OpRelease n) y \<longleftrightarrow> (case find_sub n (stateList (sys y)) of None \<Rightarrow> True
     | Some i \<Rightarrow> i \<in> set (holds y) \<or> sub_state (stateList (sys y) ! i) \<noteq> STATE_ACTIVATED)"
| "disciplined _ y \<longleftrightarrow> True"

definition users :: "system \<Rightarrow> nat \<Rightarrow> nat" where
  "users y i = count_list (holds y) i + count_list (sleeping y) (AcquireInactive i) + count_list (woken y) (AcquireInactive i)"

lemma update_cnt: "distinct (map sub_name (stateList s)) \<Longrightarrow> i < length (stateList s) \<Longrightarrow>
    cnt (stateList (updateState s) ! i) = cnt (stateList s ! i)"
  using updateState_nth(2) .

lemma users_exec:
  assumes "threads_inv y" "sys_enabled op y"
  shows "users (sys_exec op y) i = count_list (given_back op (sys y) (holds y) @ gained op (sys y)) i +
    count_list (sleeping y @ blocks op (sys y)) (AcquireInactive i) + count_list (resumed op (woken y)) (AcquireInactive i)"
proof -
  have "count_list (filter Q xs) x + count_list (filter (\<lambda>p. \<not> Q p) xs) x = count_list xs x" for Q and xs :: "pc list" and x
    by (induction xs) auto
  from this [of "\<lambda>p. condition_of p \<notin> set (new_events op (sys y))" "sleeping y" "AcquireInactive i"]
  show ?thesis by (simp add: users_def sys_exec_def Let_def count_list_append)
qed

lemma count_list_remove1: "count_list (remove1 x xs) y = (if x = y \<and> x \<in> set xs then count_list xs y - 1 else count_list xs y)"
  by (induction xs) (auto simp: count_list_0_iff)

text \<open>A sub-state that is active and still counted afterwards stays active.\<close>

lemma held_silent: "silent s s' \<Longrightarrow> i < length (stateList s) \<Longrightarrow> sub_state (stateList s ! i) = STATE_ACTIVATED \<Longrightarrow>
    0 < cnt (stateList s' ! i) \<Longrightarrow> held i s'"
  using silent_nth [of s s'] by (simp add: held_def)

lemma exec_active:
  assumes "slave_inv s" "running s" "i < length (stateList s)" "sub_state (stateList s ! i) = STATE_ACTIVATED"
    and "0 < cnt (stateList (exec op s) ! i)"
  shows "sub_state (stateList (exec op s) ! i) = STATE_ACTIVATED"
proof -
  note d = slave_distinct [OF assms(1)]
  have update: "sub_state (stateList (updateState s1) ! i) = STATE_ACTIVATED"
    if "silent s s1" "distinct (map sub_name (stateList s1))" "0 < cnt (stateList (updateState s1) ! i)" for s1
  proof -
    have "i < length (stateList s1)" using silent_nth [OF that(1)] assms(3) by simp
    with that(2,3) have "0 < cnt (stateList s1 ! i)" by (simp add: update_cnt)
    then show ?thesis using updateState_held [OF that(2) held_silent [OF that(1) assms(3,4)]] by (simp add: held_def)
  qed
  consider s1 where "silent s s1" "distinct (map sub_name (stateList s1))" "exec op s = updateState s1" | "silent s (exec op s)"
    using exec_cases [OF assms(1,2), of op] by blast
  then show ?thesis
  proof cases
    case 1
    then show ?thesis using update assms(5) by simp
  next
    case 2
    then show ?thesis using silent_nth [OF 2] assms(3,4) by simp
  qed
qed


fun count_change :: "op \<Rightarrow> slave \<Rightarrow> nat \<Rightarrow> int" where
  "count_change (OpRelease n) s j = (if find_sub n (stateList s) = Some j \<and> sub_state (stateList s ! j) = STATE_ACTIVATED \<and>
     0 < cnt (stateList s ! j) then -1 else 0)"
| "count_change (OpResume (AcquireInactive i)) s j = 0"
| "count_change op s j = int (count_list (gained op s) j + count_list (blocks op s) (AcquireInactive j))"

lemma acquire_cases:
  assumes "running s" "find_sub n (stateList s) = Some i" "currentState s \<noteq> ''Shutdown''"
  shows "acquire n s = (Block (AcquireChanging i), s) \<or> acquire n s = (Return SMART_OK, add_cnt 1 i s) \<or>
    acquire n s = (Block (AcquireInactive i), add_cnt 1 i s)"
  using assms by (simp add: acquire_def acquire_changed_def Let_def)

lemma tryAcquire_cases:
  assumes "running s" "find_sub n (stateList s) = Some i"
  shows "tryAcquire n s = (SMART_NOTACTIVATED, s) \<or> tryAcquire n s = (SMART_OK, add_cnt 1 i s)"
  using assms by (simp add: tryAcquire_def Let_def)

text \<open>What one call does to the count of a sub-state.\<close>

lemma cnt_acquire:
  assumes "distinct (map sub_name (stateList s))" "running s" "currentState s \<noteq> ''Shutdown''"
  shows "cnt (stateList (exec (OpAcquire n) s) ! j) = cnt (stateList s ! j) + count_change (OpAcquire n) s j"
proof (cases "find_sub n (stateList s)")
  case None
  then show ?thesis using assms(2) by (simp add: gained_def blocks_def acquire_def)
next
  case (Some i)
  have i: "i < length (stateList s)" using find_sub_SomeD(1) [OF Some assms(1)] .
  consider "acquire n s = (Block (AcquireChanging i), s)" | "acquire n s = (Return SMART_OK, add_cnt 1 i s)"
    | "acquire n s = (Block (AcquireInactive i), add_cnt 1 i s)"
    using acquire_cases [OF assms(2) Some assms(3)] by blast
  then show ?thesis using Some i by cases (simp_all add: gained_def blocks_def add_cnt_nth)
qed

lemma cnt_tryAcquire:
  assumes "distinct (map sub_name (stateList s))" "running s"
  shows "cnt (stateList (exec (OpTryAcquire n) s) ! j) = cnt (stateList s ! j) + count_change (OpTryAcquire n) s j"
proof (cases "find_sub n (stateList s)")
  case None
  then show ?thesis using assms(2) by (simp add: gained_def blocks_def tryAcquire_def)
next
  case (Some i)
  have i: "i < length (stateList s)" using find_sub_SomeD(1) [OF Some assms(1)] .
  consider "tryAcquire n s = (SMART_NOTACTIVATED, s)" | "tryAcquire n s = (SMART_OK, add_cnt 1 i s)"
    using tryAcquire_cases [OF assms(2) Some] by blast
  then show ?thesis using Some i by cases (simp_all add: gained_def blocks_def add_cnt_nth)
qed

lemma cnt_release:
  assumes "distinct (map sub_name (stateList s))" "running s" "j < length (stateList s)"
  shows "cnt (stateList (exec (OpRelease n) s) ! j) = cnt (stateList s ! j) + count_change (OpRelease n) s j"
proof -
  have len: "length (stateList (snd (release_cnt n s))) = length (stateList s)"
    using silent_nth [OF release_parts(2) [OF assms(1)]] by blast
  have "cnt (stateList (snd (release_cnt n s)) ! j) = cnt (stateList s ! j) + count_change (OpRelease n) s j"
    using assms(2,3) by (auto simp: release_cnt_def add_cnt_nth split: option.split)
  then show ?thesis using update_cnt [OF release_parts(3) [OF assms(1)]] len assms(3) by (simp add: release_def split_beta)
qed

lemma cnt_resume:
  assumes "currentState s \<noteq> ''Shutdown''" "j < length (stateList s)"
  shows "cnt (stateList (exec (OpResume p) s) ! j) = cnt (stateList s ! j) + count_change (OpResume p) s j"
proof (cases p)
  case (AcquireChanging i)
  have "acquire_changed i s = (Return SMART_OK, add_cnt 1 i s)" using assms(1) by (simp add: acquire_changed_def)
  then show ?thesis using AcquireChanging assms(2)
    by (cases "i = j") (simp_all add: gained_def blocks_def add_cnt_nth)
next
  case (AcquireInactive i)
  then show ?thesis using assms(1) by (simp add: acquire_activated_def)
next
  case (WaitChange m c)
  then show ?thesis by (cases "m = ''Alive''") (simp_all add: gained_def blocks_def setWaitState_resume_def)
next
  case (WaitInitial c)
  then show ?thesis by (simp add: gained_def blocks_def)
qed

lemma setWaitState_blocks: "count_list (blocks (OpSetWait m) s) (AcquireInactive j) = 0" "gained (OpSetWait m) s = []"
proof -
  have "fst (setWaitState m s) \<noteq> Block (AcquireInactive j)"
    by (simp add: setWaitState_def wait_change_def split_beta)
  then have "AcquireInactive j \<notin> set (blocks (OpSetWait m) s)"
    by (simp add: blocks_def split: outcome.split)
  then show "count_list (blocks (OpSetWait m) s) (AcquireInactive j) = 0" by (simp add: count_list_0_iff)
qed (simp add: gained_def)

lemma exec_cnt:
  assumes "slave_inv s" "running s" "currentState s \<noteq> ''Shutdown''" "j < length (stateList s)"
  shows "cnt (stateList (exec op s) ! j) = cnt (stateList s ! j) + count_change op s j"
proof (cases op)
  case OpThread
  note d = slave_distinct [OF assms(1)]
  show ?thesis using OpThread assms(4) d on_execute_dequeued [OF d] on_execute_stays [of s]
    by (cases "thread_running s \<and> stateQueue s \<noteq> []") (simp_all add: update_cnt gained_def blocks_def)
next
  case (OpSetWait m)
  have "stateList (snd (setWaitState m s)) = stateList s" by simp
  then show ?thesis using OpSetWait setWaitState_blocks [of m s] by simp
next
  case (OpAcquire n)
  show ?thesis unfolding OpAcquire by (rule cnt_acquire [OF slave_distinct [OF assms(1)] assms(2,3)])
next
  case (OpTryAcquire n)
  show ?thesis unfolding OpTryAcquire by (rule cnt_tryAcquire [OF slave_distinct [OF assms(1)] assms(2)])
next
  case (OpRelease n)
  show ?thesis unfolding OpRelease by (rule cnt_release [OF slave_distinct [OF assms(1)] assms(2,4)])
next
  case (OpResume p)
  show ?thesis unfolding OpResume by (rule cnt_resume [OF assms(3,4)])
qed (use assms(2) in \<open>simp_all add: defineStates_running setUpInitialState_list activate_def gained_def blocks_def\<close>)

definition counted :: "system \<Rightarrow> bool" where
  "counted y \<longleftrightarrow>
     (\<forall>i. i \<in> set (holds y) \<or> AcquireInactive i \<in> set (woken y) \<or> AcquireChanging i \<in> set (sleeping y) \<union> set (woken y) \<longrightarrow>
        i < length (stateList (sys y))) \<and>
     (currentState (sys y) \<noteq> ''Shutdown'' \<longrightarrow>
       (\<forall>i < length (stateList (sys y)). cnt (stateList (sys y) ! i) = int (users y i)) \<and>
       (\<forall>i \<in> set (holds y). sub_state (stateList (sys y) ! i) = STATE_ACTIVATED))"

lemma shutdown_stays:
  assumes "slave_inv s" "running s" "currentState s = ''Shutdown''"
  shows "currentState (exec op s) = ''Shutdown''"
proof -
  have i: "idle s" "\<not> thread_running s" using assms by (auto simp: inv_defs)
  show ?thesis
  proof (cases op)
    case (OpRelease n)
    have "idle (snd (release_cnt n s))" "currentState (snd (release_cnt n s)) = ''Shutdown''"
      using release_cnt_list [of n s] i assms(3) by auto
    then show ?thesis using OpRelease by (simp add: release_def split_beta updateState_cases)
  next
    case (OpAcquire n)
    then show ?thesis using acquire_list [of n s] assms(3) by auto
  next
    case (OpTryAcquire n)
    then show ?thesis using tryAcquire_list [of n s] assms(3) by auto
  next
    case (OpResume p)
    then show ?thesis using assms(3)
      by (cases p) (simp_all add: acquire_changed_def acquire_activated_def setWaitState_resume_def)
  qed (use i assms(2,3) in \<open>auto simp: on_execute_stays defineStates_running setUpInitialState_def activate_def split: option.splits\<close>)
qed


lemma counted_simps [simp]:
  "sys (sys_exec op y) = exec op (sys y)"
  "set (holds (sys_exec op y)) = set (given_back op (sys y) (holds y)) \<union> set (gained op (sys y))"
  by (simp_all add: sys_exec_def Let_def)

lemma given_back_sub: "set (given_back op s is) \<subseteq> set is"
  by (cases op) (simp_all add: set_remove1_subset split: option.split)

lemma resumed_sub: "set (resumed op ps) \<subseteq> set ps"
  by (cases op) (simp_all add: set_remove1_subset)

lemma gained_iff: "i \<in> set (gained op s) \<longleftrightarrow> outcome_of op s = Some (Return SMART_OK) \<and> target_of op s = Some i"
  unfolding gained_def by (cases "target_of op s"; cases "outcome_of op s = Some (Return SMART_OK)") (simp_all add: eq_commute)

text \<open>What is acquired is active at that moment: what \<open>acquire\<close> grants at once, and what a woken call acquires.\<close>

lemma granted_active:
  assumes "running s" "currentState s \<noteq> ''Shutdown''" "find_sub n (stateList s) = Some i"
  shows "fst (acquire n s) = Return SMART_OK \<Longrightarrow> sub_state (stateList s ! i) = STATE_ACTIVATED"
    "fst (tryAcquire n s) = SMART_OK \<Longrightarrow> sub_state (stateList s ! i) = STATE_ACTIVATED"
  by (rule ccontr, use assms in \<open>simp add: acquire_def tryAcquire_def Let_def split: if_splits\<close>)+

lemma gained_active:
  assumes "running s" "currentState s \<noteq> ''Shutdown''" "i \<in> set (gained op s)"
    and "\<And>p. op = OpResume p \<Longrightarrow> p \<in> {AcquireChanging i, AcquireInactive i} \<Longrightarrow> sub_state (stateList s ! i) = STATE_ACTIVATED"
  shows "sub_state (stateList s ! i) = STATE_ACTIVATED"
proof (cases op)
  case (OpAcquire n)
  then have "find_sub n (stateList s) = Some i" "fst (acquire n s) = Return SMART_OK" using assms(3) by (auto simp: gained_iff)
  with granted_active(1) [OF assms(1,2)] show ?thesis by blast
next
  case (OpTryAcquire n)
  then have "find_sub n (stateList s) = Some i" "fst (tryAcquire n s) = SMART_OK" using assms(3) by (auto simp: gained_iff)
  with granted_active(2) [OF assms(1,2)] show ?thesis by blast
next
  case (OpResume p)
  then show ?thesis using assms(3,4) by (cases p) (simp_all add: gained_iff)
qed (use assms(3) in \<open>simp_all add: gained_iff\<close>)

lemma acquired_in_range:
  assumes "distinct (map sub_name (stateList s))"
    and "i \<in> set (gained op s) \<or> AcquireInactive i \<in> set (blocks op s) \<or> AcquireChanging i \<in> set (blocks op s)"
    and "\<And>p. op = OpResume p \<Longrightarrow> p \<in> {AcquireChanging i, AcquireInactive i} \<Longrightarrow> i < length (stateList s)"
  shows "i < length (stateList s)"
proof (cases op)
  case (OpAcquire n)
  then have "find_sub n (stateList s) = Some i" using assms(2)
    by (auto simp: gained_iff blocks_def acquire_def acquire_changed_def acquire_activated_def Let_def split: option.splits if_splits)
  from find_sub_SomeD(1) [OF this assms(1)] show ?thesis .
next
  case (OpTryAcquire n)
  then have "find_sub n (stateList s) = Some i" using assms(2) by (auto simp: gained_iff blocks_def)
  from find_sub_SomeD(1) [OF this assms(1)] show ?thesis .
next
  case (OpSetWait m)
  have "fst (setWaitState m s) \<noteq> Block (AcquireInactive i)" "fst (setWaitState m s) \<noteq> Block (AcquireChanging i)"
    by (simp_all add: setWaitState_def wait_change_def split_beta)
  then show ?thesis using OpSetWait assms(2) by (simp add: gained_iff blocks_def split: outcome.splits)
next
  case (OpResume p)
  then show ?thesis using assms(2,3)
    by (cases p) (simp_all add: gained_iff blocks_def acquire_changed_def acquire_activated_def setWaitState_resume_def split: if_splits)
qed (use assms(2) in \<open>simp_all add: gained_iff blocks_def\<close>)


lemma counted_new: "counted (new_system h)"
proof -
  have "\<forall>e \<in> set initial_subs. cnt e = 0" by (simp add: initial_subs_def new_sub_def)
  then show ?thesis by (simp add: counted_def new_system_def users_def new_slave_def)
qed

lemma stopped_exec:
  assumes "slave_inv s" "\<not> running s" "op \<notin> range OpResume" "\<forall>e \<in> set (stateList s). cnt e = 0"
  shows "\<forall>e \<in> set (stateList (exec op s)). cnt e = 0"
proof (cases op)
  case (OpDefine m n)
  have "\<forall>c \<in> set (counters (stateList s)). fst c = 0" using assms(4) by (simp add: counters_def)
  then have "\<forall>c \<in> set (counters (stateList (snd (defineStates m n s)))). fst c = 0"
    using counters_defineStates [of m n s] by auto
  then show ?thesis using OpDefine by (simp add: counters_def)
next
  case OpThread
  then show ?thesis using assms(1,2,4) on_execute_stays [of s] by (simp add: inv_defs)
next
  case (OpAcquire n)
  then show ?thesis using assms(2,4) by (simp add: acquire_def)
next
  case (OpTryAcquire n)
  then show ?thesis using assms(2,4) by (simp add: tryAcquire_def)
next
  case (OpRelease n)
  then show ?thesis using assms(2,4) by (simp add: release_def release_cnt_def)
qed (use assms(3,4) in \<open>auto simp: setUpInitialState_list activate_def\<close>)

text \<open>The balance of one operation: the count changes as the number of those it counts.\<close>

lemma users_resume:
  assumes "threads_inv y" "p \<in> set (woken y)" "currentState (sys y) \<noteq> ''Shutdown''"
  shows "int (users (sys_exec (OpResume p) y) i) = int (users y i) + count_change (OpResume p) (sys y) i"
proof -
  have "sys_enabled (OpResume p) y" using assms(2) by simp
  note u = users_exec [OF assms(1) this]
  show ?thesis
  proof (cases p)
    case (AcquireChanging k)
    have "acquire_changed k (sys y) = (Return SMART_OK, add_cnt 1 k (sys y))" using assms(3) by (simp add: acquire_changed_def)
    then show ?thesis using AcquireChanging unfolding u
      by (simp add: users_def gained_def blocks_def count_list_remove1 count_list_append)
  next
    case (AcquireInactive k)
    have "acquire_activated k (sys y) = (Return SMART_OK, sys y)" using assms(3) by (simp add: acquire_activated_def)
    moreover have "0 < count_list (woken y) (AcquireInactive k)"
      using assms(2) AcquireInactive by (metis count_list_0_iff neq0_conv)
    ultimately show ?thesis using AcquireInactive assms(2) unfolding u
      by (cases "k = i") (simp_all add: users_def gained_def blocks_def count_list_remove1 count_list_append)
  next
    case (WaitChange m c)
    then show ?thesis unfolding u
      by (cases "m = ''Alive''")
        (simp_all add: users_def gained_def blocks_def count_list_remove1 count_list_append setWaitState_resume_def)
  next
    case (WaitInitial c)
    then show ?thesis unfolding u
      by (simp add: users_def gained_def blocks_def count_list_remove1 count_list_append)
  qed
qed

lemma users_release:
  assumes "threads_inv y" "counted y" "disciplined (OpRelease n) y"
    and "currentState (sys y) \<noteq> ''Shutdown''" "i < length (stateList (sys y))"
  shows "int (users (sys_exec (OpRelease n) y) i) = int (users y i) + count_change (OpRelease n) (sys y) i"
proof -
  have "sys_enabled (OpRelease n) y" by simp
  note u = users_exec [OF assms(1) this]
  have active: "sub_state (stateList (sys y) ! k) = STATE_ACTIVATED" "0 < count_list (holds y) k" if "k \<in> set (holds y)" for k
    using assms(2,4) that by (simp_all add: counted_def) (metis count_list_0_iff neq0_conv)
  have cnt: "int (users y i) = cnt (stateList (sys y) ! i)" using assms(2,4,5) by (simp add: counted_def)
  show ?thesis
  proof (cases "find_sub n (stateList (sys y))")
    case None
    then show ?thesis unfolding u by (simp add: users_def gained_def blocks_def count_list_append)
  next
    case (Some k)
    show ?thesis
    proof (cases "k \<in> set (holds y)")
      case True
      with Some active [OF True] cnt show ?thesis unfolding u
        by (cases "k = i") (simp_all add: users_def gained_def blocks_def count_list_remove1 count_list_append)
    next
      case False
      then have "sub_state (stateList (sys y) ! k) \<noteq> STATE_ACTIVATED" using Some assms(3) by simp
      with Some False show ?thesis unfolding u
        by (cases "k = i") (simp_all add: users_def gained_def blocks_def count_list_append remove1_idem)
    qed
  qed
qed

lemma users_change:
  assumes "threads_inv y" "counted y" "sys_enabled op y" "disciplined op y" "currentState (sys y) \<noteq> ''Shutdown''"
    and "i < length (stateList (sys y))"
  shows "int (users (sys_exec op y) i) = int (users y i) + count_change op (sys y) i"
proof (cases op)
  case (OpRelease n)
  then show ?thesis using users_release [OF assms(1,2) _ assms(5,6)] assms(4) by blast
next
  case (OpResume p)
  then have "p \<in> set (woken y)" using assms(3) by simp
  then show ?thesis unfolding OpResume by (rule users_resume [OF assms(1) _ assms(5)])
qed (unfold users_exec [OF assms(1,3)], simp_all add: users_def count_list_append)

text \<open>What is held is active after the operation too.\<close>

lemma stays_active:
  assumes "threads_inv y" "counted y" "sys_enabled op y" "disciplined op y" "running (sys y)"
    and "currentState (exec op (sys y)) \<noteq> ''Shutdown''"
    and "\<forall>i < length (stateList (exec op (sys y))). cnt (stateList (exec op (sys y)) ! i) = int (users (sys_exec op y) i)"
    and "i \<in> set (holds (sys_exec op y))"
  shows "i < length (stateList (sys y)) \<and> sub_state (stateList (exec op (sys y)) ! i) = STATE_ACTIVATED"
proof -
  let ?s = "sys y" and ?s' = "exec op (sys y)"
  have inv: "slave_inv ?s" using assms(1) by (simp add: threads_inv_def)
  note d = slave_distinct [OF inv]
  have cur: "currentState ?s \<noteq> ''Shutdown''" using shutdown_stays [OF inv assms(5)] assms(6) by blast
  note len = exec_length [OF inv assms(5), of op]
  have pending: "j < length (stateList ?s)" if "{AcquireChanging j, AcquireInactive j} \<inter> set (woken y) \<noteq> {}" for j
    using assms(2) that by (auto simp: counted_def)
  have target: "j < length (stateList ?s) \<and> sub_state (stateList ?s ! j) = STATE_ACTIVATED"
    if "op = OpResume p" "p \<in> {AcquireChanging j, AcquireInactive j}" for p j
    using assms(3,4) that cur pending [of j] by auto
  consider "i \<in> set (holds y)" | "i \<in> set (gained op ?s)"
    using assms(8) given_back_sub [of op ?s "holds y"] by auto
  then have "i < length (stateList ?s) \<and> sub_state (stateList ?s ! i) = STATE_ACTIVATED"
  proof cases
    case 1
    then show ?thesis using assms(2) cur by (auto simp: counted_def)
  next
    case 2
    have "i < length (stateList ?s)" by (rule acquired_in_range [OF d]) (use 2 target in blast)+
    moreover have "sub_state (stateList ?s ! i) = STATE_ACTIVATED"
      by (rule gained_active [OF assms(5) cur 2]) (use target in blast)
    ultimately show ?thesis by blast
  qed
  moreover have "0 < users (sys_exec op y) i"
    using assms(8) by (metis (no_types) add_gr_0 count_list_0_iff neq0_conv users_def)
  ultimately show ?thesis using exec_active [OF inv assms(5), of i op] assms(7) len by auto
qed


lemma counted_stopped:
  assumes "threads_inv y" "counted y" "sys_enabled op y" "\<not> running (sys y)"
  shows "counted (sys_exec op y)"
proof -
  have e: "sleeping y = []" "woken y = []" "holds y = []" using assms(1,4) by (auto simp: threads_inv_def)
  have op: "op \<notin> range OpResume" using e(2) assms(3) by auto
  note q = stopped_quiet [OF assms(4) op]
  have n: "given_back op (sys y) [] = []" "resumed op [] = []"
    by (cases op; simp split: option.split)+
  have empty: "holds (sys_exec op y) = []" "sleeping (sys_exec op y) = []" "woken (sys_exec op y) = []"
    by (simp_all add: sys_exec_def Let_def e n q)
  have inv: "slave_inv (sys y)" using assms(1) by (simp add: threads_inv_def)
  then have "currentState (sys y) \<noteq> ''Shutdown''" using assms(4) by (simp add: inv_defs)
  with assms(2) have "\<forall>e \<in> set (stateList (sys y)). cnt e = 0"
    using e by (auto simp: counted_def users_def in_set_conv_nth)
  from stopped_exec [OF inv assms(4) op this] show ?thesis
    by (simp add: counted_def empty users_def)
qed

lemma waiting_in_range:
  assumes "threads_inv y" "counted y" "sys_enabled op y"
    and "i \<in> set (holds (sys_exec op y)) \<or> AcquireInactive i \<in> set (woken (sys_exec op y)) \<or>
      AcquireChanging i \<in> set (sleeping (sys_exec op y)) \<union> set (woken (sys_exec op y))"
  shows "i < length (stateList (sys y))"
proof -
  let ?s = "sys y"
  have d: "distinct (map sub_name (stateList ?s))" using assms(1) slave_distinct by (auto simp: threads_inv_def)
  have old: "j < length (stateList ?s)" if "j \<in> set (holds y) \<or> AcquireInactive j \<in> set (sleeping y) \<union> set (woken y) \<or>
      AcquireChanging j \<in> set (sleeping y) \<union> set (woken y)" for j
    using assms(1,2) that by (auto simp: counted_def threads_inv_def)
  have "i \<in> set (holds y) \<or> AcquireInactive i \<in> set (sleeping y) \<union> set (woken y) \<or>
      AcquireChanging i \<in> set (sleeping y) \<union> set (woken y) \<or>
      i \<in> set (gained op ?s) \<or> AcquireInactive i \<in> set (blocks op ?s) \<or> AcquireChanging i \<in> set (blocks op ?s)"
    using assms(4) given_back_sub [of op ?s "holds y"] resumed_sub [of op "woken y"]
    by (auto simp: sys_exec_def Let_def)
  moreover have "i < length (stateList ?s)"
    if "i \<in> set (gained op ?s) \<or> AcquireInactive i \<in> set (blocks op ?s) \<or> AcquireChanging i \<in> set (blocks op ?s)"
    by (rule acquired_in_range [OF d that]) (use assms(3) old in auto)
  ultimately show ?thesis using old by blast
qed

lemma sys_exec_counted:
  assumes "threads_inv y" "counted y" "sys_enabled op y" "disciplined op y"
  shows "counted (sys_exec op y)"
proof (cases "running (sys y)")
  case True
  let ?s = "sys y" and ?s' = "exec op (sys y)"
  have inv: "slave_inv ?s" using assms(1) by (simp add: threads_inv_def)
  note len = exec_length [OF inv True, of op]
  have "\<forall>i < length (stateList ?s'). cnt (stateList ?s' ! i) = int (users (sys_exec op y) i)"
    if "currentState ?s' \<noteq> ''Shutdown''"
  proof -
    have cur: "currentState ?s \<noteq> ''Shutdown''" using shutdown_stays [OF inv True] that by blast
    then show ?thesis using exec_cnt [OF inv True cur] users_change [OF assms(1-4) cur] assms(2) len
      by (simp add: counted_def)
  qed
  then show ?thesis using waiting_in_range [OF assms(1-3)] stays_active [OF assms True] len by (simp add: counted_def)
qed (use counted_stopped assms in blast)

lemma wake_counted:
  assumes "threads_inv y" "counted y" "p \<in> set (sleeping y)"
  shows "counted (wake p y)"
proof -
  have "users (wake p y) i = users y i" for i
  proof -
    have "count_list (sleeping y) p \<noteq> 0" using assms(3) by (simp add: count_list_0_iff)
    then show ?thesis
      by (cases "p = AcquireInactive i") (simp_all add: users_def wake_def count_list_remove1 count_list_append assms(3))
  qed
  then show ?thesis using assms wake_sleeping [of _ p y] by (fastforce simp: counted_def threads_inv_def)
qed

lemma disciplined_reachable: "sys_reachable disciplined y \<Longrightarrow> counted y"
proof (induction rule: sys_reachable.induct)
  case (step y op)
  then show ?case using sys_exec_counted sys_reachable_inv by blast
next
  case (spurious y p)
  then show ?case using wake_counted sys_reachable_inv by blast
qed (rule counted_new)


subsection \<open>Runs of the system\<close>

fun allowed_run :: "(op \<Rightarrow> system \<Rightarrow> bool) \<Rightarrow> op list \<Rightarrow> system \<Rightarrow> bool" where
  "allowed_run P [] y \<longleftrightarrow> True"
| "allowed_run P (op # ops) y \<longleftrightarrow> sys_enabled op y \<and> P op y \<and> allowed_run P ops (sys_exec op y)"

lemma sys_reachable_run: "sys_reachable P y \<Longrightarrow> allowed_run P ops y \<Longrightarrow> sys_reachable P (fold sys_exec ops y)"
  by (induction ops arbitrary: y) (auto intro: sys_reachable.step)

definition after :: "op list \<Rightarrow> system" where
  "after ops = fold sys_exec (setup_ops @ ops) (new_system True)"

lemma after_reachable: "allowed_run P (setup_ops @ ops) (new_system True) \<Longrightarrow> sys_reachable P (after ops)"
  unfolding after_def by (rule sys_reachable_run [OF sys_reachable.start])

definition waiting :: system where
  "waiting = after [OpQuery 7 1 ''Work'', OpThread, OpAcquire ''motor'', OpAcquire ''lamp'']"

lemma waiting_reachable: "sys_reachable disciplined waiting"
  unfolding waiting_def by (rule after_reachable) code_simp

lemma waiting_eval: "sleeping waiting = [AcquireInactive 6] \<and> holds waiting = [5] \<and> currentState (sys waiting) = ''Work'' \<and>
    length (stateList (sys waiting)) = 7"
  by code_simp

theorem no_lost_wakeup_witness:
  "6 < length (stateList (sys waiting)) \<and> sub_state (stateList (sys waiting) ! 6) = STATE_DEACTIVATED \<and>
    currentState (sys waiting) \<noteq> ''Shutdown''"
  by (rule no_lost_wakeup [OF waiting_reachable]) (simp add: waiting_eval)

text \<open>C18: A count counts its users: in runs in which a woken \<open>acquire\<close> goes on only while its sub-state is
  active and no active sub-state is released that no thread holds (\<open>disciplined\<close>, which the code does not ensure), each sub-state's
  count is, until the shutdown, the number of threads that hold it and of calls that wait or were woken to acquire it
  when it becomes active. Spurious wake-ups are part of these runs; only going on from one at an inactive sub-state is not.\<close>

theorem count_is_users:
  assumes "sys_reachable disciplined y" "currentState (sys y) \<noteq> ''Shutdown''" "i < length (stateList (sys y))"
  shows "cnt (stateList (sys y) ! i) = int (count_list (holds y) i + count_list (sleeping y) (AcquireInactive i) +
    count_list (woken y) (AcquireInactive i))"
  using disciplined_reachable [OF assms(1)] assms(2,3) by (simp add: counted_def users_def)

theorem count_is_users_witness:
  "cnt (stateList (sys waiting) ! 6) = int (count_list (holds waiting) 6 + count_list (sleeping waiting) (AcquireInactive 6) +
    count_list (woken waiting) (AcquireInactive 6))"
  by (rule count_is_users [OF waiting_reachable]) (simp_all add: waiting_eval)

text \<open>C16: What a thread holds it can rely on: in runs in which a woken \<open>acquire\<close> goes on only while its sub-state is
  active, no active sub-state is released that no thread holds (\<open>disciplined\<close>, which the code does not ensure) and no one asks for a
  deactivation, every sub-state some thread holds is active and the main state is one that has it, until the shutdown: no
  interleaving of masters, threads and changes takes a held sub-state away.\<close>

theorem holder_is_safe:
  assumes "sys_reachable (\<lambda>op y. disciplined op y \<and> no_deactivation op) y" "i \<in> set (holds y)" "currentState (sys y) \<noteq> ''Shutdown''"
  shows "i < length (stateList (sys y)) \<and> sub_state (stateList (sys y) ! i) = STATE_ACTIVATED \<and>
    currentState (sys y) \<in> set (mainstates (stateList (sys y) ! i))"
proof -
  have "sys_reachable disciplined y" using assms(1) by induction (auto intro: sys_reachable.intros)
  then have "counted y" by (rule disciplined_reachable)
  then have i: "i < length (stateList (sys y))" "sub_state (stateList (sys y) ! i) = STATE_ACTIVATED"
    using assms(2,3) by (auto simp: counted_def)
  have "reachable no_deactivation (sys y)" by (rule sys_reachable_slave [OF assms(1)]) simp
  then have "consistent (currentState (sys y)) (stateList (sys y))" using reachable_cons by (auto simp: cons_inv_def)
  with i show ?thesis by (simp add: consistent_nth)
qed


definition held_up :: system where
  "held_up = after [OpQuery 7 1 ''Work'', OpThread, OpAcquire ''motor'', OpQuery 8 1 ''Idle'', OpThread, OpAcquire ''lamp'']"

lemma held_up_reachable: "sys_reachable (\<lambda>op y. disciplined op y \<and> no_deactivation op) held_up"
  unfolding held_up_def by (rule after_reachable) code_simp

lemma held_up_eval: "desiredState (sys held_up) = \<lparr>se_action = SSA_CHANGE_STATE, se_state = ''Idle'', se_client = Some 8, se_cond = 3\<rparr> \<and>
    sleeping held_up = [AcquireChanging 6] \<and> holds held_up = [5] \<and> currentState (sys held_up) = ''Work''"
  by code_simp


theorem holder_is_safe_witness:
  "5 < length (stateList (sys held_up)) \<and> sub_state (stateList (sys held_up) ! 5) = STATE_ACTIVATED \<and>
    currentState (sys held_up) \<in> set (mainstates (stateList (sys held_up) ! 5))"
  by (rule holder_is_safe [OF held_up_reachable]) (simp_all add: held_up_eval)

subsection \<open>Where a wait goes wrong\<close>

text \<open>A call that waited in \<open>acquire\<close> for a change does not look again: woken, but going on only after the slave
  has changed once more, it reports success for a sub-state that is not active, and releasing the sub-state
  does not take its count back.\<close>

theorem late_wakeup_keeps_count:
  assumes "sys_reachable P y" "AcquireChanging i \<in> set (woken y)" "i < length (stateList (sys y))"
    and "sub_state (stateList (sys y) ! i) = STATE_DEACTIVATED" "currentState (sys y) \<noteq> ''Shutdown''"
    and "y1 = sys_exec (OpResume (AcquireChanging i)) y" "y2 = sys_exec (OpRelease (sub_name (stateList (sys y) ! i))) y1"
  shows "outcome_of (OpResume (AcquireChanging i)) (sys y) = Some (Return SMART_OK) \<and> holds y1 = holds y @ [i] \<and>
    sub_state (stateList (sys y1) ! i) = STATE_DEACTIVATED \<and>
    cnt (stateList (sys y2) ! i) = cnt (stateList (sys y) ! i) + 1 \<and> count_list (holds y2) i = count_list (holds y) i"
proof -
  have inv: "threads_inv y" by (rule sys_reachable_inv [OF assms(1)])
  then have d: "distinct (map sub_name (stateList (sys y)))" and r: "running (sys y)"
    using assms(2) slave_distinct by (auto simp: threads_inv_def)
  have a: "acquire_changed i (sys y) = (Return SMART_OK, add_cnt 1 i (sys y))" using assms(5) by (simp add: acquire_changed_def)
  then have out: "outcome_of (OpResume (AcquireChanging i)) (sys y) = Some (Return SMART_OK)" by simp
  then have h: "holds y1 = holds y @ [i]" using assms(6) by (simp add: sys_exec_def gained_def Let_def)
  have s1: "sys y1 = add_cnt 1 i (sys y)" using a assms(6) by simp
  then have n: "sub_state (stateList (sys y1) ! i) = STATE_DEACTIVATED" using assms(4) by (simp add: add_cnt_nth)
  have d1: "distinct (map sub_name (stateList (sys y1)))" "length (stateList (sys y1)) = length (stateList (sys y))"
    using s1 d arg_cong [OF shape_add_cnt [of 1 i "sys y"], of "map fst"] by (simp_all add: map_fst_shape del: map_map shape_add_cnt)
  have f: "find_sub (sub_name (stateList (sys y) ! i)) (stateList (sys y1)) = Some i"
    using find_sub_index [OF d1(1)] d1(2) s1 assms(3) by (simp add: add_cnt_nth)
  then have "release (sub_name (stateList (sys y) ! i)) (sys y1) = (SMART_OK, updateState (sys y1))"
    using n r s1 by (simp add: release_def release_cnt_def)
  then have c: "cnt (stateList (sys y2) ! i) = cnt (stateList (sys y) ! i) + 1"
    using assms(3,7) s1 update_cnt [OF d1(1)] d1(2) by (simp add: add_cnt_nth)
  have "count_list (holds y2) i = count_list (holds y) i"
    using f h assms(7) by (simp add: sys_exec_def Let_def gained_def count_list_remove1 count_list_append)
  with out h n c show ?thesis by blast
qed

definition too_late :: system where
  "too_late = after [OpQuery 7 1 ''Work'', OpThread, OpAcquire ''motor'', OpQuery 8 1 ''Idle'', OpThread, OpAcquire ''lamp'',
     OpRelease ''motor'', OpQuery 9 1 ''Work'', OpThread]"

lemma too_late_reachable: "sys_reachable (\<lambda>op y. no_deactivation op) too_late"
  unfolding too_late_def by (rule after_reachable) code_simp

lemma too_late_eval: "woken too_late = [WaitChange ''Alive'' 1, AcquireChanging 6] \<and> length (stateList (sys too_late)) = 7 \<and>
    sub_state (stateList (sys too_late) ! 6) = STATE_DEACTIVATED \<and> currentState (sys too_late) = ''Work'' \<and>
    cnt (stateList (sys too_late) ! 6) = 0"
  by code_simp

theorem late_wakeup_keeps_count_witness:
  "cnt (stateList (sys (sys_exec (OpRelease (sub_name (stateList (sys too_late) ! 6)))
     (sys_exec (OpResume (AcquireChanging 6)) too_late))) ! 6) = 1"
  using late_wakeup_keeps_count [OF too_late_reachable, of 6] too_late_eval by simp

text \<open>A spurious wake-up of a call that waits for its sub-state to become active ends the wait: \<open>acquire\<close> returns
  success for a sub-state that is not active.\<close>

theorem spurious_wakeup_acquires:
  assumes "sys_reachable P y" "AcquireInactive i \<in> set (sleeping y)" "y1 = wake (AcquireInactive i) y"
    and "y2 = sys_exec (OpResume (AcquireInactive i)) y1"
  shows "sys_reachable P y1 \<and> sys_enabled (OpResume (AcquireInactive i)) y1 \<and>
    outcome_of (OpResume (AcquireInactive i)) (sys y1) = Some (Return SMART_OK) \<and>
    holds y2 = holds y @ [i] \<and> sub_state (stateList (sys y2) ! i) = STATE_DEACTIVATED"
proof -
  have inv: "sub_state (stateList (sys y) ! i) = STATE_DEACTIVATED" "currentState (sys y) \<noteq> ''Shutdown''"
    using sys_reachable_inv [OF assms(1)] assms(2) sub_mode_cases by (auto simp: threads_inv_def)
  then have "acquire_activated i (sys y) = (Return SMART_OK, sys y)" by (simp add: acquire_activated_def)
  then show ?thesis using sys_reachable.spurious [OF assms(1,2)] inv assms(3,4)
    by (simp add: sys_exec_def Let_def gained_def)
qed

theorem spurious_wakeup_acquires_witness:
  "holds (sys_exec (OpResume (AcquireInactive 6)) (wake (AcquireInactive 6) waiting)) = [5, 6] \<and>
   sub_state (stateList (sys (sys_exec (OpResume (AcquireInactive 6)) (wake (AcquireInactive 6) waiting))) ! 6) = STATE_DEACTIVATED"
  using spurious_wakeup_acquires [OF waiting_reachable, of 6] waiting_eval by simp

text \<open>A withdrawn change strands those who wait for it: when the thread takes a request for the current state while
  a change is pending, nothing is pending any more and no one is notified, so that a call asleep for the end of the
  change stays asleep at an active sub-state that a new call acquires at once.\<close>

theorem withdrawn_change_strands:
  assumes "sys_reachable P y" "AcquireChanging i \<in> set (sleeping y)" "i < length (stateList (sys y))"
    and "sub_state (stateList (sys y) ! i) = STATE_ACTIVATED"
    and "thread_running (sys y)" "stateQueue (sys y) = e # es" "se_action e = SSA_CHANGE_STATE" "se_state e = currentState (sys y)"
    and "y1 = sys_exec OpThread y"
  shows "se_action (desiredState (sys y1)) = SSA_UNDEFINED \<and> AcquireChanging i \<in> set (sleeping y1) \<and>
    sub_state (stateList (sys y1) ! i) = STATE_ACTIVATED \<and>
    fst (acquire (sub_name (stateList (sys y1) ! i)) (sys y1)) = Return SMART_OK"
proof -
  have inv: "threads_inv y" by (rule sys_reachable_inv [OF assms(1)])
  then have d: "distinct (map sub_name (stateList (sys y)))" and r: "running (sys y)"
    using assms(2) slave_distinct by (auto simp: threads_inv_def)
  have "snd (on_execute (sys y)) = updateState (dequeued (sys y))"
    by (rule on_execute_dequeued [OF d]) (use assms(5,6) in simp_all)
  also have "\<dots> = settled SMART_OK (dequeued (sys y))"
    using assms(6-8) by (simp add: updateState_cases idle_def)
  finally have s1: "sys y1 = settled SMART_OK (dequeued (sys y))" using assms(9) by simp
  have "silent (dequeued (sys y)) (sys y1)" unfolding s1
    by (rule silentI [where t = "answer_events SMART_OK (se_client (desiredState (dequeued (sys y))))"]) (simp_all add: settled_def)
  moreover have "\<exists>t. trace (dequeued (sys y)) = trace (sys y) @ t" "\<exists>t. trace (sys y1) = trace (dequeued (sys y)) @ t"
    by (simp_all add: s1 settled_def dequeued_def Let_def)
  ultimately have "notified_subs (sys y) (sys y1) = {}"
    using dequeued_silent [of "sys y"] notified_trans unfolding silent_def by metis
  then have "NotifySub i \<notin> set (new_events OpThread (sys y))"
    using assms(9) by (auto simp: notified_subs_def new_events_def)
  then have "AcquireChanging i \<in> set (sleeping y1)" using assms(2,9) by (simp add: sys_exec_def Let_def)
  moreover have i: "sub_state (stateList (sys y1) ! i) = STATE_ACTIVATED" "idle (sys y1)" "running (sys y1)"
    "distinct (map sub_name (stateList (sys y1)))" "i < length (stateList (sys y1))"
    using assms(3,4) d r by (simp_all add: s1)
  moreover have "find_sub (sub_name (stateList (sys y1) ! i)) (stateList (sys y1)) = Some i"
    using find_sub_index [OF i(4,5)] by simp
  ultimately show ?thesis by (cases "se_action (desiredState (sys y1))") (simp_all add: acquire_def idle_def)
qed

definition stranded :: system where
  "stranded = after [OpQuery 7 1 ''Work'', OpThread, OpAcquire ''motor'', OpQuery 8 1 ''Idle'', OpThread, OpAcquire ''motor'',
     OpQuery 9 1 ''Work'']"

lemma stranded_reachable: "sys_reachable (\<lambda>op y. no_deactivation op) stranded"
  unfolding stranded_def by (rule after_reachable) code_simp

lemma stranded_eval: "sleeping stranded = [AcquireChanging 5] \<and> length (stateList (sys stranded)) = 7 \<and>
    sub_state (stateList (sys stranded) ! 5) = STATE_ACTIVATED \<and> currentState (sys stranded) = ''Work'' \<and>
    thread_running (sys stranded) \<and>
    stateQueue (sys stranded) = [\<lparr>se_action = SSA_CHANGE_STATE, se_state = ''Work'', se_client = Some 9, se_cond = 4\<rparr>]"
  by code_simp

theorem withdrawn_change_strands_witness:
  "AcquireChanging 5 \<in> set (sleeping (sys_exec OpThread stranded))"
  using withdrawn_change_strands [OF stranded_reachable, of 5] stranded_eval by simp

end
