(* ===== verification/SlaveHandler.thy ===== *)
theory SlaveHandler
  imports SlaveThreads
begin

section \<open>What the change handler knows\<close>

text \<open>
  The interface \<open>State/StateChangeHandler.hpp\<close>: the user's handler is told the names of the sub-states
  that are left and entered. A handler that only remembers them knows the active ones.
\<close>

record 'h change_handler =
  handleEnterState :: "string \<Rightarrow> 'h \<Rightarrow> 'h"
  handleQuitState :: "string \<Rightarrow> 'h \<Rightarrow> 'h"

text \<open>The callbacks among the events, made on the state of a handler.\<close>

fun call_handler :: "'h change_handler \<Rightarrow> event \<Rightarrow> 'h \<Rightarrow> 'h" where
  "call_handler H (Enter n) h = handleEnterState H n h"
| "call_handler H (Quit n) h = handleQuitState H n h"
| "call_handler H _ h = h"

definition handled :: "'h change_handler \<Rightarrow> event list \<Rightarrow> 'h \<Rightarrow> 'h" where
  "handled H es h = fold (call_handler H) es h"

definition remembering :: "string set change_handler" where
  "remembering = \<lparr> handleEnterState = insert, handleQuitState = (\<lambda>n A. A - {n}) \<rparr>"

definition active_names :: "sub_entry list \<Rightarrow> string set" where
  "active_names es = set (map sub_name (filter (\<lambda>e. sub_state e = STATE_ACTIVATED) es))"

lemma handled_callbacks: "handled H es h = handled H (filter is_callback es) h"
proof (induction es arbitrary: h)
  case (Cons e es)
  then show ?case by (cases e) (simp_all add: handled_def)
qed simp

lemma handled_append: "handled H (es @ fs) h = handled H fs (handled H es h)"
  by (simp add: handled_def)

lemma remembered:
  "handled remembering (map Quit ns) A = A - set ns" "handled remembering (map Enter ns) A = A \<union> set ns"
  by (induction ns arbitrary: A) (auto simp: handled_def remembering_def)

lemma active_names_eq:
  assumes "map sub_name es = map sub_name fs" "map sub_state es = map sub_state fs"
  shows "active_names es = active_names fs"
proof -
  have "active_names xs = fst ` set (filter (\<lambda>x. snd x = STATE_ACTIVATED) (zip (map sub_name xs) (map sub_state xs)))" for xs
    by (induction xs) (simp_all add: active_names_def)
  with assms show ?thesis by simp
qed

lemma active_switched:
  assumes "distinct (map sub_name es)"
  shows "active_names (map (switched c d) es) = (active_names es - set (left_subs c d es)) \<union> set (entered_subs c d es)"
proof -
  have inj: "e = f" if "e \<in> set es" "f \<in> set es" "sub_name e = sub_name f" for e f
    using assms that by (auto simp: distinct_map inj_on_def)
  have iff: "n \<in> active_names (map (switched c d) es) \<longleftrightarrow>
      (\<exists>e \<in> set es. sub_name e = n \<and> sub_state (switched c d e) = STATE_ACTIVATED)" for n
    unfolding active_names_def by (force simp: image_iff)
  show ?thesis
  proof (rule set_eqI)
    fix n
    show "n \<in> active_names (map (switched c d) es) \<longleftrightarrow>
        n \<in> (active_names es - set (left_subs c d es)) \<union> set (entered_subs c d es)"
      unfolding iff switched_state using inj
      by (auto simp: active_names_def left_subs_def entered_subs_def image_iff)
  qed
qed

definition told :: "slave \<Rightarrow> bool" where
  "told s \<longleftrightarrow> (has_handler s \<longrightarrow> handled remembering (trace s) (active_names initial_subs) = active_names (stateList s))"

lemma told_silent:
  assumes "silent s s'" "map sub_name (stateList s') = map sub_name (stateList s)" "told s"
  shows "told s'"
  using assms active_names_eq [OF assms(2)] handled_callbacks [of remembering "trace s'"] handled_callbacks [of remembering "trace s"]
  by (simp add: told_def silent_def)

lemma told_update:
  assumes "distinct (map sub_name (stateList s))" "told s"
  shows "told (updateState s)"
proof (cases "idle s \<or> desired s = currentState s \<or> \<not> changeable s \<or> blocked s")
  case True
  have "silent s (settled r s)" for r by (rule silentI [where t = "answer_events r (se_client (desiredState s))"]) (simp_all add: settled_def)
  moreover have "silent s (mark_actions s)" by (rule silentI [where t = "[]"]) (simp_all, simp add: mark_actions_def)
  ultimately show ?thesis using True told_silent [OF _ _ assms(2)] by (auto simp: updateState_cases)
next
  case False
  then have u: "updateState s = perform_change (mark_actions s)" by (simp add: updateState_cases)
  show ?thesis
  proof (cases "has_handler s")
    case True
    let ?l = "left_subs (currentState s) (desired s) (stateList s)" and ?e = "entered_subs (currentState s) (desired s) (stateList s)"
    have "filter is_callback (trace (updateState s)) = filter is_callback (trace s) @ map Quit (nonneutral_last ?l) @ map Enter (nonneutral_first ?e)"
      unfolding u perform_eq [OF assms(1)] using True by (simp add: change_events_order callbacks_change)
    then have "handled remembering (trace (updateState s)) A = (handled remembering (trace s) A - set ?l) \<union> set ?e" for A
      using handled_callbacks [of remembering "trace (updateState s)" A] handled_callbacks [of remembering "trace s" A]
      by (auto simp: handled_append remembered nonneutral_last_def nonneutral_first_def)
    moreover have "stateList (updateState s) = map (switched (currentState s) (desired s)) (stateList s)"
      unfolding u perform_eq [OF assms(1)] by simp
    ultimately show ?thesis using assms(2) True active_switched [OF assms(1)] by (simp add: told_def)
  qed (simp add: u perform_eq [OF assms(1)] told_def)
qed


text \<open>Before the activation nothing is active but what is at the start; states that are defined are inactive.\<close>

lemma active_define: "active_names (stateList (snd (defineStates m n s))) = active_names (stateList s)"
proof -
  have bind: "active_names (snd (bind_main m i es)) = active_names es" for i es
    by (rule active_names_eq; cases "i < length es")
      (auto simp: bind_main_def Let_def map_update list_update_same_conv list_update_beyond)
  have "active_names (snd (define_main m es)) = active_names es" for es
    by (simp add: define_main_def bind split: option.split)
  moreover have "active_names (snd (define_sub m n es)) = active_names es" for es
    by (simp add: define_sub_def bind split: option.split) (simp add: active_names_def new_sub_def)
  ultimately show ?thesis by (simp add: defineStates_def split_beta)
qed

lemma told_stopped:
  assumes "slave_inv s" "\<not> running s" "op \<notin> range OpResume" "told s"
  shows "told (exec op s)"
proof (cases op)
  case (OpDefine m n)
  have "has_handler (snd (defineStates m n s)) = has_handler s" by (simp add: defineStates_def split_beta)
  then show ?thesis using OpDefine assms(4) active_define [of m n s] defineStates_frame [of m n s] by (simp add: told_def)
next
  case OpThread
  then show ?thesis using assms on_execute_stays [of s] by (simp add: inv_defs)
next
  case (OpQuery q c m)
  have "silent s (handleQuery q c m s)" using assms(2)
    by (intro silentI [where t = "drop (length (trace s)) (trace (handleQuery q c m s))"])
      (auto simp: handleQuery_def hndSetMainState_def new_entry_def split_beta slave_simps)
  then show ?thesis using OpQuery told_silent [OF _ _ assms(4)] by simp
qed (use assms in \<open>auto simp: told_def setUpInitialState_def activate_def setWaitState_def acquire_def tryAcquire_def release_def
    release_cnt_def split: option.splits\<close>)

lemma told_exec:
  assumes "slave_inv s" "enabled op s" "told s"
  shows "told (exec op s)"
proof (cases "running s")
  case True
  note d = slave_distinct [OF assms(1)]
  have names: "map sub_name (stateList (exec op s)) = map sub_name (stateList s)"
    using exec_shape [OF assms(1) True, of op] by (simp add: map_fst_shape del: map_map)
  from exec_cases [OF assms(1) True, of op] show ?thesis
  proof
    assume "silent s (exec op s)"
    then show ?thesis by (rule told_silent [OF _ names assms(3)])
  next
    assume "\<exists>s1 t. silent s s1 \<and> distinct (map sub_name (stateList s1)) \<and> trace s1 = trace s @ t \<and> exec op s = updateState s1"
    then obtain s1 where s1: "silent s s1" "distinct (map sub_name (stateList s1))" "exec op s = updateState s1" by blast
    have "map sub_name (stateList s1) = map sub_name (stateList s)"
      using names s1(3) shape_updateState [OF s1(2)] by (simp add: map_fst_shape del: map_map)
    then show ?thesis using told_silent [OF s1(1) _ assms(3)] told_update [OF s1(2)] s1(3) by simp
  qed
next
  case False
  then have "op \<notin> range OpResume" using assms(2) by auto
  with False show ?thesis using told_stopped assms(1,3) by blast
qed

text \<open>C21: The change handler is told the truth: in every state the slave can reach, a handler that only remembers what was
  entered and left since the start knows exactly the sub-states that are active.\<close>

theorem handler_knows_active:
  assumes "reachable any_op s" "has_handler s"
  shows "handled remembering (trace s) (active_names initial_subs) = active_names (stateList s)"
proof -
  from assms(1) have "told s"
  proof induction
    case (start h)
    then show ?case by (simp add: told_def new_slave_def handled_def)
  next
    case (step s op)
    then show ?case using told_exec reachable_inv by blast
  qed
  with assms(2) show ?thesis by (simp add: told_def)
qed

theorem handler_knows_active_witness:
  "handled remembering (trace sample_slave) (active_names initial_subs) = active_names (stateList sample_slave)"
proof (rule handler_knows_active [OF sample_reachable_any])
  show "has_handler sample_slave" by code_simp
qed

end
