(* ===== verification/SlaveServing.thy ===== *)
theory SlaveServing
  imports SlaveProperties
begin

section \<open>The update thread serves the requests\<close>

text \<open>
  How the queue of \<open>State/StateSlave.cpp\<close> is worked off by \<open>updateStateFromThread\<close> when no substate is
  acquired: turn by turn, in order, with every master answered.
\<close>

text \<open>One turn of the update thread while no substate is acquired: the request is performed, or dropped if unknown.\<close>

definition known_request :: "slave \<Rightarrow> string \<Rightarrow> bool" where
  "known_request s m \<longleftrightarrow> m = ''Alive'' \<or> valid_main m (stateList s)"

definition servable :: "slave \<Rightarrow> bool" where
  "servable s \<longleftrightarrow> distinct (map sub_name (stateList s)) \<and> thread_running s \<and> (\<forall>e \<in> set (stateList s). cnt e = 0) \<and>
     (\<forall>q \<in> set (stateQueue s). se_action q = SSA_CHANGE_STATE \<and> \<not> deactivation (se_state q) \<and> se_state q \<noteq> ''Shutdown'')"

lemma one_request:
  assumes "servable s" "stateQueue s = q # qs"
  shows "servable (exec OpThread s)" "stateQueue (exec OpThread s) = qs" "idle (exec OpThread s)"
    "currentState (exec OpThread s) = (if known_request s (se_state q) then se_state q else currentState s)"
    "known_request (exec OpThread s) = known_request s"
    "answered (trace (exec OpThread s)) = answered (trace s) + opt_mset (se_client q)"
proof -
  have d: "distinct (map sub_name (stateList s))" using assms(1) by (simp add: servable_def)
  have q: "se_action q = SSA_CHANGE_STATE" "\<not> deactivation (se_state q)" "se_state q \<noteq> ''Shutdown''"
    using assms by (auto simp: servable_def)
  have e: "exec OpThread s = updateState (dequeued s)"
    using on_execute_dequeued [OF d] assms by (simp add: servable_def)
  have t: "trace (dequeued s) = trace s @ (if se_state q \<in> {''Deactivated'', ''Shutdown'', ''FatalError'', ''deactivated''} then [Blocking False] else [])"
    using assms(2) by (simp add: dequeued_def Let_def)
  have i: "\<not> idle (dequeued s)" "desired (dequeued s) = se_state q" "\<not> blocked (dequeued s)"
    "changeable (dequeued s) \<longleftrightarrow> known_request s (se_state q)"
    using assms q by (auto simp: idle_def blocked_def servable_def changeable_def known_request_def deactivation_def)
  have u: "updateState (dequeued s) = (if se_state q = currentState s then settled SMART_OK (dequeued s)
      else if \<not> known_request s (se_state q) then settled SMART_UNKNOWNSTATE (dequeued s)
      else perform_change (mark_actions (dequeued s)))"
    using i by (simp add: updateState_cases)
  consider "updateState (dequeued s) = settled SMART_OK (dequeued s)" "se_state q = currentState s"
    | "updateState (dequeued s) = settled SMART_UNKNOWNSTATE (dequeued s)" "\<not> known_request s (se_state q)"
    | "updateState (dequeued s) = perform_change (mark_actions (dequeued s))" "known_request s (se_state q)"
    using u by argo
  then have "servable (updateState (dequeued s)) \<and> stateQueue (updateState (dequeued s)) = qs \<and> idle (updateState (dequeued s)) \<and>
      currentState (updateState (dequeued s)) = (if known_request s (se_state q) then se_state q else currentState s) \<and>
      known_request (updateState (dequeued s)) = known_request s \<and>
      answered (trace (updateState (dequeued s))) = answered (trace s) + opt_mset (se_client q)"
  proof cases
    case 3
    have d': "distinct (map sub_name (stateList (dequeued s)))" using d by simp
    show ?thesis unfolding 3(1) perform_eq [OF d']
      using assms q d 3(2)
      by (auto simp: servable_def known_request_def fun_eq_iff valid_main_def list_ex_iff comp_def idle_def target_state_def deactivation_def t
          answered_none)
  qed (use assms q d in \<open>auto simp: servable_def known_request_def fun_eq_iff settled_def t answered_none idle_def\<close>)
  then show "servable (exec OpThread s)" "stateQueue (exec OpThread s) = qs" "idle (exec OpThread s)"
    "currentState (exec OpThread s) = (if known_request s (se_state q) then se_state q else currentState s)"
    "known_request (exec OpThread s) = known_request s"
    "answered (trace (exec OpThread s)) = answered (trace s) + opt_mset (se_client q)"
    unfolding e by blast+
qed

lemma requests_served:
  assumes "servable s" "n \<le> length (stateQueue s)"
  shows "stateQueue (fold exec (replicate n OpThread) s) = drop n (stateQueue s) \<and>
    (0 < n \<longrightarrow> idle (fold exec (replicate n OpThread) s)) \<and>
    currentState (fold exec (replicate n OpThread) s) =
      last (currentState s # filter (known_request s) (map se_state (take n (stateQueue s)))) \<and>
    answered (trace (fold exec (replicate n OpThread) s)) =
      answered (trace s) + (\<Sum>q \<in># mset (take n (stateQueue s)). opt_mset (se_client q))"
  using assms
proof (induction n arbitrary: s)
  case (Suc n)
  then obtain q qs where q: "stateQueue s = q # qs" by (cases "stateQueue s") auto
  note one = one_request [OF Suc.prems(1) q]
  have "n \<le> length (stateQueue (exec OpThread s))" using Suc.prems(2) one(2) q by simp
  from Suc.IH [OF one(1) this] show ?case
    using one(3) unfolding one(2,4,5,6) q by (cases n) (simp_all add: last_ConsR)
qed simp


text \<open>C20: With nothing acquired, the update thread serves the queue in order: after n of its turns the first n requests are
  gone, nothing is pending, the current main state is that of the last one among them that names a known main state
  (the old one if there is none), and exactly their masters have been answered. (No deactivation, no shutdown queued.)\<close>

theorem requests_served_in_order:
  assumes "reachable no_deactivation s" "thread_running s" "\<forall>e \<in> set (stateList s). cnt e = 0"
    and "''Shutdown'' \<notin> se_state ` set (stateQueue s)" "0 < n" "n \<le> length (stateQueue s)"
  shows "stateQueue (fold exec (replicate n OpThread) s) = drop n (stateQueue s) \<and>
    se_action (desiredState (fold exec (replicate n OpThread) s)) = SSA_UNDEFINED \<and>
    currentState (fold exec (replicate n OpThread) s) =
      last (currentState s # filter (\<lambda>m. m = ''Alive'' \<or> valid_main m (stateList s)) (map se_state (take n (stateQueue s)))) \<and>
    answered (trace (fold exec (replicate n OpThread) s)) =
      answered (trace s) + (\<Sum>q \<in># mset (take n (stateQueue s)). opt_mset (se_client q))"
proof -
  have "cons_inv s" by (rule reachable_cons [OF assms(1)])
  then have i: "slave_inv s" "clean s" by (simp_all add: cons_inv_def)
  have "servable s"
    using slave_distinct [OF i(1)] inv_queueD [OF i(1)] i(2) assms(2,3) assms(4) [unfolded image_iff] by (auto simp: servable_def clean_def)
  from requests_served [OF this assms(6)] assms(5) show ?thesis
    by (simp add: known_request_def [abs_def] idle_def)
qed

definition busy_slave :: slave where
  "busy_slave = fold exec (setup_ops @ [OpQuery 7 1 ''Work'', OpQuery 8 1 ''Nowhere'', OpQuery 9 1 ''Idle'']) (new_slave True)"

lemma busy_reachable: "reachable no_deactivation busy_slave"
  unfolding busy_slave_def by (intro reachable_fold reachable.start) (simp add: setup_ops_def)

lemma busy_eval: "thread_running busy_slave \<and> list_all (\<lambda>e. cnt e = 0) (stateList busy_slave) \<and> currentState busy_slave = ''Alive'' \<and>
    map (\<lambda>q. (se_state q, se_client q)) (stateQueue busy_slave) = [(''Work'', Some 7), (''Nowhere'', Some 8), (''Idle'', Some 9)] \<and>
    valid_main ''Work'' (stateList busy_slave) \<and> valid_main ''Idle'' (stateList busy_slave) \<and> \<not> valid_main ''Nowhere'' (stateList busy_slave) \<and>
    answered (trace busy_slave) = {#}"
  by code_simp

theorem requests_served_in_order_witness:
  "currentState (fold exec (replicate 2 OpThread) busy_slave) = ''Work'' \<and>
   answered (trace (fold exec (replicate 2 OpThread) busy_slave)) = {#7, 8#}"
proof -
  from busy_eval obtain x y z where "stateQueue busy_slave = [x, y, z]" "se_state x = ''Work''" "se_state y = ''Nowhere''" "se_state z = ''Idle''"
    "se_client x = Some 7" "se_client y = Some 8"
    by (auto simp: map_eq_Cons_conv)
  with requests_served_in_order [OF busy_reachable, of 2] busy_eval show ?thesis
    by (simp add: list_all_iff opt_mset_def take_Cons' numeral_2_eq_2 ac_simps)
qed

end
