(* ===== verification/Spec2Isabelle.thy ===== *)
theory Spec2Isabelle
  imports Prelude Descriptions Roundtrip SlaveProperties PushProperties SubscriptionProperties
    NamingProperties QueryProperties Wiring EventProperties StateMaster Parameter
    Send Threads Component SlaveSpec SlaveHandler SlaveServing
begin

text \<open>
  A verification library for the SeRoNet SDK (\<open>src/SeRoNetSDK/SeRoNet\<close>), which lets components of a robot
  system talk over OPC UA: communication objects describe themselves, converters turn them into OPC UA
  variants and address spaces and back, and the communication patterns (push, query, send, event, wiring,
  parameter, state) are built on servers and clients that find each other through a naming service.

  \<^bold>\<open>The parts and their theories.\<close>

  \<^item> \<open>Prelude\<close>: the exceptions of the SDK as values (\<open>result\<close>, with \<open>rbind\<close>, \<open>traverse\<close>, \<open>foldM\<close>), status
    codes, C strings, decimal numbers, little-endian words; the collections of facts the proofs use.
  \<^item> \<open>Descriptions\<close>: \<open>CommunicationObjects/Description\<close>; a described object is the tree of its values, and
    \<open>ArrayOf\<close> with the copy it keeps.
  \<^item> \<open>UaVariant\<close>: the variants of the OPC UA stack; what its C++ wrapper does with them is the record
    \<open>ua_api\<close>, whose documented behaviour is \<open>api_ok\<close> (\<open>std_api\<close> satisfies it).
  \<^item> \<open>Converter\<close>, \<open>Roundtrip\<close>: \<open>OPCUA/Converter\<close>, both directions, the argument lists. Decoding undoes
    encoding (\<open>object_roundtrip\<close>), encoding refines a recursive specification of the variants of an object,
    decoding keeps the type, the declared arguments match the variants; and the values that are misread.
  \<^item> \<open>StateSlave\<close>, \<open>SlaveInvariant\<close>, \<open>SlaveProperties\<close>: \<open>State/StateSlave.cpp\<close> with its query handler and
    update thread. The state is the record \<open>slave\<close> with a trace of what the outside sees; an operation
    that waits is split at the wait. The invariant of the substates, by induction over reachable states,
    gives the locking, ordering, answering and liveness properties.
  \<^item> \<open>SlaveServing\<close>: the update thread serves the queue in order (\<open>requests_served_in_order\<close>).
  \<^item> \<open>SlaveSpec\<close>: the abstract activity a running slave implements (main state, wish, requests, uses), and
    the functional refinement of every operation (locale \<open>refines\<close>).
  \<^item> \<open>SlaveThreads\<close>: the slave with the threads that sleep, were notified, and hold substates, at the step from
    a notification to the moment the woken thread runs again; any thread may release anything, and any sleeping
    thread may wake by chance. No wake-up is lost (\<open>no_lost_wakeup\<close>). The code waits without a predicate and does
    not record who holds what; if woken calls go on only while their substate is active, and only what is held is
    released (\<open>disciplined\<close>), the counts are the numbers of users (\<open>count_is_users\<close>), so a change waits only for
    threads that will release (\<open>pending_has_user\<close>), and what a thread holds stays (\<open>holder_is_safe\<close>). The theorems after
    them show what happens otherwise: if a call goes on late, or wakes by chance, or if the change it waits for is withdrawn.
  \<^item> \<open>SlaveHandler\<close>: the user's change handler; remembering the callbacks is knowing the active substates.
  \<^item> \<open>PushServer\<close>, \<open>PushProperties\<close>: the visitors that build, enable, update and disable the variables of a
    pushed object, over an address space that is a parameter (\<open>server_api\<close>, laws \<open>server_ok\<close>).
  \<^item> \<open>Subscription\<close>, \<open>SubscriptionProperties\<close>: the subscription of a client, its ring buffer (refined to the
    stream of all values), the reader, the push client.
  \<^item> \<open>NamingService\<close>, \<open>NamingProperties\<close>: \<open>OpcuaServer.cpp\<close> and \<open>NamingServiceOpcUa.cpp\<close>; the search over
    discovery servers, connecting, the cache of connections with their owners.
  \<^item> \<open>Query\<close>, \<open>QueryProperties\<close>: query server and client, asynchronous answers, waiting in steps beside the
    threads that answer or change the blocking flag (\<open>wait_step\<close>). The answers the server keeps are accessed without
    a lock in the code; here every access is one step.
  \<^item> \<open>Remote\<close>: the interface of objects that travel by query (locale \<open>described\<close>) and of a query served over
    the network (locale \<open>remote\<close>), answered by the handler or by another thread while the server's callback
    waits; interpreted on the state, wiring and parameter objects. \<open>deferred\<close> and \<open>handler_thread\<close> are the handler with a thread
    of its own (\<open>ThreadQueueQueryHandler\<close>) that \<open>WiringSlave\<close> and \<open>ParameterSlave\<close> put around theirs; its queue, of
    another library, is the record \<open>active_queue\<close> with the law \<open>active_queue_ok\<close>.
  \<^item> \<open>Wiring\<close>, \<open>StateMaster\<close>, \<open>Parameter\<close>, \<open>Send\<close>: the patterns made of queries: \<open>WiringSlave\<close> and
    \<open>WiringHandler\<close>, \<open>StateMaster\<close>, \<open>ParameterMaster\<close> and \<open>ParameterSlave\<close> with their objects, send server
    and client.
  \<^item> \<open>Event\<close>, \<open>EventProperties\<close>: event server and client.
  \<^item> \<open>Threads\<close>, \<open>Component\<close>: \<open>Utils\<close>: semaphore, message queue, task; the thread object of the state slave
    and its shutdown (\<open>State/StateUpdateThread.cpp\<close>); the threaded query handler; the component and its
    server loop.

  This theory composes them: a put of a push server until the update of its client, a put of an event
  server until the event at the client that activated it, and a lookup by name until the node of the service. What a client
  sees depends on the order in which the server lists the variables (\<open>listed\<close>, \<open>seen\<close>): the client's sorting has no effect.
  \<open>NamingProperties\<close>, \<open>StateMaster\<close>, \<open>Wiring\<close> and \<open>Parameter\<close> hold the other
  properties that span components.

  \<^bold>\<open>How code becomes definitions.\<close> Definitions have the names of the functions they translate; a field of a
  class is a field of a record. Exceptions, failed assertions (the SDK is built with them), memory read out
  of bounds and the end of the process are branches of \<open>result\<close>. Machine integers are words wherever their
  width matters: counters and ports wrap as in the code. A call that waits for another thread is an option
  whose \<open>None\<close> means that it still waits; loops that may run for ever are \<open>partial_function (option)\<close>, and
  what is proved of them is when they end. There is no fuel: other recursions are structural or have a
  termination proof. Where threads interleave inside an operation the steps are an inductive relation
  (\<open>wait_step\<close>, \<open>mq_step\<close>, \<open>naming_step\<close>, \<open>reachable\<close>, \<open>sys_reachable\<close>), and the loop of the server takes what other threads do
  between two tests of its flag as a list of batches (\<open>serve\<close>). Plain variables shared between threads are read and
  written atomically here, which the language does not promise.

  \<^bold>\<open>What is assumed.\<close> The OPC UA stack and its wrapper, the network, other threads and the handlers of the
  user are parameters: records of functions, or arguments. Their laws are named (\<open>api_ok\<close>, \<open>server_ok\<close>), are
  what the stack documents, and hold of the concrete instances the examples are evaluated on. Words are
  stored little-endian. A client has one connection; a handler does not call back into the object that
  called it.

  \<^bold>\<open>Not modelled.\<close> Console output, except where it is all a function does; the configuration handed to the
  stack in \<open>initServer\<close>; time-outs, which the code ignores; destructors other than those of connections,
  push clients, tasks and state slaves; the text of floating-point parameters, which is a parameter; the base
  classes of SmartSoft, which are another library (what the threaded query handler uses of its base is the
  records \<open>active_handler\<close> and \<open>active_queue\<close>); tests and build files. The rest of \<open>StateSlave.hpp\<close>, \<open>StateMaster.hpp\<close> and
  \<open>WiringSlave.hpp\<close> is declarations and comments.
\<close>

subsection \<open>From the put of a server to the update of a client\<close>

text \<open>
  One put of an object, and the notifications that follow: for each variable of the service, in the given
  order of their positions, the value the server holds for it now, if it may be read.
\<close>

definition notifications :: "(node_id \<Rightarrow> ua_node option) \<Rightarrow> 32 word list \<Rightarrow> node_id list \<Rightarrow> nat list \<Rightarrow> (32 word \<times> data_value) list" where
  "notifications L is ns ks = map (\<lambda>k. (is ! k, \<lparr> dv_status = None, dv_value = readable_value (L (ns ! k)) \<rparr>)) ks"

fun push_rounds :: "ua_api \<Rightarrow> namespaces \<Rightarrow> 's server_api \<Rightarrow> ('s \<Rightarrow> node_id \<Rightarrow> ua_node option) \<Rightarrow> desc \<Rightarrow> 32 word list
    \<Rightarrow> node_id list \<Rightarrow> (desc \<times> nat list) list \<Rightarrow> (push_server \<times> 's) \<times> subscription \<Rightarrow> (push_server \<times> 's) \<times> subscription" where
  "push_rounds a N A look fresh is ns [] st = st"
| "push_rounds a N A look fresh is ns ((d, ks) # rs) (ps, sub) =
     (let ps' = snd (put a N A d ps)
      in push_rounds a N A look fresh is ns rs
        (ps', snd (notify_all a fresh (notifications (look (snd ps')) is ns ks) sub)))"

definition sent_ok :: "desc \<Rightarrow> nat \<Rightarrow> desc \<times> nat list \<Rightarrow> bool" where
  "sent_ok t n r \<longleftrightarrow> (case r of (d, ks) \<Rightarrow> same_type t d \<and> well_typed d \<and> sendable d \<and> distinct ks \<and> set ks = {..<n})"

text \<open>
  The nodes a client subscribes to below the node of a service, in the order in which the server lists the
  references (\<open>sorting_has_no_effect\<close>), and what the client makes of the values of an object \<open>d\<close> of the server
  when it puts them into an object in that order; \<open>ns\<close> are the nodes in the order of the description.
\<close>

definition listed :: "'c client_api \<Rightarrow> 'c \<Rightarrow> desc \<Rightarrow> node_id \<Rightarrow> node_id list" where
  "listed C c t i = map br_node (filter (\<lambda>b. br_class b = CLASS_VARIABLE) (browse_nodes (\<lambda>j. browse C j c) (named '''' t) i))"

definition seen :: "ua_api \<Rightarrow> desc \<Rightarrow> node_id list \<Rightarrow> node_id list \<Rightarrow> desc \<Rightarrow> desc result" where
  "seen a t ns ls d = UaVariantArrayToCommObject a (map (\<lambda>i. the (map_of (zip ns (variants_of d)) i)) ls) (named '''' t)"

lemma subscribes_to_listed: "subscribe_object C order t i (s, c) = subscribe_nodes C (listed C c t i) (s, c)"
  by (simp add: subscribe_object_def listed_def)

lemma value_at: "map R ns = map Some vs \<Longrightarrow> i \<in> set ns \<Longrightarrow> R i = map_of (zip ns vs) i"
  by (induction ns arbitrary: vs) (auto simp: map_eq_Cons_conv Cons_eq_map_conv)

lemma values_in_order: "distinct ns \<Longrightarrow> length ns = length vs \<Longrightarrow> map (\<lambda>i. the (map_of (zip ns vs) i)) ns = vs"
  by (intro nth_equalityI) (simp_all add: map_of_zip_nth)

lemma length_leaf_ids: "length (leaf_ids N par d) = length (variants_of d)"
proof (induction d arbitrary: par)
  case (Complex n ds)
  then show ?case by (simp add: length_concat comp_def cong: map_cong)
qed simp_all

text \<open>If the server lists the members in the order of the description, the client sees the object itself.\<close>

lemma listed_in_order:
  assumes "lists_members (\<lambda>j. browse C j c) N (child_id N par (named n t)) (named '''' t)" "names_ok t" "ns = leaf_ids N par (named n t)"
  shows "listed C c t (child_id N par (named n t)) = ns"
proof -
  have "leaf_ids N par (named n t) = below N (child_id N par (named n t)) (named '''' t)"
    by (cases t) (simp_all add: below_leaf_ids [symmetric] del: leaf_ids_simps)
  then show ?thesis using browse_finds [OF _ assms(1)] assms(2,3) by (simp add: listed_def filter_id_conv)
qed

lemma seen_in_order:
  assumes "names_ok t" "api_ok a" "blank t" "same_type t d" "well_typed d" "readable d" "ns = leaf_ids N par (named n t)"
  shows "seen a t ns ns d = Inr (named '''' d)"
proof -
  have "distinct ns"
    using tree_ids_distinct [of "named n t" N par] assms(1,7) by (simp add: leaf_ids_def distinct_map_filter)
  moreover have "length ns = length (variants_of d)"
    using length_leaf_ids [of N par "named n d"] same_type_leaf_ids [of "named n t" "named n d" N par] assms(4,7) by simp
  ultimately have "map (\<lambda>i. the (map_of (zip ns (variants_of d)) i)) ns = variants_of (named '''' d)"
    by (simp add: values_in_order)
  then show ?thesis
    using decode_ok [OF assms(2), of "named '''' t" "named '''' d"] assms(3-6) by (simp add: seen_def)
qed

lemma notifications_round:
  assumes "map (\<lambda>i. readable_value (L i)) ns = map Some (variants_of d)" "length is = length ls" "distinct is"
    and "set ls \<subseteq> set ns" "seen a t ns ls d = Inr x" "sent_ok t (length ls) (d, ks)"
  shows "full_round a t is (notifications L is ls ks, x)"
proof -
  note sent = assms(6) [unfolded sent_ok_def split_conv]
  let ?v = "\<lambda>k. the (map_of (zip ns (variants_of d)) (ls ! k))"
  have val: "readable_value (L (ls ! k)) = Some (?v k)" if "k < length ls" for k
  proof -
    have k: "ls ! k \<in> set ns" using assms(4) that nth_mem by blast
    moreover have "length ns = length (variants_of d)" using assms(1) by (metis length_map)
    ultimately have "map_of (zip ns (variants_of d)) (ls ! k) \<noteq> None" by (simp add: map_of_zip_is_None)
    with value_at [OF assms(1) k] show ?thesis by auto
  qed
  have inj: "inj_on ((!) is) (set ks)" using sent assms(2,3) by (simp add: inj_on_nth)
  have keys: "map fst (notifications L is ls ks) = map ((!) is) ks" by (simp add: notifications_def)
  have dist: "distinct (map fst (notifications L is ls ks))" unfolding keys distinct_map using sent inj by blast
  have "map_of (notifications L is ls ks) (is ! k) = Some \<lparr> dv_status = None, dv_value = readable_value (L (ls ! k)) \<rparr>"
    if "k < length ls" for k
    by (rule map_of_is_SomeI [OF dist]) (use that sent in \<open>simp add: notifications_def\<close>)
  then have "map (\<lambda>i. dv_variant (the (map_of (notifications L is ls ks) i))) is = map (\<lambda>i. the (map_of (zip ns (variants_of d)) i)) ls"
    using assms(2) val by (intro nth_equalityI) (simp_all add: dv_variant_def)
  moreover have "(!) is ` {..<length ls} = set is"
    using assms(2) by (auto simp: set_conv_nth)
  moreover have "list_all (\<lambda>(i, dv). good_value dv) (notifications L is ls ks)"
    using sent val by (auto simp: notifications_def list_all_iff good_value_def)
  ultimately show ?thesis using dist assms(5) sent unfolding full_round_def split_conv keys seen_def by simp
qed

lemma push_rounds_deliver:
  assumes "server_ok A look" "api_ok a" "names_ok t" "set ls \<subseteq> set ns"
    and "list_all (sent_ok t (length ls)) rs" "ns = leaf_ids N (objects_folder N) (named n t)" "ls \<noteq> []"
    and "map fst ids = is" "length is = length ls" "distinct is"
    and "serving (look (snd ps)) N t (fst ps)" "m_service (fst ps) = n" "sub_ok t ids (\<lambda>_. None) xs sub"
    and "m_onDataCallback sub" "length xs + length rs < 2 ^ 63" "\<forall>r \<in> set rs. seen a t ns ls (fst r) = Inr (g (fst r))"
  shows "let sub' = snd (push_rounds a N A look t is ls rs (ps, sub)) in
    sub_ok t ids (\<lambda>_. None) (xs @ map (g \<circ> fst) rs) sub' \<and> notified sub' = notified sub @ map (g \<circ> fst) rs"
  using assms(5,11-16)
proof (induction rs arbitrary: ps xs sub)
  case (Cons r rs)
  obtain d ks where r: "r = (d, ks)" by (cases r)
  have sent: "sent_ok t (length ls) (d, ks)" using Cons.prems(1) r by simp
  then have d: "same_type t d" "well_typed d" "sendable d" by (simp_all add: sent_ok_def)
  obtain s' where put: "put a N A d (fst ps, snd ps) = (Inr SMART_OK, fst ps \<lparr> m_FirstTimePut := False \<rparr>, s')"
    "serving (look s') N t (fst ps \<lparr> m_FirstTimePut := False \<rparr>)" "published (look s') N (m_service (fst ps)) t = map Some (variants_of d)"
    using put_ok [OF assms(1-3) d Cons.prems(2)] by blast
  have g: "seen a t ns ls d = Inr (g d)" using Cons.prems(7) r by simp
  let ?ns = "notifications (look s') is ls ks"
  have "full_round a t (map fst ids) (?ns, g d)"
    unfolding assms(8)
    by (rule notifications_round [OF _ assms(9,10,4) g sent])
      (use put(3) assms(6) Cons.prems(3) in \<open>simp add: published_def\<close>)
  moreover have "ids \<noteq> []" using assms(7,8,9) by auto
  ultimately obtain sub' where sub': "notify_all a t ?ns sub = (Inr (), sub')" "sub_ok t ids (\<lambda>_. None) (xs @ [g d]) sub'"
    "m_onDataCallback sub'" "notified sub' = notified sub @ [g d]"
    using one_round [OF Cons.prems(4) assms(2)] Cons.prems(5,6) by fastforce
  show ?case
    using Cons.IH [of "(fst ps \<lparr> m_FirstTimePut := False \<rparr>, s')" "xs @ [g d]" sub'] Cons.prems put sub' r
    by (simp add: Let_def)
qed simp

text \<open>C6: Everything a push server puts reaches a subscribed client: if a client subscribes to the service and each put is
  followed by a notification for every variable the client subscribed to, in any order, the client is handed one
  object per put, in the order they were put, and \<open>getUpdate\<close> then returns the last one. The object handed over is
  the one decoded from the variables of the object put, taken in the order in which the server lists them when the
  client subscribes; where the server lists the members of each object in the order of its description, and the
  object put has no unsigned 64-bit value above 32 bits outside an array and no array of signed 64-bit integers, it
  is exactly the object put. The variables the server lists to the client are some of the service's own, at least one. The members' names are distinct and without dots, strings in arrays without NUL, the
  nodes of the service are new when the server is made, and the set of values can be decoded.\<close>

theorem push_reaches_client:
  assumes "server_ok A look" "api_ok a" "names_ok t" "blank t" "look s (objects_folder N) \<noteq> None"
    and "list_all (\<lambda>x. look s (fst x) = None) (tree_nodes N (objects_folder N) (named n t))"
    and "ns = leaf_ids N (objects_folder N) (named n t)" "m_startNodeId p = child_id N (objects_folder N) (named n t)"
    and "ls = listed C c t (m_startNodeId p)" "set ls \<subseteq> set ns" "ls \<noteq> []"
    and "list_all (sent_ok t (length ls)) rs" "rs \<noteq> []" "length rs < 2 ^ 63"
    and "\<forall>r \<in> set rs. seen a t ns ls (fst r) = Inr (g (fst r))"
    and "pc_connected p" "m_pSubscription p = None"
    and "create_subscription C c = ((0, sid), c1)" "create_items C sid ls c1 = Some (is, c2)" "distinct is"
  shows "\<exists>q s1 p' sub ps' sub'. new_push_server a N A n t s = (Inr q, s1) \<and>
    pc_subscribe C order t (p, c) = Inr (SMART_OK, p', c2) \<and> m_pSubscription p' = Some sub \<and>
    push_rounds a N A look t is ls rs ((q, s1), sub) = (ps', sub') \<and>
    notified sub' = map (g \<circ> fst) rs \<and>
    getUpdate (p' \<lparr> m_pSubscription := Some sub' \<rparr>) d = Inr (Some (SMART_OK, g (fst (last rs)))) \<and>
    (lists_members (\<lambda>i. browse C i c) N (m_startNodeId p) (named '''' t) \<longrightarrow>
      ls = ns \<and> (\<forall>r \<in> set rs. readable (fst r) \<longrightarrow> g (fst r) = named '''' (fst r)) \<and>
      ((\<forall>r \<in> set rs. readable (fst r)) \<longrightarrow> notified sub' = map (named '''' \<circ> fst) rs))"
proof -
  let ?q = "\<lparr> m_service = n, m_FirstTimePut = True \<rparr>"
  obtain s1 where s1: "new_push_server a N A n t s = (Inr ?q, s1)" "serving (look s1) N t ?q"
    using new_push_server_ok [OF assms(1-3,5), of n] assms(6) by (auto simp: list_all_iff)
  obtain sub where sub: "subscribe_nodes C ls (setOnDataCallback True (new_subscription t), c) = Inr (0, sub, c2)"
    "sub_ok t (zip is ls) (\<lambda>_. None) [] sub" "m_onDataCallback sub" "notified sub = []"
    using subscribe_nodes_ok [OF assms(18-20), where b = True and fresh = t] by blast
  then have pc: "pc_subscribe C order t (p, c) = Inr (SMART_OK, p \<lparr> m_pSubscription := Some sub, m_pReader := Some new_reader \<rparr>, c2)"
    using assms(9,16,17) subscribes_to_listed [of C order t "m_startNodeId p"] by (simp add: pc_subscribe_def)
  have len: "length is = length ls" by (rule create_items_length [OF assms(19)])
  obtain ps' sub' where run: "push_rounds a N A look t is ls rs ((?q, s1), sub) = (ps', sub')" by (metis surj_pair)
  have sub': "sub_ok t (zip is ls) (\<lambda>_. None) (map (g \<circ> fst) rs) sub' \<and> notified sub' = map (g \<circ> fst) rs"
    using push_rounds_deliver [OF assms(1-3,10,12,7,11), of "zip is ls" "is" "(?q, s1)" "[]" sub g] len assms(14,15,20) s1(2) sub run by simp
  then have "buf_rep t sub' (map (g \<circ> fst) rs)" by (simp add: sub_ok_def)
  from getUpdate_latest(1) [OF _ _ this, of "p \<lparr> m_pSubscription := Some sub, m_pReader := Some new_reader \<rparr> \<lparr> m_pSubscription := Some sub' \<rparr>" new_reader d]
  have upd: "getUpdate (p \<lparr> m_pSubscription := Some sub, m_pReader := Some new_reader \<rparr> \<lparr> m_pSubscription := Some sub' \<rparr>) d =
      Inr (Some (SMART_OK, g (fst (last rs))))" using assms(13) by (auto simp: last_map)
  have p': "m_pSubscription (p \<lparr> m_pSubscription := Some sub, m_pReader := Some new_reader \<rparr>) = Some sub" by simp
  have order: "ls = ns \<and> (\<forall>r \<in> set rs. readable (fst r) \<longrightarrow> g (fst r) = named '''' (fst r))"
    if lists: "lists_members (\<lambda>i. browse C i c) N (m_startNodeId p) (named '''' t)"
  proof -
    have fits: "same_type t (fst r)" "well_typed (fst r)" if "r \<in> set rs" for r
      using assms(12) that by (auto simp: list_all_iff sent_ok_def)
    note ordered = seen_in_order [OF assms(3,2,4) _ _ _ assms(7)]
    have "ls = ns"
    proof -
      have "listed C c t (child_id N (objects_folder N) (named n t)) = ns"
        by (rule listed_in_order [OF lists [unfolded assms(8)] assms(3,7)])
      then show ?thesis using assms(8,9) by simp
    qed
    then show ?thesis using ordered fits assms(15) by fastforce
  qed
  have all: "notified sub' = map (named '''' \<circ> fst) rs"
    if "lists_members (\<lambda>i. browse C i c) N (m_startNodeId p) (named '''' t)" "\<forall>r \<in> set rs. readable (fst r)"
    using that sub' order by auto
  show ?thesis
    using s1(1) pc p' run conjunct2 [OF sub'] upd order all by blast
qed

definition pose_refs :: "node_id \<Rightarrow> browse_ref list list" where
  "pose_refs i = (if i = StrId 1 ''85.pose'' then
     [[\<lparr> ref_name = ''BaseObjectType'', ref_class = CLASS_OTHER, ref_target = NumId 0 58 \<rparr>,
       \<lparr> ref_name = ''x'', ref_class = CLASS_VARIABLE, ref_target = StrId 1 ''85.pose.x'' \<rparr>,
       \<lparr> ref_name = ''frame'', ref_class = CLASS_VARIABLE, ref_target = StrId 1 ''85.pose.frame'' \<rparr>]] else [])"

definition pose_client :: push_client where
  "pose_client = \<lparr> pc_connected = True, m_startNodeId = StrId 1 ''85.pose'', m_pSubscription = None, m_pReader = None \<rparr>"

definition pose_puts :: "(desc \<times> nat list) list" where
  "pose_puts = [(sample_pose 7 ''a'', [1, 0]), (sample_pose 8 ''b'', [0, 1])]"

lemma pose_seen:
  "seen std_api (sample_pose 0 '''') [StrId 1 ''85.pose.x'', StrId 1 ''85.pose.frame''] [StrId 1 ''85.pose.x'', StrId 1 ''85.pose.frame'']
     (sample_pose x s) = Inr (named '''' (sample_pose x s))"
  using decode_pose [of x s] by (simp add: seen_def sample_pose_def int_variant_def str_variant_def prim_cells_def)

theorem push_reaches_client_witness:
  "\<exists>q s1 p' sub ps' sub'. new_push_server std_api sample_ns std_server ''pose'' (sample_pose 0 '''') (empty_space sample_ns) = (Inr q, s1) \<and>
    pc_subscribe (std_client pose_refs) (\<lambda>_. None) (sample_pose 0 '''') (pose_client, 0) = Inr (SMART_OK, p', 3) \<and>
    m_pSubscription p' = Some sub \<and>
    push_rounds std_api sample_ns std_server (\<lambda>s. s) (sample_pose 0 '''') [2, 3] [StrId 1 ''85.pose.x'', StrId 1 ''85.pose.frame'']
      pose_puts ((q, s1), sub) = (ps', sub') \<and>
    notified sub' = [named '''' (sample_pose 7 ''a''), named '''' (sample_pose 8 ''b'')] \<and>
    getUpdate (p' \<lparr> m_pSubscription := Some sub' \<rparr>) (sample_pose 0 '''') = Inr (Some (SMART_OK, named '''' (sample_pose 8 ''b'')))"
proof -
  let ?x = "StrId 1 ''85.pose.x''" and ?f = "StrId 1 ''85.pose.frame''"
  note sample = sample_pose_def dot_free_def empty_space_def child_id_def objects_folder_def pose_client_def
    pose_refs_def std_client_def sample_ns_def show_nat_85
  have ls: "[?x, ?f] = listed (std_client pose_refs) 0 (sample_pose 0 '''') (m_startNodeId pose_client)"
    by (simp add: listed_def sample getDescriptionByName_def)
  have ns: "[?x, ?f] = leaf_ids sample_ns (objects_folder sample_ns) (named ''pose'' (sample_pose 0 ''''))"
    by (simp add: sample)
  have fresh: "list_all (\<lambda>x. empty_space sample_ns (fst x) = None) (tree_nodes sample_ns (objects_folder sample_ns) (named ''pose'' (sample_pose 0 '''')))"
    by (simp add: sample)
  have puts: "list_all (sent_ok (sample_pose 0 '''') (length [?x, ?f])) pose_puts" "pose_puts \<noteq> []" "length pose_puts < 2 ^ 63"
    "\<forall>r \<in> set pose_puts. seen std_api (sample_pose 0 '''') [?x, ?f] [?x, ?f] (fst r) = Inr (named '''' (fst r))"
    using pose_seen by (auto simp: pose_puts_def sent_ok_def sample_pose_def simp del: named.simps)
  have conn: "pc_connected pose_client" "m_pSubscription pose_client = None" by (simp_all add: pose_client_def)
  have items: "create_subscription (std_client pose_refs) 0 = ((0, 1), 1)" "create_items (std_client pose_refs) 1 [?x, ?f] 1 = Some ([2, 3], 3)"
    "distinct [2, 3 :: 32 word]" by (simp_all add: std_client_def)
  have start: "m_startNodeId pose_client = child_id sample_ns (objects_folder sample_ns) (named ''pose'' (sample_pose 0 ''''))"
    and space: "names_ok (sample_pose 0 '''')" "blank (sample_pose 0 '''')" "empty_space sample_ns (objects_folder sample_ns) \<noteq> None"
    by (simp_all add: sample)
  have all: "set [?x, ?f] \<subseteq> set [?x, ?f]" "[?x, ?f] \<noteq> []" by simp_all
  note round = push_reaches_client [OF std_server_ok std_api_ok, where t = "sample_pose 0 ''''" and s = "empty_space sample_ns" and N = sample_ns
      and n = "''pose''" and ns = "[?x, ?f]" and ls = "[?x, ?f]" and p = pose_client and rs = pose_puts and g = "named ''''"
      and order = "\<lambda>_. None" and d = "sample_pose 0 ''''" and C = "std_client pose_refs" and c = 0, OF space fresh ns start ls all puts conn items]
  have got: "map (named '''' \<circ> fst) pose_puts = [named '''' (sample_pose 7 ''a''), named '''' (sample_pose 8 ''b'')]"
    "fst (last pose_puts) = sample_pose 8 ''b''" by (simp_all add: pose_puts_def del: named.simps)
  show ?thesis using round unfolding got by blast
qed

subsection \<open>From the put of an event server to the event at a client\<close>

text \<open>Puts of states, each followed by the notifications of the nodes of the activation, closed ones included.\<close>

fun event_rounds :: "ua_api \<Rightarrow> namespaces \<Rightarrow> 's server_api \<Rightarrow> ('s \<Rightarrow> node_id \<Rightarrow> ua_node option) \<Rightarrow> (desc \<Rightarrow> desc \<Rightarrow> bool \<times> desc)
    \<Rightarrow> desc \<Rightarrow> 32 word list \<Rightarrow> node_id list \<Rightarrow> (desc \<times> nat list) list \<Rightarrow> (event_server \<times> 's) \<times> subscription
    \<Rightarrow> (event_server \<times> 's) \<times> subscription" where
  "event_rounds a N A look testEvent fresh is ns [] st = st"
| "event_rounds a N A look testEvent fresh is ns ((d, ks) # rs) (es, sub) =
     (let es' = snd (put_event a N A testEvent d es)
      in event_rounds a N A look testEvent fresh is ns rs
        (es', snd (notify_all a fresh (notifications (look (snd es')) is ns ks) sub)))"

lemma notify_closed:
  "list_all (\<lambda>(i, dv). dv_status dv = None \<and> dv_value dv = None) xs \<Longrightarrow> notify_all a fresh xs s = (Inr (), s)"
  by (induction xs) (auto simp: valueChanged_def)

text \<open>The states for which the event fires for the parameter \<open>p\<close>, as the client sees them.\<close>

definition fired :: "(desc \<Rightarrow> desc) \<Rightarrow> (desc \<Rightarrow> desc \<Rightarrow> bool \<times> desc) \<Rightarrow> desc \<Rightarrow> (desc \<times> nat list) list \<Rightarrow> desc list" where
  "fired g testEvent p rs = map (g \<circ> fst) (filter (\<lambda>r. fst (testEvent p (fst r))) rs)"

lemma fired_simps [simp]:
  "fired g T p [] = []" "fired g T p (r # rs) = (if fst (T p (fst r)) then [g (fst r)] else []) @ fired g T p rs"
  by (simp_all add: fired_def)

lemma event_rounds_deliver:
  assumes "server_ok A look" "api_ok a" "addressable i" "names_ok t" "set ls \<subseteq> set ns"
    and "list_all (\<lambda>(k, q, e). \<not> is_array e) (tree_nodes N i (named n t))" "ns = leaf_ids N i (named n t)" "ls \<noteq> []"
    and "map fst ids = is" "length is = length ls" "distinct is" "list_all (sent_ok t (length ls)) rs"
    and "m_EventInfos es = [(i, p)]" "es_service es = n" "nodes_at (look s) N i (named n t) (if m_disabled es then 0 else 1)"
    and "sub_ok t ids (\<lambda>_. None) xs sub" "length xs + length rs < 2 ^ 63"
    and "\<forall>r \<in> set rs. fst (T p (fst r)) \<longrightarrow> seen a t ns ls (fst r) = Inr (g (fst r))"
  shows "sub_ok t ids (\<lambda>_. None) (xs @ fired g T p rs) (snd (event_rounds a N A look T t is ls rs ((es, s), sub)))"
  using assms(12-18)
proof (induction rs arbitrary: es s xs sub)
  case (Cons r rs)
  obtain d ks where r: "r = (d, ks)" by (cases r)
  have sent: "sent_ok t (length ls) (d, ks)" using Cons.prems(1) r by simp
  have fits: "fits_event t d" using sent by (simp add: sent_ok_def fits_event_def)
  obtain disabled s1 where s1: "put_event a N A T d (es, s) = (Inr SMART_OK, es \<lparr> m_disabled := disabled \<rparr>, s1)"
    "nodes_at (look s1) N i (named n t) (if disabled then 0 else 1)"
    "shown (look s1) N i (named n t) = (if fst (T p d) then map Some (variants_of d) else replicate (length ns) None)"
    using event_put_follows [where testEvent = T, OF assms(1-4) fits, of N es p s] assms(6,7) Cons.prems(2-4) by auto
  let ?ns = "notifications (look s1) is ls ks"
  obtain sub' where sub': "notify_all a t ?ns sub = (Inr (), sub')"
    "sub_ok t ids (\<lambda>_. None) (xs @ (if fst (T p d) then [g d] else [])) sub'"
  proof (cases "fst (T p d)")
    case True
    have g: "seen a t ns ls d = Inr (g d)" using Cons.prems(7) r True by simp
    have "full_round a t (map fst ids) (?ns, g d)"
      unfolding assms(9) by (rule notifications_round [OF _ assms(10,11,5) g sent]) (use s1(3) True assms(7) in \<open>simp add: shown_def\<close>)
    moreover have "ids \<noteq> []" using assms(8,9,10) by auto
    ultimately obtain sub1 where "notify_all a t ?ns sub = (Inr (), sub1)" "sub_ok t ids (\<lambda>_. None) (xs @ [g d]) sub1"
      using one_round [OF Cons.prems(5) assms(2)] Cons.prems(6) by fastforce
    with True show ?thesis using that by simp
  next
    case False
    have "readable_value (look s1 j) = None" if "j \<in> set ls" for j
    proof -
      have "j \<in> set ns" using that assms(5) by blast
      then obtain k where k: "k < length ns" "j = ns ! k" by (auto simp: in_set_conv_nth)
      then have "shown (look s1) N i (named n t) ! k = None" using s1(3) False by simp
      then show ?thesis using k assms(7) by (simp add: shown_def)
    qed
    then have closed: "readable_value (look s1 (ls ! k)) = None" if "k \<in> set ks" for k
      using that sent by (simp add: sent_ok_def)
    have "notify_all a t ?ns sub = (Inr (), sub)"
      by (intro notify_closed) (simp add: notifications_def list_all_iff closed)
    with False Cons.prems(5) show ?thesis using that by simp
  qed
  have "length (xs @ (if fst (T p d) then [g d] else [])) + length rs < 2 ^ 63" using Cons.prems(6) by simp
  from Cons.IH [OF _ _ _ _ sub'(2) this _, of "es \<lparr> m_disabled := disabled \<rparr>" s1]
  show ?case using Cons.prems(1-4,7) s1(1,2) sub'(1) r by (cases "fst (T p d)") (simp_all add: Let_def)
qed simp


definition near_server :: event_server where
  "near_server = \<lparr> es_service = ''near'', m_EventInfos = [], m_disabled = True \<rparr>"

definition near_refs :: "node_id \<Rightarrow> browse_ref list list" where
  "near_refs i = (if i = StrId 2 ''50000.near'' then
     [[\<lparr> ref_name = ''x'', ref_class = CLASS_VARIABLE, ref_target = StrId 2 ''50000.near.x'' \<rparr>,
       \<lparr> ref_name = ''frame'', ref_class = CLASS_VARIABLE, ref_target = StrId 2 ''50000.near.frame'' \<rparr>]] else [])"

definition near_states :: "(desc \<times> nat list) list" where
  "near_states = [(sample_pose 5 ''a'', [1, 0]), (sample_pose 2 ''b'', [0, 1]), (sample_pose 7 ''c'', [0, 1])]"

definition near_call :: "32 word call_method" where
  "near_call i m vs c = ((0, [Some (StrId 2 ''50000.near'')]), c)"

lemma show_nat_50000: "show_nat 50000 = ''50000''"
  by (simp add: show_nat.simps digit_char_def char_of_def bit_Suc_0_iff)


lemma near_seen:
  "seen std_api (sample_pose 0 '''') [StrId 2 ''50000.near.x'', StrId 2 ''50000.near.frame''] [StrId 2 ''50000.near.x'', StrId 2 ''50000.near.frame'']
     (sample_pose x s) = Inr (named '''' (sample_pose x s))"
  using decode_pose [of x s] by (simp add: seen_def sample_pose_def int_variant_def str_variant_def prim_cells_def)


subsection \<open>From the name of a service to its node\<close>

text \<open>C22: Looking up a service by name leads to the node the service was opened under, whatever its pattern: if the
  namespace of the SDK stands first at the index the server uses, the identifier the naming service
  computes is the one of the method of a query server, of the method of a send server, and of the object
  under which a push server keeps its variables.\<close>

theorem lookup_reaches_service:
  assumes "api_ok a" "getConnectionByName a A serverName (n, w) = Some (Inr c, n1, w1)"
    and "readValueAttribute A c (NumId 0 2255) w1 = ((0, v), w2)" "hasArrayType A v UA_STRING"
    and "vdata v = Strs ss" "vlen v = length ss" "unat (ns1 N) < length ss" "ss ! unat (ns1 N) = seronet_namespace"
    and "\<And>j. j < unat (ns1 N) \<Longrightarrow> ss ! j \<noteq> seronet_namespace" "no_nul service" "getName d = service"
  shows "\<exists>i. getConnectionAndNodeIdByName a A serverName service (n, w) = Some (Inr (c, i), n1, w2) \<and>
    i = mn_id (query_method a N service t u) \<and> i = mn_id (send_method a N service t) \<and>
    generateNodeId a N (objects_folder N) d = Inr i"
proof -
  have nul: "no_nul (''85.'' @ service)" using assms(10) by (simp add: no_nul_def)
  have "getConnectionAndNodeIdByName a A serverName service (n, w) = Some (Inr (c, StrId (ns1 N) (''85.'' @ service)), n1, w2)"
    using lookup_node [OF assms(1-9)] by simp
  then show ?thesis using nul assms(1,10,11)
    by (simp add: query_method_def send_method_def generateNodeId_ok child_id_def objects_folder_def show_nat_85 api_okD)
qed

theorem lookup_reaches_service_witness:
  "\<exists>i. getConnectionAndNodeIdByName std_api demo_network ''robot'' ''pose'' (new_naming, 18) = Some (Inr (0, i), new_naming
      \<lparr> m_serverUrl := [''robot'' \<mapsto> ''opc.tcp://localhost:4840''], m_connectionCache := [''robot'' \<mapsto> 0],
        connections := [\<lparr> owners = 1, bound_name = ''robot'', loop_runs = True \<rparr>] \<rparr>, 26) \<and>
    i = mn_id (query_method std_api sample_ns ''pose'' (sample_pose 0 '''') (sample_pose 0 '''')) \<and>
    i = mn_id (send_method std_api sample_ns ''pose'' (sample_pose 0 '''')) \<and>
    generateNodeId std_api sample_ns (objects_folder sample_ns) (named ''pose'' (sample_pose 0 '''')) = Inr i"
  by (rule lookup_reaches_service [OF std_api_ok demo_connects, where ss = "[''http://opcfoundation.org/UA/'', seronet_namespace]"
        and v = "Variant (Some UA_STRING) 2 [] (Strs [''http://opcfoundation.org/UA/'', seronet_namespace])"])
    (simp_all add: demo_network_def sample_ns_def seronet_namespace_def no_nul_def sample_pose_def)

end
